(* ===== verification/Lattice_Prelude.thy ===== *)
theory Lattice_Prelude
  imports Main "HOL-Library.Word" "HOL-Library.Char_ord"
begin

text \<open>
  The prelude of the development: machine integer names, results with errors as values, and
  the text and list routines of the Rust standard library that several components use. Texts
  are \<open>string\<close>, the list of the bytes of the Rust \<open>str\<close>; only ASCII white space is
  trimmed. The collection \<open>result_simps\<close> holds the rewrite rules that turn the result
  plumbing of the code (\<open>?\<close>, \<open>ok_or\<close>, \<open>map_err\<close>) into case distinctions.
\<close>

section \<open>Machine integers\<close>

type_synonym u8 = "8 word"
type_synonym u16 = "16 word"
type_synonym u32 = "32 word"
type_synonym u64 = "64 word"
type_synonym byte = "8 word"
type_synonym bytes = "8 word list"

abbreviation u16_max :: nat where "u16_max \<equiv> 65535"
abbreviation u32_max :: nat where "u32_max \<equiv> 4294967295"
abbreviation u64_max :: nat where "u64_max \<equiv> 18446744073709551615"

lemma unat_u16_max: "unat (w :: u16) \<le> u16_max"
  using unsigned_less [where 'a = nat and w = w] by simp

lemma unat_u32_max: "unat (w :: u32) \<le> u32_max"
  using unsigned_less [where 'a = nat and w = w] by simp

lemma unat_u64_max: "unat (w :: u64) \<le> u64_max"
  using unsigned_less [where 'a = nat and w = w] by simp

lemma unat_of_nat_u16: "n \<le> u16_max \<Longrightarrow> unat (of_nat n :: u16) = n"
  by (simp add: unat_of_nat)

lemma unat_of_nat_u32: "n \<le> u32_max \<Longrightarrow> unat (of_nat n :: u32) = n"
  by (simp add: unat_of_nat)

lemma unat_of_nat_u64: "n \<le> u64_max \<Longrightarrow> unat (of_nat n :: u64) = n"
  by (simp add: unat_of_nat)

section \<open>Results\<close>

named_theorems result_simps "rewrite rules of the result plumbing"

text \<open>Rust's \<open>?\<close> operator: continue with the value, or return the error.\<close>

definition rbind :: "'e + 'a \<Rightarrow> ('a \<Rightarrow> 'e + 'b) \<Rightarrow> 'e + 'b" where
  "rbind r f = (case r of Inl e \<Rightarrow> Inl e | Inr x \<Rightarrow> f x)"

definition map_err :: "('e \<Rightarrow> 'f) \<Rightarrow> 'e + 'a \<Rightarrow> 'f + 'a" where
  "map_err f r = (case r of Inl e \<Rightarrow> Inl (f e) | Inr x \<Rightarrow> Inr x)"

definition ok_or :: "'e \<Rightarrow> 'a option \<Rightarrow> 'e + 'a" where
  "ok_or e r = (case r of None \<Rightarrow> Inl e | Some x \<Rightarrow> Inr x)"

definition guard :: "bool \<Rightarrow> 'e \<Rightarrow> 'e + unit" where
  "guard b e = (if b then Inr () else Inl e)"

abbreviation is_ok :: "'e + 'a \<Rightarrow> bool" where
  "is_ok r \<equiv> (case r of Inl _ \<Rightarrow> False | Inr _ \<Rightarrow> True)"

lemma rbind_Inl [simp, result_simps]: "rbind (Inl e) f = Inl e"
  and rbind_Inr [simp, result_simps]: "rbind (Inr x) f = f x"
  by (simp_all add: rbind_def)

lemma rbind_eq_Inr [result_simps]: "rbind r f = Inr y \<longleftrightarrow> (\<exists>x. r = Inr x \<and> f x = Inr y)"
  by (cases r) auto

lemma rbind_eq_Inl [result_simps]:
  "rbind r f = Inl e \<longleftrightarrow> r = Inl e \<or> (\<exists>x. r = Inr x \<and> f x = Inl e)"
  by (cases r) auto

lemma rbind_assoc: "rbind (rbind r f) g = rbind r (\<lambda>x. rbind (f x) g)"
  by (cases r) auto

lemma map_err_simps [simp, result_simps]: "map_err f (Inl e) = Inl (f e)" "map_err f (Inr x) = Inr x"
  by (simp_all add: map_err_def)

lemma map_err_eq_Inr [result_simps]: "map_err f r = Inr x \<longleftrightarrow> r = Inr x"
  by (cases r) auto

lemma map_err_eq_Inl [result_simps]: "map_err f r = Inl x \<longleftrightarrow> (\<exists>e. r = Inl e \<and> x = f e)"
  by (cases r) auto

lemma ok_or_simps [simp, result_simps]: "ok_or e None = Inl e" "ok_or e (Some x) = Inr x"
  by (simp_all add: ok_or_def)

lemma ok_or_eq_Inr [result_simps]: "ok_or e r = Inr x \<longleftrightarrow> r = Some x"
  by (cases r) auto

lemma ok_or_eq_Inl [result_simps]: "ok_or e r = Inl x \<longleftrightarrow> r = None \<and> x = e"
  by (cases r) auto

lemma guard_simps [simp, result_simps]: "guard True e = Inr ()" "guard False e = Inl e"
  by (simp_all add: guard_def)

lemma guard_eq_Inr [result_simps]: "guard b e = Inr u \<longleftrightarrow> b"
  by (cases b) auto

lemma guard_eq_Inl [result_simps]: "guard b e = Inl x \<longleftrightarrow> \<not> b \<and> x = e"
  by (cases b) auto

lemma rbind_guard: "rbind (guard b e) f = (if b then f () else Inl e)"
  by (simp add: guard_def)

text \<open>A loop that stops at the first error: \<open>for x in xs { acc = step(acc, x)? }\<close>.\<close>

fun try_fold :: "('s \<Rightarrow> 'a \<Rightarrow> 'e + 's) \<Rightarrow> 's \<Rightarrow> 'a list \<Rightarrow> 'e + 's" where
  "try_fold f s [] = Inr s"
| "try_fold f s (x # xs) = rbind (f s x) (\<lambda>s'. try_fold f s' xs)"

lemma try_fold_append: "try_fold f s (xs @ ys) = rbind (try_fold f s xs) (\<lambda>s'. try_fold f s' ys)"
  by (induction xs arbitrary: s) (auto simp: rbind_assoc)

lemma try_fold_invariant:
  assumes "try_fold f s xs = Inr s'" and "P s"
    and "\<And>s x s'. x \<in> set xs \<Longrightarrow> P s \<Longrightarrow> f s x = Inr s' \<Longrightarrow> P s'"
  shows "P s'"
  using assms
proof (induction xs arbitrary: s)
  case (Cons x xs)
  from Cons.prems(1) obtain s1 where "f s x = Inr s1" "try_fold f s1 xs = Inr s'"
    by (auto simp: rbind_eq_Inr)
  with Cons show ?case by (meson list.set_intros)
qed simp

section \<open>Optional values\<close>

lemma bind_eq_Some [simp]: "Option.bind r f = Some y \<longleftrightarrow> (\<exists>x. r = Some x \<and> f x = Some y)"
  by (cases r) auto

section \<open>Decimal numbers\<close>

definition digit_char :: "nat \<Rightarrow> char" where
  "digit_char d = char_of (48 + d)"

definition is_digit :: "char \<Rightarrow> bool" where
  "is_digit c \<longleftrightarrow> 48 \<le> (of_char c :: nat) \<and> (of_char c :: nat) \<le> 57"

definition digit_val :: "char \<Rightarrow> nat" where
  "digit_val c = of_char c - 48"

text \<open>The decimal text of an unsigned integer (\<open>to_string\<close>, \<open>{}\<close>).\<close>

fun show_nat :: "nat \<Rightarrow> string" where
  "show_nat n = (if n < 10 then [digit_char n] else show_nat (n div 10) @ [digit_char (n mod 10)])"

declare show_nat.simps [simp del]

definition digits_val :: "string \<Rightarrow> nat" where
  "digits_val s = foldl (\<lambda>v c. 10 * v + digit_val c) 0 s"

text \<open>
  \<open>str::parse\<close> at an unsigned integer type whose largest value is the first argument: one
  optional \<open>+\<close>, at least one digit, nothing else, and no overflow.
\<close>

definition parse_uint :: "nat \<Rightarrow> string \<Rightarrow> nat option" where
  "parse_uint largest s =
     (let ds = (case s of [] \<Rightarrow> [] | c # cs \<Rightarrow> if c = CHR ''+'' then cs else s) in
      if ds = [] \<or> \<not> list_all is_digit ds then None
      else if digits_val ds \<le> largest then Some (digits_val ds) else None)"

lemma of_char_digit: "d < 10 \<Longrightarrow> (of_char (digit_char d) :: nat) = 48 + d"
  by (simp add: digit_char_def)

lemma is_digit_digit_char [simp]: "d < 10 \<Longrightarrow> is_digit (digit_char d)"
  by (simp add: is_digit_def of_char_digit)

lemma digit_val_digit_char [simp]: "d < 10 \<Longrightarrow> digit_val (digit_char d) = d"
  by (simp add: digit_val_def of_char_digit)

lemma digits_val_Nil [simp]: "digits_val [] = 0"
  by (simp add: digits_val_def)

lemma digits_val_snoc [simp]: "digits_val (s @ [c]) = 10 * digits_val s + digit_val c"
  by (simp add: digits_val_def)

lemma show_nat_nonempty [simp]: "show_nat n \<noteq> []"
  by (subst show_nat.simps) simp

lemma show_nat_digits: "list_all is_digit (show_nat n)"
proof (induction n rule: show_nat.induct)
  case (1 n)
  then show ?case by (cases "n < 10") (simp_all add: show_nat.simps [of n])
qed

lemma digits_val_show_nat [simp]: "digits_val (show_nat n) = n"
proof (induction n rule: show_nat.induct)
  case (1 n)
  show ?case
  proof (cases "n < 10")
    case True
    then show ?thesis by (simp add: show_nat.simps [of n] digits_val_def)
  next
    case False
    with 1 show ?thesis by (simp add: show_nat.simps [of n])
  qed
qed

lemma not_digit_plus: "is_digit c \<Longrightarrow> c \<noteq> CHR ''+''"
  by (auto simp: is_digit_def)

lemma parse_show_nat: "n \<le> largest \<Longrightarrow> parse_uint largest (show_nat n) = Some n"
proof -
  assume n: "n \<le> largest"
  obtain c cs where s: "show_nat n = c # cs"
    by (cases "show_nat n") simp_all
  with show_nat_digits [of n] have "c \<noteq> CHR ''+''"
    by (auto dest: not_digit_plus)
  then show ?thesis
    using n show_nat_digits [of n] digits_val_show_nat [of n] s
    by (simp add: parse_uint_def)
qed

lemma parse_uint_bound: "parse_uint largest s = Some n \<Longrightarrow> n \<le> largest"
  by (auto simp: parse_uint_def Let_def split: if_splits)

lemma show_nat_inject: "show_nat m = show_nat n \<longleftrightarrow> m = n"
  by (metis digits_val_show_nat)

section \<open>Texts\<close>

definition is_ws :: "char \<Rightarrow> bool" where
  "is_ws c \<longleftrightarrow> (of_char c :: nat) \<in> {9, 10, 11, 12, 13, 32}"

definition trim :: "string \<Rightarrow> string" where
  "trim s = rev (dropWhile is_ws (rev (dropWhile is_ws s)))"

definition split_once :: "char \<Rightarrow> string \<Rightarrow> (string \<times> string) option" where
  "split_once c s =
     (if c \<in> set s then Some (takeWhile (\<lambda>x. x \<noteq> c) s, tl (dropWhile (\<lambda>x. x \<noteq> c) s)) else None)"

text \<open>\<open>s.split(c).next()\<close>: the text before the first \<open>c\<close>, or all of it.\<close>

definition split_first :: "char \<Rightarrow> string \<Rightarrow> string" where
  "split_first c s = takeWhile (\<lambda>x. x \<noteq> c) s"

definition strip_prefix :: "string \<Rightarrow> string \<Rightarrow> string option" where
  "strip_prefix p s = (if take (length p) s = p then Some (drop (length p) s) else None)"

definition strip_suffix :: "string \<Rightarrow> string \<Rightarrow> string option" where
  "strip_suffix p s = map_option rev (strip_prefix (rev p) (rev s))"

definition starts_with :: "string \<Rightarrow> string \<Rightarrow> bool" where
  "starts_with p s \<longleftrightarrow> take (length p) s = p"

text \<open>\<open>[a, b, c].join(sep)\<close>.\<close>

fun join :: "string \<Rightarrow> string list \<Rightarrow> string" where
  "join sep [] = []"
| "join sep [x] = x"
| "join sep (x # y # xs) = x @ sep @ join sep (y # xs)"

lemma dropWhile_none: "list_all (\<lambda>c. \<not> P c) s \<Longrightarrow> dropWhile P s = s"
  by (cases s) simp_all

lemma trim_no_ws: "list_all (\<lambda>c. \<not> is_ws c) s \<Longrightarrow> trim s = s"
  by (simp add: trim_def dropWhile_none)

lemma strip_prefix_append [simp]: "strip_prefix p (p @ s) = Some s"
  by (simp add: strip_prefix_def)

lemma strip_prefix_Some: "strip_prefix p s = Some r \<longleftrightarrow> s = p @ r"
  by (auto simp: strip_prefix_def) (metis append_take_drop_id)

lemma starts_with_append [simp]: "starts_with p (p @ s)"
  by (simp add: starts_with_def)

lemma split_at_first:
  assumes "c \<notin> set a"
  shows "takeWhile (\<lambda>x. x \<noteq> c) (a @ c # b) = a" and "dropWhile (\<lambda>x. x \<noteq> c) (a @ c # b) = c # b"
  using assms by (induction a) auto

lemma split_once_append:
  "c \<notin> set a \<Longrightarrow> split_once c (a @ c # b) = Some (a, b)"
  by (simp add: split_once_def split_at_first)

lemma split_first_append [simp]: "c \<notin> set a \<Longrightarrow> split_first c (a @ c # b) = a"
  by (simp add: split_first_def split_at_first)

lemma split_once_Some: "split_once c s = Some (a, b) \<longleftrightarrow> s = a @ c # b \<and> c \<notin> set a"
proof
  assume h: "split_once c s = Some (a, b)"
  then have c: "c \<in> set s" and a: "a = takeWhile (\<lambda>x. x \<noteq> c) s" and b: "b = tl (dropWhile (\<lambda>x. x \<noteq> c) s)"
    by (auto simp: split_once_def split: if_splits)
  from c have ne: "dropWhile (\<lambda>x. x \<noteq> c) s \<noteq> []" by (auto simp: dropWhile_eq_Nil_conv)
  then have "hd (dropWhile (\<lambda>x. x \<noteq> c) s) = c" using hd_dropWhile by blast
  with ne b have "dropWhile (\<lambda>x. x \<noteq> c) s = c # b" by (metis list.collapse)
  then have "s = a @ c # b" using a takeWhile_dropWhile_id by metis
  then show "s = a @ c # b \<and> c \<notin> set a" using a by (auto dest: set_takeWhileD)
qed (auto simp: split_once_append)

section \<open>Lists\<close>

lemma find_append: "find P (xs @ ys) = (case find P xs of None \<Rightarrow> find P ys | Some x \<Rightarrow> Some x)"
  by (induction xs) simp_all

text \<open>\<open>min_by\<close> keeps the first of the smallest elements, \<open>max_by\<close> the last of the
  largest; the comparison is a strict order given as a function.\<close>

fun min_by :: "('a \<Rightarrow> 'a \<Rightarrow> bool) \<Rightarrow> 'a list \<Rightarrow> 'a option" where
  "min_by lt [] = None"
| "min_by lt (x # xs) = Some (foldl (\<lambda>best y. if lt y best then y else best) x xs)"

fun max_by :: "('a \<Rightarrow> 'a \<Rightarrow> bool) \<Rightarrow> 'a list \<Rightarrow> 'a option" where
  "max_by lt [] = None"
| "max_by lt (x # xs) = Some (foldl (\<lambda>best y. if lt y best then best else y) x xs)"

lemma foldl_pick_mem:
  "foldl (\<lambda>best y. if P y best then y else best) x xs \<in> insert x (set xs)"
  "foldl (\<lambda>best y. if P y best then best else y) x xs \<in> insert x (set xs)"
proof (induction xs arbitrary: x)
  case (Cons y ys)
  { case 1 show ?case using Cons.IH(1) [of "if P y x then y else x"] by auto }
  { case 2 show ?case using Cons.IH(2) [of "if P y x then x else y"] by auto }
qed simp_all

lemma min_by_mem: "min_by lt xs = Some x \<Longrightarrow> x \<in> set xs"
  by (cases xs) (use foldl_pick_mem(1) in force)+

lemma max_by_mem: "max_by lt xs = Some x \<Longrightarrow> x \<in> set xs"
  by (cases xs) (use foldl_pick_mem(2) in force)+

lemma min_by_None [simp]: "min_by lt xs = None \<longleftrightarrow> xs = []"
  by (cases xs) simp_all

lemma max_by_None [simp]: "max_by lt xs = None \<longleftrightarrow> xs = []"
  by (cases xs) simp_all

text \<open>For a key into a linear order, \<open>max_by\<close> returns the last position of the maximum.\<close>

lemma foldl_max_key:
  fixes key :: "'a \<Rightarrow> 'k::linorder"
  defines "b \<equiv> \<lambda>x xs. foldl (\<lambda>best y. if key y < key best then best else y) x xs"
  shows "key x \<le> key (b x xs) \<and> (\<forall>y \<in> set xs. key y \<le> key (b x xs))"
proof (induction xs arbitrary: x)
  case (Cons y ys)
  show ?case
  proof (cases "key y < key x")
    case True
    with Cons [of x] show ?thesis by (auto simp: b_def)
  next
    case False
    with Cons [of y] show ?thesis by (auto simp: b_def)
  qed
qed (simp add: b_def)

lemma max_by_key_ge:
  fixes key :: "'a \<Rightarrow> 'k::linorder"
  shows "max_by (\<lambda>x y. key x < key y) xs = Some m \<Longrightarrow> y \<in> set xs \<Longrightarrow> key y \<le> key m"
  by (cases xs) (auto simp: foldl_max_key)

text \<open>What \<open>max_by\<close> returns is the last of the largest.\<close>

lemma foldl_max_last:
  fixes key :: "'a \<Rightarrow> 'k::linorder"
  shows "foldl (\<lambda>best y. if key y < key best then best else y) x xs = b \<Longrightarrow>
    \<exists>ys zs. x # xs = ys @ b # zs \<and> (\<forall>z \<in> set zs. key z < key b)"
proof (induction xs arbitrary: x)
  case Nil
  then show ?case by (intro exI [of _ "[]"]) simp
next
  case (Cons y ys)
  show ?case
  proof (cases "key y < key x")
    case False
    then have "foldl (\<lambda>best y. if key y < key best then best else y) y ys = b" using Cons.prems by simp
    from Cons.IH [OF this] obtain us vs where "y # ys = us @ b # vs" "\<forall>z \<in> set vs. key z < key b" by blast
    then have "x # y # ys = (x # us) @ b # vs \<and> (\<forall>z \<in> set vs. key z < key b)" by simp
    then show ?thesis by blast
  next
    case True
    then have "foldl (\<lambda>best y. if key y < key best then best else y) x ys = b" using Cons.prems by simp
    from Cons.IH [OF this] obtain us vs where b: "x # ys = us @ b # vs" "\<forall>z \<in> set vs. key z < key b" by blast
    show ?thesis
    proof (cases us)
      case Nil
      then have "b = x" "vs = ys" using b(1) by simp_all
      with True b(2) have "x # y # ys = [] @ b # (y # vs) \<and> (\<forall>z \<in> set (y # vs). key z < key b)" by simp
      then show ?thesis by blast
    next
      case (Cons u us')
      then have "u = x" "ys = us' @ b # vs" using b(1) by simp_all
      then have "x # y # ys = (x # y # us') @ b # vs" by simp
      with b(2) show ?thesis by blast
    qed
  qed
qed

lemma max_by_last:
  fixes key :: "'a \<Rightarrow> 'k::linorder"
  assumes "max_by (\<lambda>x y. key x < key y) xs = Some m"
  obtains ys zs where "xs = ys @ m # zs" "\<forall>z \<in> set zs. key z < key m"
proof -
  obtain x xs' where x: "xs = x # xs'" using assms by (cases xs) auto
  with assms have "foldl (\<lambda>best y. if key y < key best then best else y) x xs' = m" by simp
  from foldl_max_last [OF this] x that show thesis by blast
qed

end
