(* ===== verification/Wire_Bytes.thy ===== *)
theory Wire_Bytes
  imports Lattice_Prelude
begin

text \<open>
  Bytes on the wire: the little-endian encodings of the fixed-width integers
  (\<open>to_le_bytes\<close>, \<open>from_le_bytes\<close>), the interface \<open>fixed_codec\<close> every fixed-width
  encoding of the program satisfies, and the two halves of a stream as the program uses them.
  A stream is reliable and ordered; what the program can observe of a failure is that the
  bytes it waits for never come, or that a write is not accepted. A receiving half therefore is
  the bytes still to come, and a sending half counts how many bytes the peer will take before
  the stream breaks (\<open>limit\<close>, \<open>None\<close> for a stream that does not break).
\<close>

section \<open>Little-endian integers\<close>

definition le_bytes :: "nat \<Rightarrow> 'a::len word \<Rightarrow> bytes" where
  "le_bytes n w = map (\<lambda>i. ucast (drop_bit (8 * i) w)) [0..<n]"

primrec le_word :: "bytes \<Rightarrow> 'a::len word" where
  "le_word [] = 0"
| "le_word (b # bs) = or (ucast b) (push_bit 8 (le_word bs))"

lemma length_le_bytes [simp]: "length (le_bytes n w) = n"
  by (simp add: le_bytes_def)

lemma bit_le_bytes:
  "i < n \<Longrightarrow> bit (le_bytes n w ! i) j \<longleftrightarrow> j < 8 \<and> bit w (8 * i + j)"
  by (auto simp: le_bytes_def bit_simps dest: bit_imp_le_length)

lemma bit_le_word:
  "bit (le_word bs :: 'a::len word) k \<longleftrightarrow>
     k < LENGTH('a) \<and> k < 8 * length bs \<and> bit (bs ! (k div 8)) (k mod 8)"
proof (induction bs arbitrary: k)
  case (Cons b bs)
  show ?case
  proof (cases "k < 8")
    case True
    then show ?thesis by (auto simp: bit_simps)
  next
    case False
    then obtain m where k: "k = m + 8" by (metis add.commute le_add_diff_inverse not_less)
    have "\<not> bit b k" using False bit_imp_le_length by force
    moreover have "(m + 8) div 8 = Suc (m div 8)" by simp
    ultimately
    show ?thesis
      using Cons [of m] by (auto simp: k bit_simps simp del: div_add_self2 dest: bit_imp_le_length)
  qed
qed simp

lemma le_word_le_bytes: "LENGTH('a) \<le> 8 * n \<Longrightarrow> le_word (le_bytes n w) = (w :: 'a::len word)"
  by (rule bit_eqI) (auto simp: bit_le_word bit_le_bytes less_mult_imp_div_less mult.commute
      dest: bit_imp_le_length)

lemma le_bytes_le_word:
  assumes "8 * length bs \<le> LENGTH('a)"
  shows "le_bytes (length bs) (le_word bs :: 'a::len word) = bs"
proof (rule nth_equalityI)
  fix i assume i: "i < length (le_bytes (length bs) (le_word bs :: 'a word))"
  show "le_bytes (length bs) (le_word bs :: 'a word) ! i = bs ! i"
  proof (rule bit_eqI)
    fix j assume "possible_bit TYPE(8 word) j"
    then have j: "j < 8" by simp
    with i assms have "8 * i + j < LENGTH('a)" and "8 * i + j < 8 * length bs" by simp_all
    with i j show "bit (le_bytes (length bs) (le_word bs :: 'a word) ! i) j = bit (bs ! i) j"
      by (simp add: bit_le_bytes bit_le_word)
  qed
qed simp

lemma le_bytes_le_word':
  "length bs = n \<Longrightarrow> 8 * n \<le> LENGTH('a) \<Longrightarrow> le_bytes n (le_word bs :: 'a::len word) = bs"
  using le_bytes_le_word [where 'a = 'a] by blast

section \<open>The interface of a fixed-width encoding\<close>

locale fixed_codec =
  fixes enc :: "'a \<Rightarrow> bytes" and dec :: "bytes \<Rightarrow> 'a" and width :: nat
  assumes length_enc: "length (enc x) = width"
    and dec_enc: "dec (enc x) = x"
    and enc_dec: "length bs = width \<Longrightarrow> enc (dec bs) = bs"
begin

declare length_enc [simp]

lemma take_enc [simp]: "take width (enc x @ rest) = enc x"
  by simp

lemma drop_enc [simp]: "drop width (enc x @ rest) = rest"
  by simp

lemma dec_prefix: "dec (take width (enc x @ rest)) = x"
  by (simp add: dec_enc)

lemma enc_inject: "enc x = enc y \<longleftrightarrow> x = y"
  by (metis dec_enc)

lemma enc_append_inject: "enc x @ s = enc y @ t \<longleftrightarrow> x = y \<and> s = t"
  by (metis append_eq_append_conv enc_inject length_enc)

end

interpretation le16: fixed_codec "le_bytes 2 :: u16 \<Rightarrow> bytes" le_word 2
  by unfold_locales (simp_all add: le_word_le_bytes le_bytes_le_word')

interpretation le32: fixed_codec "le_bytes 4 :: u32 \<Rightarrow> bytes" le_word 4
  by unfold_locales (simp_all add: le_word_le_bytes le_bytes_le_word')

interpretation le64: fixed_codec "le_bytes 8 :: u64 \<Rightarrow> bytes" le_word 8
  by unfold_locales (simp_all add: le_word_le_bytes le_bytes_le_word')

section \<open>The two halves of a stream\<close>

record rx =
  pending :: bytes
  rx_fault :: string

record tx =
  sent :: bytes
  limit :: "nat option"
  finished :: bool
  tx_fault :: string

definition read_exact :: "nat \<Rightarrow> rx \<Rightarrow> string + (bytes \<times> rx)" where
  "read_exact n r =
     (if n \<le> length (pending r) then Inr (take n (pending r), r\<lparr>pending := drop n (pending r)\<rparr>)
      else Inl (rx_fault r))"

definition accepts :: "tx \<Rightarrow> nat \<Rightarrow> bool" where
  "accepts s n \<longleftrightarrow> \<not> finished s \<and> (case limit s of None \<Rightarrow> True | Some k \<Rightarrow> length (sent s) + n \<le> k)"

text \<open>A write that fails may still have delivered a part of its bytes.\<close>

definition write_all :: "bytes \<Rightarrow> tx \<Rightarrow> (string + unit) \<times> tx" where
  "write_all bs s =
     (if accepts s (length bs) then (Inr (), s\<lparr>sent := sent s @ bs\<rparr>)
      else if finished s then (Inl (tx_fault s), s)
      else (Inl (tx_fault s), s\<lparr>sent := take (the (limit s)) (sent s @ bs)\<rparr>))"

definition finish :: "tx \<Rightarrow> (string + unit) \<times> tx" where
  "finish s = (if finished s then (Inl (tx_fault s), s) else (Inr (), s\<lparr>finished := True\<rparr>))"

lemma read_exact_append [simp]:
  "n = length bs \<Longrightarrow> pending r = bs @ rest \<Longrightarrow> read_exact n r = Inr (bs, r\<lparr>pending := rest\<rparr>)"
  by (simp add: read_exact_def)

lemma read_exact_Inr:
  "read_exact n r = Inr (bs, r') \<longleftrightarrow>
     n = length bs \<and> pending r = bs @ pending r' \<and> rx_fault r' = rx_fault r"
proof
  assume "read_exact n r = Inr (bs, r')"
  then show "n = length bs \<and> pending r = bs @ pending r' \<and> rx_fault r' = rx_fault r"
    by (auto simp: read_exact_def split: if_splits)
next
  assume h: "n = length bs \<and> pending r = bs @ pending r' \<and> rx_fault r' = rx_fault r"
  then have "read_exact n r = Inr (bs, r\<lparr>pending := pending r'\<rparr>)" by simp
  moreover have "r\<lparr>pending := pending r'\<rparr> = r'" using h by (cases r; cases r') simp
  ultimately show "read_exact n r = Inr (bs, r')" by simp
qed

lemma write_all_accepted: "accepts s (length bs) \<Longrightarrow> write_all bs s = (Inr (), s\<lparr>sent := sent s @ bs\<rparr>)"
  by (simp add: write_all_def)

lemma write_all_ok: "write_all bs s = (Inr u, s') \<Longrightarrow> s' = s\<lparr>sent := sent s @ bs\<rparr> \<and> accepts s (length bs)"
  by (auto simp: write_all_def split: if_splits)

lemma accepts_append:
  "accepts s (m + n) \<longleftrightarrow> accepts s m \<and> accepts (s\<lparr>sent := sent s @ bs\<rparr>) n" if "length bs = m"
  using that by (auto simp: accepts_def split: option.splits)

text \<open>The sending half never delivers more than the peer takes.\<close>

lemma write_all_limit:
  "limit s = Some k \<Longrightarrow> length (sent s) \<le> k \<Longrightarrow> length (sent (snd (write_all bs s))) \<le> k"
  by (auto simp: write_all_def accepts_def)

end
