(* ===== verification/Frame_Codec.thy ===== *)
theory Frame_Codec
  imports Wire_Bytes
begin

text \<open>
  The error type of the networking crate (\<open>crates/lattice-net/src/lib.rs\<close>) and the
  length-prefixed frames of \<open>crates/lattice-net/src/codec.rs\<close>. The lemmas show that a frame
  written on one side is read back unchanged on the other, that frames on one stream do not
  run into each other, and that nothing above the caller's ceiling is ever read.
\<close>

datatype net_error =
    Io string
  | KeyEncoding string
  | MalformedDeviceId string
  | Mdns string
  | TrustStoreCorrupt string
  | MalformedPairingCode
  | PairingFailed
  | PairingReflected
  | Postcard string
  | Certificate string
  | Rcgen string
  | Tls string
  | Connect string
  | ConnectionLost string
  | Rejected
  | Probe string
  | Stream string
  | StreamHeaderError string
  | NoDataDir

definition write_frame :: "bytes \<Rightarrow> tx \<Rightarrow> (net_error + unit) \<times> tx" where
  "write_frame payload send =
     (if length payload \<le> u32_max then
        (case write_all (le_bytes 4 (of_nat (length payload) :: u32)) send of
           (Inl e, send) \<Rightarrow> (Inl (Stream (''writing frame length: '' @ e)), send)
         | (Inr _, send) \<Rightarrow>
             (case write_all payload send of
                (Inl e, send) \<Rightarrow> (Inl (Stream (''writing frame: '' @ e)), send)
              | (Inr _, send) \<Rightarrow> (Inr (), send)))
      else (Inl (Stream ''frame exceeds 4 GiB''), send))"

definition read_frame :: "nat \<Rightarrow> rx \<Rightarrow> net_error + (bytes \<times> rx)" where
  "read_frame largest recv =
     rbind (map_err (\<lambda>e. Stream (''reading frame length: '' @ e)) (read_exact 4 recv)) (\<lambda>(header, recv).
       let len = unat (le_word header :: u32) in
       if len > largest
       then Inl (Stream (''peer announced a '' @ show_nat len @ '' byte frame, ceiling is '' @ show_nat largest))
       else map_err (\<lambda>e. Stream (''reading frame: '' @ e)) (read_exact len recv))"

definition frame :: "bytes \<Rightarrow> bytes" where
  "frame payload = le_bytes 4 (of_nat (length payload) :: u32) @ payload"

lemma length_frame [simp]: "length (frame p) = 4 + length p"
  by (simp add: frame_def)

declare unat_of_nat_u32 [simp]

lemma write_frame_sent:
  assumes "length p \<le> u32_max" and "accepts s (length (frame p))"
  shows "write_frame p s = (Inr (), s\<lparr>sent := sent s @ frame p\<rparr>)"
proof -
  from assms(2) have "accepts s 4"
    and "accepts (s\<lparr>sent := sent s @ le_bytes 4 (of_nat (length p) :: u32)\<rparr>) (length p)"
    using accepts_append [of "le_bytes 4 (of_nat (length p) :: u32)" 4 s "length p"] by simp_all
  with assms(1) show ?thesis
    by (simp add: write_frame_def write_all_accepted frame_def)
qed

lemma write_frame_ok:
  "write_frame p s = (Inr u, s') \<Longrightarrow> s' = s\<lparr>sent := sent s @ frame p\<rparr> \<and> length p \<le> u32_max"
  by (auto simp: write_frame_def frame_def split: if_splits prod.splits sum.splits dest!: write_all_ok)

lemma read_frame_frame:
  assumes "length p \<le> u32_max" and "length p \<le> largest" and "pending r = frame p @ rest"
  shows "read_frame largest r = Inr (p, r\<lparr>pending := rest\<rparr>)"
proof -
  have "read_exact 4 r = Inr (le_bytes 4 (of_nat (length p) :: u32), r\<lparr>pending := p @ rest\<rparr>)"
    using assms(3) by (simp add: frame_def)
  then show ?thesis
    using assms(1,2) by (simp add: read_frame_def le32.dec_enc)
qed

lemma read_frame_Inr:
  assumes "read_frame largest r = Inr (p, r')"
  shows "pending r = frame p @ pending r' \<and> length p \<le> largest \<and> length p \<le> u32_max"
proof -
  from assms obtain h r1 where h: "read_exact 4 r = Inr (h, r1)"
    and p: "read_exact (unat (le_word h :: u32)) r1 = Inr (p, r')"
    and le: "unat (le_word h :: u32) \<le> largest"
    by (auto simp: read_frame_def Let_def result_simps split: if_splits)
  from p have len: "length p = unat (le_word h :: u32)" and pend: "pending r1 = p @ pending r'"
    by (simp_all add: read_exact_Inr)
  from h have h4: "length h = 4" and r: "pending r = h @ pending r1"
    by (simp_all add: read_exact_Inr)
  have hd: "le_bytes 4 (of_nat (length p) :: u32) = h"
    unfolding len using le32.enc_dec [OF h4] by simp
  have "pending r = frame p @ pending r'"
    unfolding frame_def hd r pend by simp
  moreover have "length p \<le> largest" "length p \<le> u32_max"
    unfolding len using le unat_u32_max [of "le_word h"] by simp_all
  ultimately show ?thesis by blast
qed

text \<open>An announced length above the ceiling is refused whatever follows it.\<close>

lemma read_frame_over_ceiling:
  assumes "pending r = le_bytes 4 n @ rest" and "largest < unat (n :: u32)"
  shows "\<exists>why. read_frame largest r = Inl (Stream why)"
proof -
  have "read_exact 4 r = Inr (le_bytes 4 n, r\<lparr>pending := rest\<rparr>)" using assms(1) by simp
  then show ?thesis using assms(2) by (simp add: read_frame_def le32.dec_enc)
qed

text \<open>Successive frames of one stream, each read with the same ceiling.\<close>

fun read_frames :: "nat \<Rightarrow> nat \<Rightarrow> rx \<Rightarrow> net_error + (bytes list \<times> rx)" where
  "read_frames largest 0 r = Inr ([], r)"
| "read_frames largest (Suc n) r =
     rbind (read_frame largest r) (\<lambda>(p, r). rbind (read_frames largest n r) (\<lambda>(ps, r). Inr (p # ps, r)))"

fun write_frames :: "bytes list \<Rightarrow> tx \<Rightarrow> (net_error + unit) \<times> tx" where
  "write_frames [] s = (Inr (), s)"
| "write_frames (p # ps) s =
     (case write_frame p s of (Inl e, s) \<Rightarrow> (Inl e, s) | (Inr _, s) \<Rightarrow> write_frames ps s)"

lemma write_frames_ok:
  "write_frames ps s = (Inr u, s') \<Longrightarrow>
     sent s' = sent s @ concat (map frame ps) \<and> (\<forall>p \<in> set ps. length p \<le> u32_max)"
proof (induction ps arbitrary: s)
  case (Cons p ps)
  from Cons.prems obtain v s1 where w: "write_frame p s = (Inr v, s1)" "write_frames ps s1 = (Inr u, s')"
    by (auto split: prod.splits sum.splits)
  with Cons.IH [OF w(2)] write_frame_ok [OF w(1)] show ?case by simp
qed simp

lemma read_frames_frames:
  "\<forall>p \<in> set ps. length p \<le> u32_max \<and> length p \<le> largest \<Longrightarrow>
   pending r = concat (map frame ps) @ rest \<Longrightarrow>
   read_frames largest (length ps) r = Inr (ps, r\<lparr>pending := rest\<rparr>)"
proof (induction ps arbitrary: r)
  case (Cons p ps)
  then have "read_frame largest r = Inr (p, r\<lparr>pending := concat (map frame ps) @ rest\<rparr>)"
    by (simp add: read_frame_frame)
  with Cons show ?case by simp
qed simp

section \<open>Properties\<close>

text \<open>Framing is exact. A frame is read when, and only when, the bytes to come start with that frame
  and its length is within the caller's ceiling; the bytes after it are left for the next read.\<close>

theorem read_frame_exact:
  "(read_frame largest r = Inr (p, r')) =
    (pending r = frame p @ pending r' \<and> length p \<le> largest \<and> length p \<le> u32_max \<and> rx_fault r' = rx_fault r)"
proof
  assume h: "read_frame largest r = Inr (p, r')"
  then have "rx_fault r' = rx_fault r"
    by (auto simp: read_frame_def Let_def result_simps read_exact_Inr split: if_splits)
  with read_frame_Inr [OF h] show
    "pending r = frame p @ pending r' \<and> length p \<le> largest \<and> length p \<le> u32_max \<and> rx_fault r' = rx_fault r" by simp
next
  assume h: "pending r = frame p @ pending r' \<and> length p \<le> largest \<and> length p \<le> u32_max \<and> rx_fault r' = rx_fault r"
  then have "r\<lparr>pending := pending r'\<rparr> = r'" by (cases r; cases r') simp
  with h read_frame_frame [of p largest r "pending r'"] show "read_frame largest r = Inr (p, r')" by simp
qed

text \<open>What one side writes the other reads: a sequence of frames that was written without an error is
  read back as the same sequence, with nothing of what follows consumed.\<close>

theorem frames_round_trip:
  assumes "write_frames ps s = (Inr u, s')" and "sent s = []" and "\<forall>p \<in> set ps. length p \<le> largest"
    and "pending r = sent s' @ rest"
  shows "read_frames largest (length ps) r = Inr (ps, r\<lparr>pending := rest\<rparr>)"
  using write_frames_ok [OF assms(1)] assms(2-4) by (intro read_frames_frames) auto

theorem frames_round_trip_witness:
  "read_frames 10 2 \<lparr>pending = frame [1, 2] @ frame [] @ [9], rx_fault = []\<rparr> =
     Inr ([[1, 2], []], \<lparr>pending = [9], rx_fault = []\<rparr>)"
proof -
  let ?s = "\<lparr>sent = [], limit = None, finished = False, tx_fault = []\<rparr>"
  have "write_frames [[1, 2], []] ?s = (Inr (), ?s\<lparr>sent := frame [1, 2] @ frame []\<rparr>)"
    by (simp add: write_frame_sent accepts_def)
  from frames_round_trip [OF this, of 10 "\<lparr>pending = frame [1, 2] @ frame [] @ [9], rx_fault = []\<rparr>" "[9]"]
  show ?thesis by (simp add: numeral_2_eq_2)
qed

end
