(* ===== verification/Stream_Header.thy ===== *)
theory Stream_Header
  imports Frame_Codec
begin

text \<open>
  \<open>crates/lattice-net/src/stream.rs\<close>: the twenty bytes every stream opens with, and the
  stream priorities of \<open>transport.rs\<close>. The lemmas show that encoding and decoding are inverse
  to each other: the accepted headers are exactly the encoded ones.
\<close>

definition PRIORITY_CONTROL :: int where "PRIORITY_CONTROL = 1"
definition PRIORITY_ACTIVATION :: int where "PRIORITY_ACTIVATION = 0"
definition PRIORITY_BULK :: int where "PRIORITY_BULK = -1"

definition MAGIC :: u32 where "MAGIC = le_word [0x4C, 0x54, 0x43, 0x53]"
definition VERSION :: u16 where "VERSION = 1"
definition HEADER_LEN :: nat where "HEADER_LEN = 20"
definition NO_SESSION :: u64 where "NO_SESSION = 0"

datatype stream_kind = Control | Activation | Bulk | ProbeKind | InferenceRpc

fun kind_code :: "stream_kind \<Rightarrow> u16" where
  "kind_code Control = 1"
| "kind_code Activation = 2"
| "kind_code Bulk = 3"
| "kind_code ProbeKind = 4"
| "kind_code InferenceRpc = 5"

definition from_wire :: "u16 \<Rightarrow> net_error + stream_kind" where
  "from_wire v =
     (if v = 1 then Inr Control
      else if v = 2 then Inr Activation
      else if v = 3 then Inr Bulk
      else if v = 4 then Inr ProbeKind
      else if v = 5 then Inr InferenceRpc
      else Inl (StreamHeaderError (''unknown stream kind '' @ show_nat (unat v))))"

fun priority :: "stream_kind \<Rightarrow> int" where
  "priority Control = PRIORITY_CONTROL"
| "priority Activation = PRIORITY_ACTIVATION"
| "priority Bulk = PRIORITY_BULK"
| "priority ProbeKind = PRIORITY_ACTIVATION"
| "priority InferenceRpc = PRIORITY_ACTIVATION"

record stream_header =
  kind :: stream_kind
  session :: u64
  generation :: u32

definition control_header :: stream_header where
  "control_header = \<lparr>kind = Control, session = NO_SESSION, generation = 0\<rparr>"

definition encode_header :: "stream_header \<Rightarrow> bytes" where
  "encode_header h =
     le_bytes 4 MAGIC @ le_bytes 2 VERSION @ le_bytes 2 (kind_code (kind h)) @
     le_bytes 8 (session h) @ le_bytes 4 (generation h)"

definition decode_header :: "bytes \<Rightarrow> net_error + stream_header" where
  "decode_header bs =
     (if le_word (take 4 bs) \<noteq> MAGIC then Inl (StreamHeaderError ''not a lattice stream'')
      else let version = (le_word (take 2 (drop 4 bs)) :: u16) in
        if version \<noteq> VERSION
        then Inl (StreamHeaderError (''stream protocol v'' @ show_nat (unat version) @
                    '', this device speaks v'' @ show_nat (unat VERSION)))
        else rbind (from_wire (le_word (take 2 (drop 6 bs)))) (\<lambda>k.
          Inr \<lparr>kind = k, session = le_word (take 8 (drop 8 bs)), generation = le_word (take 4 (drop 16 bs))\<rparr>))"

lemma length_encode_header [simp]: "length (encode_header h) = HEADER_LEN"
  by (simp add: encode_header_def HEADER_LEN_def)

lemma from_wire_kind_code [simp]: "from_wire (kind_code k) = Inr k"
  by (cases k) (simp_all add: from_wire_def)

lemma from_wire_Inr: "from_wire v = Inr k \<longleftrightarrow> v = kind_code k"
  by (cases k) (auto simp: from_wire_def)

lemma decode_encode_header: "decode_header (encode_header h) = Inr h"
  by (cases h) (simp add: decode_header_def encode_header_def le16.dec_enc le32.dec_enc le64.dec_enc
      del: le16.drop_enc)

lemma split20:
  assumes "length bs = 20"
  obtains a b c d e where "bs = a @ b @ c @ d @ e" and "length a = 4" "length b = 2" "length c = 2"
    "length d = 8" "length e = 4"
proof
  have "take 4 bs @ drop 4 bs = bs" "take 2 (drop 4 bs) @ drop 6 bs = drop 4 bs"
    "take 2 (drop 6 bs) @ drop 8 bs = drop 6 bs" "take 8 (drop 8 bs) @ drop 16 bs = drop 8 bs"
    using append_take_drop_id [of 2 "drop 4 bs"] append_take_drop_id [of 2 "drop 6 bs"]
      append_take_drop_id [of 8 "drop 8 bs"] by simp_all
  then show "bs = take 4 bs @ take 2 (drop 4 bs) @ take 2 (drop 6 bs) @ take 8 (drop 8 bs) @ drop 16 bs"
    by simp
qed (use assms in simp_all)

lemma decode_header_Inr:
  assumes "length bs = HEADER_LEN" and "decode_header bs = Inr h"
  shows "bs = encode_header h"
proof -
  from assms(1) obtain a b c d e where bs: "bs = a @ b @ c @ d @ e"
    and len: "length a = 4" "length b = 2" "length c = 2" "length d = 8" "length e = 4"
    by (auto simp: HEADER_LEN_def elim: split20)
  from assms(2) have "le_word a = MAGIC" "le_word b = VERSION" "le_word c = kind_code (kind h)"
    and "session h = le_word d" "generation h = le_word e"
    by (auto simp: decode_header_def bs len Let_def result_simps from_wire_Inr split: if_splits)
  then show ?thesis
    using le32.enc_dec [of a] le16.enc_dec [of b] le16.enc_dec [of c] le64.enc_dec [of d]
      le32.enc_dec [of e] len
    by (simp add: bs encode_header_def)
qed

section \<open>Properties\<close>

text \<open>C27: The stream header is an exact code: of the twenty-byte strings, those a device accepts are the
  encodings of headers, and each decodes to the header it encodes.\<close>

theorem header_exact:
  assumes "length bs = HEADER_LEN"
  shows "(decode_header bs = Inr h) = (bs = encode_header h)"
  using decode_header_Inr [OF assms] decode_encode_header by blast

theorem header_exact_witness:
  "decode_header (encode_header \<lparr>kind = Activation, session = 9, generation = 2\<rparr>) =
     Inr \<lparr>kind = Activation, session = 9, generation = 2\<rparr>"
  using header_exact [of "encode_header \<lparr>kind = Activation, session = 9, generation = 2\<rparr>"] by simp

end
