(* ===== verification/Identity.thy ===== *)
theory Identity
  imports Frame_Codec "HOL-Library.List_Lexorder"
begin

text \<open>
  \<open>crates/lattice-net/src/identity.rs\<close>: device ids, their text form, and the device key file.
  The hash (\<open>sha2\<close>), the hexadecimal text (\<open>hex\<close>), the key derivation and the PEM text
  (\<open>ed25519-dalek\<close>) come from other packages and are arguments; \<open>hex_laws\<close> and
  \<open>pem_laws\<close> state what is used of them. Keys are given by their bytes.
\<close>

section \<open>Files\<close>

text \<open>A file as the program meets it, and whether the next directory creation and write succeed.\<close>

datatype 'a stored = Missing | Present 'a nat | Unreadable string

record 'a disk =
  content :: "'a stored"
  mkdir_result :: "string + unit"
  write_result :: "string + unit"

definition default_mode :: nat where "default_mode = 420"
definition private_mode :: nat where "private_mode = 384"

definition write_file :: "'a \<Rightarrow> 'a disk \<Rightarrow> (string + unit) \<times> 'a disk" where
  "write_file c d =
     (case write_result d of
        Inl e \<Rightarrow> (Inl e, d)
      | Inr _ \<Rightarrow> (Inr (), d\<lparr>content := Present c (case content d of Present _ m \<Rightarrow> m | _ \<Rightarrow> default_mode)\<rparr>))"

section \<open>Device ids\<close>

datatype device_id = DeviceId (id_bytes: bytes)

instantiation device_id :: linorder
begin

definition less_eq_device_id :: "device_id \<Rightarrow> device_id \<Rightarrow> bool" where
  "less_eq_device_id a b \<longleftrightarrow> id_bytes a \<le> id_bytes b"

definition less_device_id :: "device_id \<Rightarrow> device_id \<Rightarrow> bool" where
  "less_device_id a b \<longleftrightarrow> id_bytes a < id_bytes b"

instance
  by intro_classes
    (auto simp: less_eq_device_id_def less_device_id_def device_id.expand less_le_not_le intro: order_trans)

end

definition from_public_key :: "(bytes \<Rightarrow> bytes) \<Rightarrow> bytes \<Rightarrow> device_id" where
  "from_public_key sha256 key = DeviceId (take 8 (sha256 key))"

definition show_id :: "(bytes \<Rightarrow> string) \<Rightarrow> device_id \<Rightarrow> string" where
  "show_id hex i = hex (id_bytes i)"

definition parse_id :: "(nat \<Rightarrow> string \<Rightarrow> bytes option) \<Rightarrow> string \<Rightarrow> net_error + device_id" where
  "parse_id unhex s = (case unhex 8 s of None \<Rightarrow> Inl (MalformedDeviceId s) | Some bs \<Rightarrow> Inr (DeviceId bs))"

definition id_ok :: "device_id \<Rightarrow> bool" where
  "id_ok i \<longleftrightarrow> length (id_bytes i) = 8"

text \<open>
  What the program relies on of the hexadecimal routines: decoding into a buffer of \<open>n\<close> bytes
  succeeds only on texts of \<open>2 n\<close> characters, inverts encoding, and the encoded text has
  two characters, none of them a dot, for every byte.
\<close>

definition hex_laws :: "(bytes \<Rightarrow> string) \<Rightarrow> (nat \<Rightarrow> string \<Rightarrow> bytes option) \<Rightarrow> bool" where
  "hex_laws hex unhex \<longleftrightarrow>
     (\<forall>bs. unhex (length bs) (hex bs) = Some bs) \<and>
     (\<forall>bs. length (hex bs) = 2 * length bs \<and> CHR ''.'' \<notin> set (hex bs)) \<and>
     (\<forall>n s bs. unhex n s = Some bs \<longrightarrow> length bs = n \<and> length s = 2 * n)"

lemma parse_show_id: "hex_laws hex unhex \<Longrightarrow> id_ok i \<Longrightarrow> parse_id unhex (show_id hex i) = Inr i"
  unfolding hex_laws_def id_ok_def parse_id_def show_id_def
  by (metis device_id.collapse option.simps(5))

lemma parse_id_ok: "hex_laws hex unhex \<Longrightarrow> parse_id unhex s = Inr i \<Longrightarrow> id_ok i \<and> length s = 16"
  by (fastforce simp: hex_laws_def id_ok_def parse_id_def split: option.splits)

lemma from_public_key_ok: "(\<And>bs. length (sha256 bs) = 32) \<Longrightarrow> id_ok (from_public_key sha256 key)"
  by (simp add: id_ok_def from_public_key_def)

section \<open>The device key\<close>

record device_key =
  signing :: bytes
  key_id :: device_id

definition write_private :: "string \<Rightarrow> string disk \<Rightarrow> (string + unit) \<times> string disk" where
  "write_private pem d =
     (case write_file pem d of
        (Inl e, d) \<Rightarrow> (Inl e, d)
      | (Inr _, d) \<Rightarrow> (Inr (), d\<lparr>content := (case content d of Present c _ \<Rightarrow> Present c private_mode | f \<Rightarrow> f)\<rparr>))"

definition load_or_create ::
    "(bytes \<Rightarrow> bytes) \<Rightarrow> (bytes \<Rightarrow> bytes) \<Rightarrow> (string \<Rightarrow> string + bytes) \<Rightarrow> (bytes \<Rightarrow> string + string) \<Rightarrow>
     bytes \<Rightarrow> string disk \<Rightarrow> (net_error + device_key) \<times> string disk" where
  "load_or_create sha256 verifying from_pem to_pem random d =
     (let made = (\<lambda>s. \<lparr>signing = s, key_id = from_public_key sha256 (verifying s)\<rparr>) in
      case content d of
        Present pem _ \<Rightarrow> (map_err KeyEncoding (rbind (from_pem pem) (\<lambda>s. Inr (made s))), d)
      | Missing \<Rightarrow>
          (case mkdir_result d of
             Inl e \<Rightarrow> (Inl (Io e), d)
           | Inr _ \<Rightarrow>
               (case to_pem random of
                  Inl e \<Rightarrow> (Inl (KeyEncoding e), d)
                | Inr pem \<Rightarrow>
                    (case write_private pem d of
                       (Inl e, d) \<Rightarrow> (Inl (Io e), d)
                     | (Inr _, d) \<Rightarrow> (Inr (made random), d))))
      | Unreadable e \<Rightarrow> (Inl (Io e), d))"

definition pem_laws :: "(string \<Rightarrow> string + bytes) \<Rightarrow> (bytes \<Rightarrow> string + string) \<Rightarrow> bool" where
  "pem_laws from_pem to_pem \<longleftrightarrow> (\<forall>s pem. to_pem s = Inr pem \<longrightarrow> from_pem pem = Inr s)"

lemma load_or_create_file:
  "load_or_create sha verifying from_pem to_pem random d = (Inr k, d') \<Longrightarrow> pem_laws from_pem to_pem \<Longrightarrow>
     \<exists>pem m. content d' = Present pem m \<and> from_pem pem = Inr (signing k) \<and>
       (content d = Missing \<longrightarrow> m = private_mode) \<and> key_id k = from_public_key sha (verifying (signing k))"
  by (auto simp: load_or_create_def write_private_def write_file_def pem_laws_def Let_def result_simps
      split: stored.splits sum.splits prod.splits)

lemma load_existing:
  "content d = Present pem m \<Longrightarrow> from_pem pem = Inr s \<Longrightarrow>
     load_or_create sha verifying from_pem to_pem random d =
       (Inr \<lparr>signing = s, key_id = from_public_key sha (verifying s)\<rparr>, d)"
  by (simp add: load_or_create_def)

end
