(* ===== verification/Ordered_Map.thy ===== *)
theory Ordered_Map
  imports Lattice_Prelude
begin

text \<open>
  The \<open>BTreeMap\<close> of the Rust standard library as the program uses it: insertion, removal,
  lookup and iteration in ascending key order. A map is the list of its entries in that order.
  The interface \<open>ordered_map\<close> states what its clients rely on.
\<close>

type_synonym ('k, 'v) btree = "('k \<times> 'v) list"

fun bt_insert :: "'k::linorder \<Rightarrow> 'v \<Rightarrow> ('k, 'v) btree \<Rightarrow> ('k, 'v) btree" where
  "bt_insert k v [] = [(k, v)]"
| "bt_insert k v ((k', v') # m) =
     (if k < k' then (k, v) # (k', v') # m
      else if k = k' then (k, v) # m
      else (k', v') # bt_insert k v m)"

definition bt_remove :: "'k::linorder \<Rightarrow> ('k, 'v) btree \<Rightarrow> ('k, 'v) btree" where
  "bt_remove k m = filter (\<lambda>(k', _). k' \<noteq> k) m"

definition bt_get :: "('k::linorder, 'v) btree \<Rightarrow> 'k \<Rightarrow> 'v option" where
  "bt_get m = map_of m"

definition bt_values :: "('k::linorder, 'v) btree \<Rightarrow> 'v list" where
  "bt_values m = map snd m"

text \<open>\<open>iter.collect()\<close>: insert one entry after the other, so a later entry wins.\<close>

definition bt_collect :: "('k::linorder \<times> 'v) list \<Rightarrow> ('k, 'v) btree" where
  "bt_collect es = foldl (\<lambda>m (k, v). bt_insert k v m) [] es"

definition bt_wf :: "('k::linorder, 'v) btree \<Rightarrow> bool" where
  "bt_wf m \<longleftrightarrow> sorted_wrt (<) (map fst m)"

lemma bt_wf_Nil [simp]: "bt_wf []"
  by (simp add: bt_wf_def)

lemma bt_wf_Cons: "bt_wf ((k, v) # m) \<longleftrightarrow> bt_wf m \<and> (\<forall>x \<in> fst ` set m. k < x)"
  by (auto simp: bt_wf_def)

lemma keys_bt_insert [simp]: "fst ` set (bt_insert k v m) = insert k (fst ` set m)"
  by (induction k v m rule: bt_insert.induct) (simp_all add: insert_commute)

lemma bt_wf_insert: "bt_wf m \<Longrightarrow> bt_wf (bt_insert k v m)"
  by (induction k v m rule: bt_insert.induct) (fastforce simp: bt_wf_Cons)+

lemma bt_wf_remove: "bt_wf m \<Longrightarrow> bt_wf (bt_remove k m)"
  by (induction m) (auto simp: bt_remove_def bt_wf_Cons)

lemma bt_get_insert: "bt_get (bt_insert k v m) = (bt_get m)(k \<mapsto> v)"
  by (induction m) (auto simp: bt_get_def fun_eq_iff)

lemma bt_get_remove: "bt_get (bt_remove k m) = (bt_get m)(k := None)"
  by (induction m) (auto simp: bt_get_def bt_remove_def fun_eq_iff)

lemma bt_get_Nil [simp]: "bt_get [] k = None"
  by (simp add: bt_get_def)

lemma bt_wf_distinct: "bt_wf m \<Longrightarrow> distinct (map fst m)"
  by (auto simp: bt_wf_def strict_sorted_iff)

lemma bt_get_iff: "bt_wf m \<Longrightarrow> bt_get m k = Some v \<longleftrightarrow> (k, v) \<in> set m"
  by (simp add: bt_get_def bt_wf_distinct)

lemma bt_values_set: "bt_wf m \<Longrightarrow> set (bt_values m) = ran (bt_get m)"
  by (force simp: bt_values_def ran_def bt_get_iff image_iff)

lemma bt_wf_fold: "bt_wf m \<Longrightarrow> bt_wf (foldl (\<lambda>m (k, v). bt_insert k v m) m es)"
  by (induction es arbitrary: m) (auto simp: bt_wf_insert split: prod.splits)

lemma bt_wf_collect [simp]: "bt_wf (bt_collect es)"
  by (simp add: bt_collect_def bt_wf_fold)

lemma bt_get_fold:
  "bt_get (foldl (\<lambda>m (k, v). bt_insert k v m) m es) = bt_get m ++ map_of (rev es)"
proof (induction es rule: rev_induct)
  case (snoc e es)
  then show ?case by (cases e) (auto simp: bt_get_insert fun_eq_iff map_add_def)
qed simp

lemma bt_get_collect: "bt_get (bt_collect es) = map_of (rev es)"
  by (simp add: bt_collect_def bt_get_fold fun_eq_iff map_add_def split: option.split)

text \<open>Two maps with the same lookups are the same list, so maps can be compared by content.\<close>

lemma bt_ext: "bt_wf m \<Longrightarrow> bt_wf n \<Longrightarrow> bt_get m = bt_get n \<Longrightarrow> m = n"
proof -
  assume wf: "bt_wf m" "bt_wf n" and eq: "bt_get m = bt_get n"
  have "set m = set n" using wf eq by (metis bt_get_iff subsetI subset_antisym surj_pair)
  moreover have "sorted_wrt (\<lambda>a b. fst a < fst b) m" "sorted_wrt (\<lambda>a b. fst a < fst b) n"
    using wf by (auto simp: bt_wf_def sorted_wrt_map)
  moreover have "sorted_wrt (\<lambda>a b. fst a < fst b) xs \<Longrightarrow> sorted_wrt (\<lambda>a b. fst a < fst b) ys \<Longrightarrow>
      set xs = set ys \<Longrightarrow> xs = ys" for xs ys :: "('a \<times> 'b) list"
  proof (induction xs arbitrary: ys)
    case (Cons x xs)
    then obtain y ys' where ys: "ys = y # ys'" by (cases ys) auto
    have xy: "x = y" using Cons.prems ys
      by (metis list.set_intros(1) not_less_iff_gr_or_eq set_ConsD sorted_wrt.simps(2))
    moreover have "x \<notin> set xs" "y \<notin> set ys'" using Cons.prems ys by auto
    ultimately have "set xs = set ys'" using Cons.prems(3) ys by auto
    with Cons ys xy show ?case by simp
  qed simp
  ultimately show "m = n" by blast
qed

lemma bt_collect_entries: "bt_wf m \<Longrightarrow> bt_collect m = m"
proof -
  assume wf: "bt_wf m"
  then have "map_of (rev m) = map_of m"
    by (subst map_of_inject_set) (auto dest: bt_wf_distinct simp flip: rev_map)
  with wf show ?thesis by (intro bt_ext) (simp_all add: bt_get_collect, simp add: bt_get_def)
qed

section \<open>The interface\<close>

locale ordered_map =
  fixes emp :: 'm and ins :: "'k \<Rightarrow> 'v \<Rightarrow> 'm \<Rightarrow> 'm" and del :: "'k \<Rightarrow> 'm \<Rightarrow> 'm"
    and look :: "'m \<Rightarrow> 'k \<Rightarrow> 'v option" and vals :: "'m \<Rightarrow> 'v list" and wf :: "'m \<Rightarrow> bool"
  assumes look_emp: "look emp = Map.empty"
    and look_ins: "wf m \<Longrightarrow> look (ins k v m) = (look m)(k \<mapsto> v)"
    and look_del: "wf m \<Longrightarrow> look (del k m) = (look m)(k := None)"
    and vals_ran: "wf m \<Longrightarrow> set (vals m) = ran (look m)"
    and wf_emp: "wf emp"
    and wf_ins: "wf m \<Longrightarrow> wf (ins k v m)"
    and wf_del: "wf m \<Longrightarrow> wf (del k m)"
begin

lemma look_ins_same: "wf m \<Longrightarrow> look (ins k v m) k = Some v"
  by (simp add: look_ins)

lemma look_ins_other: "wf m \<Longrightarrow> k' \<noteq> k \<Longrightarrow> look (ins k v m) k' = look m k'"
  by (simp add: look_ins)

lemma look_del_same: "wf m \<Longrightarrow> look (del k m) k = None"
  by (simp add: look_del)

lemma vals_del: "wf m \<Longrightarrow> v \<in> set (vals (del k m)) \<Longrightarrow> v \<in> set (vals m)"
  by (auto simp: vals_ran wf_del look_del ran_def split: if_splits)

lemma vals_ins: "wf m \<Longrightarrow> set (vals (ins k v m)) \<subseteq> insert v (set (vals m))"
  by (auto simp: vals_ran wf_ins look_ins ran_def split: if_splits)

end

interpretation bt: ordered_map "[]" bt_insert bt_remove bt_get bt_values bt_wf
  by unfold_locales
    (simp_all add: fun_eq_iff bt_get_insert bt_get_remove bt_values_set bt_wf_insert bt_wf_remove)

end
