(* ===== verification/Trust.thy ===== *)
theory Trust
  imports Identity Ordered_Map
begin

text \<open>
  \<open>crates/lattice-net/src/trust.rs\<close>: the store of paired devices. The JSON text of the file
  (\<open>serde_json\<close>) is an argument; \<open>json_laws\<close> states that reading inverts writing. The
  lemmas show that every operation keeps the store keyed by device id, that a successful
  operation leaves the file in agreement with the memory, and that trust is decided by the
  exact key on record.
\<close>

record paired_peer =
  device_id :: device_id
  public_key :: bytes
  name :: string
  platform :: string
  paired_at :: nat
  introduced_by :: "device_id option"

definition new_peer :: "(bytes \<Rightarrow> bytes) \<Rightarrow> nat \<Rightarrow> bytes \<Rightarrow> string \<Rightarrow> string \<Rightarrow> paired_peer" where
  "new_peer sha256 now key n p =
     \<lparr>device_id = from_public_key sha256 key, public_key = key, name = n, platform = p,
      paired_at = now, introduced_by = None\<rparr>"

definition introduced_peer ::
    "(bytes \<Rightarrow> bytes) \<Rightarrow> nat \<Rightarrow> bytes \<Rightarrow> string \<Rightarrow> string \<Rightarrow> device_id \<Rightarrow> paired_peer" where
  "introduced_peer sha256 now key n p by_id = (new_peer sha256 now key n p)\<lparr>introduced_by := Some by_id\<rparr>"

definition origin :: "(bytes \<Rightarrow> string) \<Rightarrow> paired_peer \<Rightarrow> string" where
  "origin hex p =
     (case introduced_by p of Some i \<Rightarrow> ''introduced by '' @ show_id hex i | None \<Rightarrow> ''paired directly'')"

type_synonym trust_store = "(device_id, paired_peer) btree"

definition trust_load :: "(bytes \<Rightarrow> string + paired_peer list) \<Rightarrow> bytes disk \<Rightarrow> net_error + trust_store" where
  "trust_load from_json d =
     (case content d of
        Present bs _ \<Rightarrow>
          map_err TrustStoreCorrupt (rbind (from_json bs) (\<lambda>ps. Inr (bt_collect (map (\<lambda>p. (device_id p, p)) ps))))
      | Missing \<Rightarrow> Inr []
      | Unreadable e \<Rightarrow> Inl (Io e))"

definition trust_save ::
    "(paired_peer list \<Rightarrow> string + bytes) \<Rightarrow> trust_store \<Rightarrow> bytes disk \<Rightarrow> (net_error + unit) \<times> bytes disk" where
  "trust_save to_json ps d =
     (case mkdir_result d of
        Inl e \<Rightarrow> (Inl (Io e), d)
      | Inr _ \<Rightarrow>
          (case to_json (bt_values ps) of
             Inl e \<Rightarrow> (Inl (TrustStoreCorrupt e), d)
           | Inr bs \<Rightarrow> (case write_file bs d of (r, d) \<Rightarrow> (map_err Io r, d))))"

text \<open>Memory changes before the file is written, and stays changed when the write fails.\<close>

definition trust_insert ::
    "(paired_peer list \<Rightarrow> string + bytes) \<Rightarrow> paired_peer \<Rightarrow> trust_store \<times> bytes disk \<Rightarrow>
     (net_error + unit) \<times> trust_store \<times> bytes disk" where
  "trust_insert to_json p st =
     (let ps = bt_insert (device_id p) p (fst st) in
      case trust_save to_json ps (snd st) of (r, d) \<Rightarrow> (r, ps, d))"

definition trust_remove ::
    "(paired_peer list \<Rightarrow> string + bytes) \<Rightarrow> device_id \<Rightarrow> trust_store \<times> bytes disk \<Rightarrow>
     (net_error + bool) \<times> trust_store \<times> bytes disk" where
  "trust_remove to_json i st =
     (let removed = bt_get (fst st) i \<noteq> None; ps = bt_remove i (fst st) in
      if removed
      then (case trust_save to_json ps (snd st) of (r, d) \<Rightarrow> (rbind r (\<lambda>_. Inr removed), ps, d))
      else (Inr removed, ps, snd st))"

definition trust_get :: "trust_store \<Rightarrow> device_id \<Rightarrow> paired_peer option" where
  "trust_get ps i = bt_get ps i"

definition is_trusted :: "(bytes \<Rightarrow> bytes) \<Rightarrow> trust_store \<Rightarrow> bytes \<Rightarrow> bool" where
  "is_trusted sha256 ps key =
     (case bt_get ps (from_public_key sha256 key) of None \<Rightarrow> False | Some p \<Rightarrow> public_key p = key)"

definition trust_peers :: "trust_store \<Rightarrow> paired_peer list" where
  "trust_peers ps = bt_values ps"

text \<open>A key in the file is its hexadecimal text; \<open>check\<close> is the check that bytes are a key.\<close>

datatype key_error = KeyNotHex | KeyNotOnCurve string

definition serialize_key :: "(bytes \<Rightarrow> string) \<Rightarrow> bytes \<Rightarrow> string" where
  "serialize_key hex key = hex key"

definition deserialize_key ::
    "(nat \<Rightarrow> string \<Rightarrow> bytes option) \<Rightarrow> (bytes \<Rightarrow> string + bytes) \<Rightarrow> string \<Rightarrow> key_error + bytes" where
  "deserialize_key unhex check text =
     (case unhex 32 text of
        None \<Rightarrow> Inl KeyNotHex
      | Some bs \<Rightarrow> map_err KeyNotOnCurve (check bs))"

text \<open>The policy of a served endpoint; a poisoned lock (\<open>None\<close>) fails closed.\<close>

definition trusted_peers_accept :: "(bytes \<Rightarrow> bytes) \<Rightarrow> trust_store option \<Rightarrow> bytes \<Rightarrow> bool" where
  "trusted_peers_accept sha256 lock key = (case lock of None \<Rightarrow> False | Some ps \<Rightarrow> is_trusted sha256 ps key)"

section \<open>The invariant of the store\<close>

definition store_wf :: "trust_store \<Rightarrow> bool" where
  "store_wf ps \<longleftrightarrow> bt_wf ps \<and> (\<forall>(i, p) \<in> set ps. device_id p = i)"

definition json_laws :: "(bytes \<Rightarrow> string + paired_peer list) \<Rightarrow> (paired_peer list \<Rightarrow> string + bytes) \<Rightarrow> bool" where
  "json_laws from_json to_json \<longleftrightarrow> (\<forall>ps bs. to_json ps = Inr bs \<longrightarrow> from_json bs = Inr ps)"

lemma key_text:
  assumes "hex_laws hex unhex" and "length key = 32"
  shows "deserialize_key unhex check (serialize_key hex key) = map_err KeyNotOnCurve (check key)"
proof -
  have "unhex 32 (hex key) = Some key" using assms unfolding hex_laws_def by metis
  then show ?thesis by (simp add: deserialize_key_def serialize_key_def)
qed

lemma key_text_Inr:
  assumes "hex_laws hex unhex" and "deserialize_key unhex check text = Inr key"
  obtains bs where "length text = 64" "length bs = 32" "unhex 32 text = Some bs" "check bs = Inr key"
proof -
  from assms(2) obtain bs where bs: "unhex 32 text = Some bs" "check bs = Inr key"
    by (auto simp: deserialize_key_def result_simps split: option.splits)
  then have "length bs = 32 \<and> length text = 2 * 32" using assms(1) unfolding hex_laws_def by blast
  with bs show thesis by (intro that [of bs]) simp_all
qed

lemma store_wf_Nil [simp]: "store_wf []"
  by (simp add: store_wf_def)

lemma store_wf_get: "store_wf ps \<Longrightarrow> bt_get ps i = Some p \<Longrightarrow> device_id p = i"
  by (auto simp: store_wf_def bt_get_iff)

lemma store_wfI: "bt_wf ps \<Longrightarrow> (\<And>i p. bt_get ps i = Some p \<Longrightarrow> device_id p = i) \<Longrightarrow> store_wf ps"
  by (auto simp: store_wf_def bt_get_iff)

lemma store_wf_insert: "store_wf ps \<Longrightarrow> store_wf (bt_insert (device_id p) p ps)"
  by (rule store_wfI) (auto simp: bt_wf_insert bt_get_insert store_wf_def bt_get_iff split: if_splits)

lemma store_wf_remove: "store_wf ps \<Longrightarrow> store_wf (bt_remove i ps)"
  by (rule store_wfI) (auto simp: bt_wf_remove bt_get_remove store_wf_def bt_get_iff split: if_splits)

lemma store_wf_load: "trust_load from_json d = Inr ps \<Longrightarrow> store_wf ps"
  by (rule store_wfI)
    (auto simp: trust_load_def result_simps bt_get_collect split: stored.splits dest!: map_of_SomeD)

lemma store_entries: "store_wf ps \<Longrightarrow> map (\<lambda>p. (device_id p, p)) (bt_values ps) = ps"
  unfolding bt_values_def map_map by (rule map_idI) (auto simp: store_wf_def)

lemma trust_save_loads:
  assumes "json_laws from_json to_json" and "store_wf ps" and "trust_save to_json ps d = (Inr u, d')"
  shows "trust_load from_json d' = Inr ps"
proof -
  from assms(3) obtain bs m where "to_json (bt_values ps) = Inr bs" "content d' = Present bs m"
    by (auto simp: trust_save_def write_file_def result_simps split: sum.splits stored.splits)
  moreover from this assms(1) have "from_json bs = Inr (bt_values ps)" by (simp add: json_laws_def)
  ultimately show ?thesis
    using assms(2) by (simp add: trust_load_def store_entries bt_collect_entries store_wf_def)
qed

lemma trust_insert_memory: "trust_insert to_json p (ps, d) = (r, ps', d') \<Longrightarrow> ps' = bt_insert (device_id p) p ps"
  by (auto simp: trust_insert_def Let_def split: prod.splits)

lemma trust_insert_get:
  "trust_insert to_json p (ps, d) = (r, ps', d') \<Longrightarrow> trust_get ps' = (trust_get ps)(device_id p \<mapsto> p)"
  by (auto dest!: trust_insert_memory simp: trust_get_def bt_get_insert fun_eq_iff)

lemma trust_remove_memory: "trust_remove to_json i (ps, d) = (r, ps', d') \<Longrightarrow> ps' = bt_remove i ps"
  by (auto simp: trust_remove_def Let_def split: prod.splits if_splits)

lemma trust_remove_get:
  "trust_remove to_json i (ps, d) = (r, ps', d') \<Longrightarrow> trust_get ps' = (trust_get ps)(i := None)"
  by (auto dest!: trust_remove_memory simp: trust_get_def bt_get_remove fun_eq_iff)

lemmas trust_wf = store_wf_insert store_wf_remove store_wf_load

end
