(* ===== verification/Abi.thy ===== *)
theory Abi
  imports Lattice_Prelude
begin

text \<open>
  \<open>crates/lattice-engine/src/abi.rs\<close> and the error type of \<open>lib.rs\<close>: what crosses a shard
  boundary, what a shard is asked to hold, and the interface every engine implements. Floating
  point logits are kept as their bit patterns. The interface \<open>shard\<close> states what the callers
  of the trait \<open>Shard\<close> rely on; \<open>Candle_Shard\<close> provides it.
\<close>

datatype wire_dtype = F16 | F32
datatype kv_dtype = KvF16

fun wire_size :: "wire_dtype \<Rightarrow> nat" where
  "wire_size F16 = 2"
| "wire_size F32 = 4"

fun kv_size :: "kv_dtype \<Rightarrow> nat" where
  "kv_size KvF16 = 2"

record activation =
  n_tokens :: u32
  hidden_dim :: u32
  dtype :: wire_dtype
  payload_data :: bytes

datatype payload = Tokens "u32 list" | Hidden activation | Logits "u32 list"

fun payload_kind :: "payload \<Rightarrow> string" where
  "payload_kind (Tokens _) = ''tokens''"
| "payload_kind (Hidden _) = ''hidden states''"
| "payload_kind (Logits _) = ''logits''"

text \<open>\<open>Panicked\<close> is not in the source: it stands for the thread's panic, as a value.\<close>

datatype engine_error =
    Panicked
  | WrongPayload "nat \<times> nat" string
  | Shape nat nat u32 u32 wire_dtype
  | UnsupportedRange "nat \<times> nat" nat
  | UnsupportedArch string
  | UnknownSession u64
  | Engine string

text \<open>The wanted size is a product of \<open>usize\<close> values, 64 bits wide, and wraps.\<close>

definition wanted_bytes :: "u32 \<Rightarrow> u32 \<Rightarrow> wire_dtype \<Rightarrow> u64" where
  "wanted_bytes n h d = ucast n * ucast h * of_nat (wire_size d)"

definition activation_new :: "u32 \<Rightarrow> u32 \<Rightarrow> wire_dtype \<Rightarrow> bytes \<Rightarrow> engine_error + activation" where
  "activation_new n h d bs =
     (let want = unat (wanted_bytes n h d) in
      if length bs \<noteq> want then Inl (Shape (length bs) want n h d)
      else Inr \<lparr>n_tokens = n, hidden_dim = h, dtype = d, payload_data = bs\<rparr>)"

record shard_spec =
  model_hash :: string
  first_layer :: nat
  last_layer :: nat
  max_context :: nat
  spec_kv_dtype :: kv_dtype
  spec_wire_dtype :: wire_dtype

text \<open>Layer indices are \<open>u32\<close>; the subtraction is only reached with \<open>first \<le> last\<close>.\<close>

definition spec_layers :: "shard_spec \<Rightarrow> nat" where
  "spec_layers s = last_layer s - first_layer s"

record shard_stats =
  sessions :: nat
  kv_bytes_held :: u64
  weight_bytes_held :: nat
  decode_micros :: nat

lemma wanted_bytes_exact:
  assumes "unat n * unat h * wire_size d \<le> u64_max"
  shows "unat (wanted_bytes n h d) = unat n * unat h * wire_size d"
proof -
  have "wanted_bytes n h d = of_nat (unat n * unat h * wire_size d)"
    by (simp add: wanted_bytes_def)
  then show ?thesis by (simp only: unat_of_nat_u64 assms)
qed

lemma activation_new_Inr:
  "activation_new n h d bs = Inr a \<Longrightarrow>
     payload_data a = bs \<and> length bs = unat (wanted_bytes n h d) \<and> n_tokens a = n \<and> hidden_dim a = h \<and> dtype a = d"
  by (auto simp: activation_new_def Let_def split: if_splits)

section \<open>The interface of an engine\<close>

text \<open>
  A shard keeps at most one session: what it answers to a decode is determined by whether its
  session is the one asked about. \<open>active\<close> is the session whose keys and values it holds.
\<close>

locale shard =
  fixes prefill :: "'s \<Rightarrow> u64 \<Rightarrow> nat \<Rightarrow> payload \<Rightarrow> (engine_error + payload) \<times> 's"
    and decode :: "'s \<Rightarrow> u64 \<Rightarrow> nat \<Rightarrow> payload \<Rightarrow> (engine_error + payload) \<times> 's"
    and drop_session :: "'s \<Rightarrow> u64 \<Rightarrow> 's"
    and active :: "'s \<Rightarrow> u64 option"
  assumes prefill_active: "active (snd (prefill s i p x)) = Some i"
    and decode_active: "active (snd (decode s i p x)) = active s"
    and decode_unknown: "active s \<noteq> Some i \<Longrightarrow> decode s i p x = (Inl (UnknownSession i), s)"
    and drop_active: "active (drop_session s i) = (if active s = Some i then None else active s)"
    and drop_other: "active s \<noteq> Some i \<Longrightarrow> drop_session s i = s"
begin

lemma decode_after_drop: "decode (drop_session s i) i p x = (Inl (UnknownSession i), drop_session s i)"
  by (simp add: decode_unknown drop_active)

lemma drop_twice: "drop_session (drop_session s i) i = drop_session s i"
  by (simp add: drop_other drop_active)

lemma prefill_takes_over:
  "i \<noteq> j \<Longrightarrow> fst (decode (snd (prefill s i p x)) j q y) = Inl (UnknownSession j)"
  by (simp add: decode_unknown prefill_active)

end

end
