(* ===== verification/Facts.thy ===== *)
theory Facts
  imports Abi "HOL-Library.Multiset"
begin

text \<open>
  \<open>crates/lattice-engine/src/facts.rs\<close>: the shape of a model and the inventory of its tensors,
  read from the GGUF header. The parsed header is the data the \<open>candle\<close> reader hands over:
  a metadata map and the tensors in the arbitrary order of a hash map. The lemmas show what the
  inventory counts and that it does not depend on that order.
\<close>

section \<open>Metadata\<close>

datatype gguf_value =
    VU8 u8 | VU16 u16 | VU32 u32 | VU64 u64 | VString string | VOther string

type_synonym metadata = "string \<rightharpoonup> gguf_value"

record model_facts =
  arch :: string
  layers :: nat
  hidden_dim :: nat
  heads :: nat
  kv_heads :: nat
  train_context :: nat

definition missing :: "string \<Rightarrow> engine_error" where
  "missing key = Engine (''GGUF metadata has no '' @ key)"

text \<open>\<open>Value::to_string\<close> succeeds on strings only; its error text is the reader's own.\<close>

definition string_at :: "metadata \<Rightarrow> string \<Rightarrow> engine_error + string" where
  "string_at md key =
     rbind (ok_or (missing key) (md key)) (\<lambda>v.
       case v of VString s \<Rightarrow> Inr s | _ \<Rightarrow> Inl (Engine ''value is not a string''))"

definition u32_at :: "metadata \<Rightarrow> string \<Rightarrow> engine_error + nat" where
  "u32_at md key =
     rbind (ok_or (missing key) (md key)) (\<lambda>v.
       case v of
         VU8 w \<Rightarrow> Inr (unat w)
       | VU16 w \<Rightarrow> Inr (unat w)
       | VU32 w \<Rightarrow> Inr (unat w)
       | VU64 w \<Rightarrow>
           if unat w \<le> u32_max then Inr (unat w) else Inl (Engine (key @ '' is '' @ show_nat (unat w)))
       | VString _ \<Rightarrow> Inl (Engine (key @ '' is String, not an integer''))
       | VOther t \<Rightarrow> Inl (Engine (key @ '' is '' @ t @ '', not an integer'')))"

definition read_facts :: "metadata \<Rightarrow> engine_error + model_facts" where
  "read_facts md =
     rbind (string_at md ''general.architecture'') (\<lambda>a.
     rbind (u32_at md (a @ ''.attention.head_count'')) (\<lambda>hs.
     rbind (u32_at md (a @ ''.block_count'')) (\<lambda>ls.
     rbind (u32_at md (a @ ''.embedding_length'')) (\<lambda>hd.
     let kv = (case u32_at md (a @ ''.attention.head_count_kv'') of Inr n \<Rightarrow> n | Inl _ \<Rightarrow> hs) in
     rbind (u32_at md (a @ ''.context_length'')) (\<lambda>ctx.
     Inr \<lparr>arch = a, layers = ls, hidden_dim = hd, heads = hs, kv_heads = kv, train_context = ctx\<rparr>)))))"

text \<open>Integer division by zero panics: \<open>None\<close>.\<close>

definition head_dim :: "model_facts \<Rightarrow> nat option" where
  "head_dim f = (if heads f = 0 then None else Some (hidden_dim f div heads f))"

text \<open>Products of \<open>u64\<close> values, which wrap.\<close>

definition kv_bytes :: "model_facts \<Rightarrow> nat \<Rightarrow> nat \<Rightarrow> kv_dtype \<Rightarrow> u64 option" where
  "kv_bytes f ls ctx d =
     Option.bind (head_dim f) (\<lambda>hd.
       let per_token = (2 * of_nat (kv_heads f) * of_nat hd :: u64) in
       Some (per_token * of_nat ctx * of_nat ls * of_nat (kv_size d)))"

lemma u32_at_bound: "u32_at md key = Inr n \<Longrightarrow> n \<le> u32_max"
proof -
  have "unat (w :: u8) \<le> u32_max" "unat (v :: u16) \<le> u32_max" for w v
    using unsigned_less [where 'a = nat and w = w] unat_u16_max [of v] by simp_all
  moreover assume "u32_at md key = Inr n"
  ultimately show "n \<le> u32_max"
    by (cases "md key"; cases "the (md key)") (auto simp: u32_at_def unat_u32_max split: if_splits)
qed

lemma read_facts_Inr:
  "read_facts md = Inr f \<Longrightarrow>
     string_at md ''general.architecture'' = Inr (arch f) \<and>
     u32_at md (arch f @ ''.attention.head_count'') = Inr (heads f) \<and>
     u32_at md (arch f @ ''.block_count'') = Inr (layers f) \<and>
     u32_at md (arch f @ ''.embedding_length'') = Inr (hidden_dim f) \<and>
     u32_at md (arch f @ ''.context_length'') = Inr (train_context f) \<and>
     kv_heads f = (case u32_at md (arch f @ ''.attention.head_count_kv'') of Inr n \<Rightarrow> n | Inl _ \<Rightarrow> heads f)"
  by (auto simp: read_facts_def Let_def result_simps split: sum.split)

lemma read_facts_bounds:
  "read_facts md = Inr f \<Longrightarrow>
     layers f \<le> u32_max \<and> hidden_dim f \<le> u32_max \<and> heads f \<le> u32_max \<and> kv_heads f \<le> u32_max \<and>
     train_context f \<le> u32_max"
  by (auto dest!: read_facts_Inr u32_at_bound split: sum.split)

text \<open>Without the key for grouped queries every head has its own keys and values.\<close>

lemma read_facts_kv_default:
  "read_facts md = Inr f \<Longrightarrow> md (arch f @ ''.attention.head_count_kv'') = None \<Longrightarrow> kv_heads f = heads f"
  by (auto dest!: read_facts_Inr simp: u32_at_def)

lemma kv_bytes_exact:
  assumes "heads f \<noteq> 0"
    and "2 * kv_heads f * (hidden_dim f div heads f) * ctx * ls * kv_size d \<le> u64_max"
  shows "map_option unat (kv_bytes f ls ctx d) =
           Some (2 * kv_heads f * (hidden_dim f div heads f) * ctx * ls * kv_size d)"
proof -
  let ?n = "2 * kv_heads f * (hidden_dim f div heads f) * ctx * ls * kv_size d"
  have "kv_bytes f ls ctx d = Some (of_nat ?n)"
    using assms(1) by (simp add: kv_bytes_def head_dim_def Let_def)
  then show ?thesis by (simp only: option.map unat_of_nat_u64 assms(2))
qed

section \<open>The content address of a file\<close>

text \<open>
  The read loop: each read yields a chunk or an error, an empty chunk ends the file. The
  incremental hasher is given by the hash of all bytes fed to it.
\<close>

fun hash_reads :: "(bytes \<Rightarrow> bytes) \<Rightarrow> (bytes \<Rightarrow> string) \<Rightarrow> bytes \<Rightarrow> (string + bytes) list \<Rightarrow> engine_error + string" where
  "hash_reads sha256 hex acc [] = Inr (hex (sha256 acc))"
| "hash_reads sha256 hex acc (Inl e # rs) = Inl (Engine e)"
| "hash_reads sha256 hex acc (Inr chunk # rs) =
     (if chunk = [] then Inr (hex (sha256 acc)) else hash_reads sha256 hex (acc @ chunk) rs)"

definition hash_file :: "(bytes \<Rightarrow> bytes) \<Rightarrow> (bytes \<Rightarrow> string) \<Rightarrow> string + (string + bytes) list \<Rightarrow> engine_error + string" where
  "hash_file sha256 hex opened =
     rbind (map_err Engine opened) (\<lambda>reads. hash_reads sha256 hex [] reads)"

lemma hash_reads_chunks:
  "\<forall>c \<in> set cs. c \<noteq> [] \<Longrightarrow> hash_reads sha hex acc (map Inr cs @ Inr [] # rs) = Inr (hex (sha (acc @ concat cs)))"
  by (induction cs arbitrary: acc) auto

section \<open>The tensor inventory\<close>

record tensor_info =
  dims :: "nat list"
  block_size :: nat
  type_size :: nat

record gguf_content =
  gguf_metadata :: metadata
  tensor_infos :: "(string \<times> tensor_info) list"

record model_inventory =
  facts :: model_facts
  layer_bytes :: "nat list"
  output_bytes :: nat

definition checked_u64 :: "nat \<Rightarrow> nat option" where
  "checked_u64 n = (if n \<le> u64_max then Some n else None)"

fun checked_product :: "nat \<Rightarrow> nat list \<Rightarrow> nat option" where
  "checked_product n [] = Some n"
| "checked_product n (d # ds) = Option.bind (checked_u64 (n * d)) (\<lambda>n. checked_product n ds)"

definition tensor_bytes :: "tensor_info \<Rightarrow> nat option" where
  "tensor_bytes t =
     Option.bind (checked_product 1 (dims t)) (\<lambda>elements.
       if elements = 0 \<or> elements mod block_size t \<noteq> 0 then None
       else checked_u64 (elements div block_size t * type_size t))"

text \<open>Where a tensor is counted: \<open>Some (Some i)\<close> in layer \<open>i\<close>, \<open>Some None\<close> in the output.\<close>

definition tensor_layer :: "nat \<Rightarrow> string \<Rightarrow> nat option option" where
  "tensor_layer n name =
     (case strip_prefix ''blk.'' name of
        Some rest \<Rightarrow>
          (case parse_uint u64_max (split_first CHR ''.'' rest) of
             Some i \<Rightarrow> if i < n then Some (Some i) else None
           | None \<Rightarrow> None)
      | None \<Rightarrow> Some None)"

definition invalid_tensor :: "string \<Rightarrow> engine_error" where
  "invalid_tensor name = Engine (''invalid tensor size or layer index: '' @ name)"

definition count_tensor :: "nat list \<times> nat \<Rightarrow> string \<times> tensor_info \<Rightarrow> engine_error + nat list \<times> nat" where
  "count_tensor acc nt =
     (case nt of (name, t) \<Rightarrow>
      rbind (ok_or (invalid_tensor name) (tensor_bytes t)) (\<lambda>b.
      rbind (ok_or (invalid_tensor name) (tensor_layer (length (fst acc)) name)) (\<lambda>dest.
      case dest of
        Some i \<Rightarrow>
          rbind (ok_or (invalid_tensor name) (checked_u64 (fst acc ! i + b))) (\<lambda>s.
            Inr ((fst acc)[i := s], snd acc))
      | None \<Rightarrow>
          rbind (ok_or (invalid_tensor name) (checked_u64 (snd acc + b))) (\<lambda>s. Inr (fst acc, s)))))"

definition read_inventory :: "gguf_content \<Rightarrow> engine_error + model_inventory" where
  "read_inventory c =
     rbind (if gguf_metadata c ''split.count'' \<noteq> None
            then rbind (u32_at (gguf_metadata c) ''split.count'') (\<lambda>n. Inr (n > 1)) else Inr False) (\<lambda>split.
     if split then Inl (Engine ''split GGUF files are not supported; use a single-file GGUF'')
     else rbind (read_facts (gguf_metadata c)) (\<lambda>f.
       if arch f \<noteq> ''llama'' then Inl (UnsupportedArch (arch f))
       else if layers f = 0 \<or> layers f > 4096 then Inl (Engine ''model must have between 1 and 4096 layers'')
       else rbind (try_fold count_tensor (replicate (layers f) 0, 0) (tensor_infos c)) (\<lambda>(ls, out).
         if 0 \<in> set ls then Inl (Engine ''GGUF is missing weights for a transformer layer'')
         else Inr \<lparr>facts = f, layer_bytes = ls, output_bytes = out\<rparr>)))"

section \<open>What the inventory counts\<close>

definition bytes_of :: "string \<times> tensor_info \<Rightarrow> nat" where
  "bytes_of nt = (case tensor_bytes (snd nt) of Some b \<Rightarrow> b | None \<Rightarrow> 0)"

definition dest_sum :: "nat \<Rightarrow> (string \<times> tensor_info) list \<Rightarrow> nat option \<Rightarrow> nat" where
  "dest_sum n ts dest = sum_list (map bytes_of (filter (\<lambda>nt. tensor_layer n (fst nt) = Some dest) ts))"

definition countable_tensor :: "nat \<Rightarrow> string \<times> tensor_info \<Rightarrow> bool" where
  "countable_tensor n nt \<longleftrightarrow> tensor_bytes (snd nt) \<noteq> None \<and> tensor_layer n (fst nt) \<noteq> None"

lemma tensor_layer_less: "tensor_layer n name = Some (Some i) \<Longrightarrow> i < n"
  by (auto simp: tensor_layer_def split: option.splits if_splits)

lemma dest_sum_Cons:
  "dest_sum n (nt # ts) dest = (if tensor_layer n (fst nt) = Some dest then bytes_of nt else 0) + dest_sum n ts dest"
  by (simp add: dest_sum_def)

lemma dest_sum_mset: "mset ts = mset us \<Longrightarrow> dest_sum n ts dest = dest_sum n us dest"
proof -
  let ?f = "\<lambda>xs. map bytes_of (filter (\<lambda>nt. tensor_layer n (fst nt) = Some dest) xs)"
  assume "mset ts = mset us"
  then have "mset (?f ts) = mset (?f us)" by simp
  then have "sum_list (?f ts) = sum_list (?f us)" unfolding sum_mset_sum_list [symmetric] by simp
  then show ?thesis by (simp add: dest_sum_def)
qed

lemma count_tensor_Inr:
  "count_tensor (ls, out) nt = Inr (ls', out') \<longleftrightarrow>
     (\<exists>b dest. tensor_bytes (snd nt) = Some b \<and> tensor_layer (length ls) (fst nt) = Some dest \<and>
       (case dest of
          Some i \<Rightarrow> ls ! i + b \<le> u64_max \<and> ls' = ls[i := ls ! i + b] \<and> out' = out
        | None \<Rightarrow> out + b \<le> u64_max \<and> ls' = ls \<and> out' = out + b))"
  by (cases nt) (auto simp: count_tensor_def checked_u64_def result_simps split: option.splits)

text \<open>
  The counting loop succeeds exactly when every tensor has a size and a place and no sum
  overflows, and then it yields the sums: a closed form without the loop.
\<close>

lemma count_all_iff:
  "(\<forall>i < length ls. ls ! i \<le> u64_max) \<Longrightarrow> out \<le> u64_max \<Longrightarrow>
   try_fold count_tensor (ls, out) ts = Inr (ls', out') \<longleftrightarrow>
     (\<forall>nt \<in> set ts. countable_tensor (length ls) nt) \<and>
     length ls' = length ls \<and> (\<forall>i < length ls. ls' ! i = ls ! i + dest_sum (length ls) ts (Some i)) \<and>
     out' = out + dest_sum (length ls) ts None \<and>
     (\<forall>i < length ls. ls' ! i \<le> u64_max) \<and> out' \<le> u64_max"
proof (induction ts arbitrary: ls out)
  case Nil
  then show ?case by (auto simp: dest_sum_def intro: nth_equalityI)
next
  case (Cons nt ts)
  show ?case
  proof (cases "countable_tensor (length ls) nt")
    case False
    then show ?thesis by (auto simp: countable_tensor_def rbind_eq_Inr count_tensor_Inr)
  next
    case True
    then obtain b dest where b: "tensor_bytes (snd nt) = Some b"
      and d: "tensor_layer (length ls) (fst nt) = Some dest"
      by (auto simp: countable_tensor_def)
    have bo: "bytes_of nt = b" by (simp add: bytes_of_def b)
    show ?thesis
    proof (cases dest)
      case None
      show ?thesis
      proof (cases "out + b \<le> u64_max")
        case True
        then have "count_tensor (ls, out) nt = Inr (ls, out + b)"
          using b d None by (simp add: count_tensor_Inr)
        with Cons.IH [of ls "out + b"] Cons.prems True show ?thesis
          using b d None bo by (simp add: dest_sum_Cons countable_tensor_def add.assoc)
      next
        case False
        then have "\<nexists>r. count_tensor (ls, out) nt = Inr r"
          using b d None by (auto simp: count_tensor_Inr)
        then show ?thesis using False d None bo by (auto simp: rbind_eq_Inr dest_sum_Cons)
      qed
    next
      case (Some i)
      with d have i: "i < length ls" by (auto dest: tensor_layer_less)
      show ?thesis
      proof (cases "ls ! i + b \<le> u64_max")
        case True
        then have c: "count_tensor (ls, out) nt = Inr (ls[i := ls ! i + b], out)"
          using b d Some by (simp add: count_tensor_Inr)
        have "ls[i := ls ! i + b] ! j + dest_sum (length ls) ts (Some j) =
            ls ! j + dest_sum (length ls) (nt # ts) (Some j)" if "j < length ls" for j
          using that i d Some bo by (auto simp: dest_sum_Cons nth_list_update)
        then have sums: "(\<forall>j < length ls. ls' ! j = ls[i := ls ! i + b] ! j + dest_sum (length ls) ts (Some j)) \<longleftrightarrow>
            (\<forall>j < length ls. ls' ! j = ls ! j + dest_sum (length ls) (nt # ts) (Some j))"
          by simp
        have none: "dest_sum (length ls) (nt # ts) None = dest_sum (length ls) ts None"
          using d Some by (simp add: dest_sum_Cons)
        have "\<forall>j < length ls. ls[i := ls ! i + b] ! j \<le> u64_max"
          using Cons.prems(1) True i by (auto simp: nth_list_update)
        then show ?thesis
          using Cons.IH [of "ls[i := ls ! i + b]" out] Cons.prems(2) \<open>countable_tensor (length ls) nt\<close>
          by (simp only: c try_fold.simps rbind_Inr length_list_update sums none set_simps ball_simps) simp
      next
        case False
        then have "\<nexists>r. count_tensor (ls, out) nt = Inr r"
          using b d Some by (auto simp: count_tensor_Inr)
        moreover have "u64_max < ls ! i + dest_sum (length ls) (nt # ts) (Some i)"
          using False d Some bo by (simp add: dest_sum_Cons)
        ultimately show ?thesis using i by (fastforce simp: rbind_eq_Inr)
      qed
    qed
  qed
qed

lemma count_all_zero:
  "try_fold count_tensor (replicate n 0, 0) ts = Inr (ls', out') \<longleftrightarrow>
     (\<forall>nt \<in> set ts. countable_tensor n nt) \<and>
     length ls' = n \<and> (\<forall>i < n. ls' ! i = dest_sum n ts (Some i)) \<and>
     out' = dest_sum n ts None \<and> (\<forall>i < n. ls' ! i \<le> u64_max) \<and> out' \<le> u64_max"
  using count_all_iff [of "replicate n 0" 0 ts ls' out'] by auto

lemma read_inventory_Inr:
  assumes "read_inventory c = Inr iv"
  defines "n \<equiv> layers (facts iv)"
  shows "read_facts (gguf_metadata c) = Inr (facts iv)" and "arch (facts iv) = ''llama''"
    and "1 \<le> n" and "n \<le> 4096" and "length (layer_bytes iv) = n"
    and "\<forall>nt \<in> set (tensor_infos c). countable_tensor n nt"
    and "\<forall>i < n. layer_bytes iv ! i = dest_sum n (tensor_infos c) (Some i) \<and>
           0 < layer_bytes iv ! i \<and> layer_bytes iv ! i \<le> u64_max"
    and "output_bytes iv = dest_sum n (tensor_infos c) None" and "output_bytes iv \<le> u64_max"
proof -
  from assms(1) obtain ls out where f: "read_facts (gguf_metadata c) = Inr (facts iv)"
    and a: "arch (facts iv) = ''llama''" and n: "1 \<le> n" "n \<le> 4096"
    and t: "try_fold count_tensor (replicate n 0, 0) (tensor_infos c) = Inr (ls, out)"
    and z: "0 \<notin> set ls" and i: "layer_bytes iv = ls" "output_bytes iv = out"
    by (auto simp: read_inventory_def n_def result_simps split: if_splits)
  from t [unfolded count_all_zero]
  have len: "length ls = n" and all: "\<forall>nt \<in> set (tensor_infos c). countable_tensor n nt"
    and ls: "\<forall>i < n. ls ! i = dest_sum n (tensor_infos c) (Some i) \<and> ls ! i \<le> u64_max"
    and out: "out = dest_sum n (tensor_infos c) None" "out \<le> u64_max"
    by blast+
  have "\<forall>i < n. 0 < ls ! i" using z len by (metis gr0I nth_mem)
  with f a n len all ls out i show "read_facts (gguf_metadata c) = Inr (facts iv)" "arch (facts iv) = ''llama''"
    "1 \<le> n" "n \<le> 4096" "length (layer_bytes iv) = n"
    "\<forall>nt \<in> set (tensor_infos c). countable_tensor n nt"
    "\<forall>i < n. layer_bytes iv ! i = dest_sum n (tensor_infos c) (Some i) \<and>
       0 < layer_bytes iv ! i \<and> layer_bytes iv ! i \<le> u64_max"
    "output_bytes iv = dest_sum n (tensor_infos c) None" "output_bytes iv \<le> u64_max"
    by auto
qed

lemma read_inventory_order:
  assumes "read_inventory c = Inr iv" and "mset (tensor_infos c') = mset (tensor_infos c)"
    and "gguf_metadata c' = gguf_metadata c"
  shows "read_inventory c' = Inr iv"
proof -
  let ?n = "layers (facts iv)"
  from assms(1) obtain ls out where f: "read_facts (gguf_metadata c) = Inr (facts iv)"
    and t: "try_fold count_tensor (replicate ?n 0, 0) (tensor_infos c) = Inr (ls, out)"
    by (auto simp: read_inventory_def result_simps split: if_splits)
  have "set (tensor_infos c') = set (tensor_infos c)"
    using assms(2) by (rule mset_eq_setD)
  with t have "try_fold count_tensor (replicate ?n 0, 0) (tensor_infos c') = Inr (ls, out)"
    unfolding count_all_zero dest_sum_mset [OF assms(2)] by auto
  with assms(1) show ?thesis
    unfolding read_inventory_def assms(3) rbind_eq_Inr by (elim exE conjE) (simp add: f t split: if_splits)
qed

end
