(* ===== verification/Gpu_Device.thy ===== *)
theory Gpu_Device
  imports Lattice_Prelude "HOL-Library.Product_Lexorder"
begin

text \<open>
  The GPU descriptions of \<open>crates/lattice-net/src/control.rs\<close> and the choice of a device in
  \<open>crates/latticed/src/runtime.rs\<close>.
\<close>

record gpu_device =
  gpu_name :: string
  description :: string
  gpu_kind :: string
  total_memory :: nat
  free_memory :: nat

record engine_capabilities =
  revision :: string
  device :: gpu_device
  busy :: bool

definition is_gpu :: "gpu_device \<Rightarrow> bool" where
  "is_gpu d \<longleftrightarrow> gpu_kind d = ''gpu'' \<or> gpu_kind d = ''igpu''"

datatype select_error = GpuUnavailable string "string list" | NoGpu

definition select_device :: "gpu_device list \<Rightarrow> string option \<Rightarrow> select_error + gpu_device" where
  "select_device devices explicit =
     (case explicit of
        Some n \<Rightarrow>
          ok_or (GpuUnavailable n (map gpu_name (filter is_gpu devices)))
            (find (\<lambda>d. gpu_name d = n) (filter is_gpu devices))
      | None \<Rightarrow>
          ok_or NoGpu
            (max_by (\<lambda>a b. (gpu_kind a = ''gpu'', free_memory a) < (gpu_kind b = ''gpu'', free_memory b))
              (filter is_gpu devices)))"

lemma select_device_Inr:
  "select_device ds explicit = Inr d \<Longrightarrow> d \<in> set ds \<and> is_gpu d"
proof -
  assume "select_device ds explicit = Inr d"
  then have "d \<in> set (filter is_gpu ds)"
    by (auto simp del: set_filter simp: select_device_def result_simps find_Some_iff
        dest!: max_by_mem split: option.splits)
  then show ?thesis by simp
qed

lemma select_device_named: "select_device ds (Some n) = Inr d \<Longrightarrow> gpu_name d = n"
  by (auto simp: select_device_def result_simps find_Some_iff)

lemma select_device_best:
  "select_device ds None = Inr d \<Longrightarrow> e \<in> set ds \<Longrightarrow> is_gpu e \<Longrightarrow>
     (gpu_kind e = ''gpu'', free_memory e) \<le> (gpu_kind d = ''gpu'', free_memory d)"
  using max_by_key_ge [of "\<lambda>a. (gpu_kind a = ''gpu'', free_memory a)" "filter is_gpu ds" d e]
  by (simp add: select_device_def result_simps)

lemma select_device_fails:
  "(\<exists>e. select_device ds None = Inl e) \<longleftrightarrow> (\<forall>d \<in> set ds. \<not> is_gpu d)"
  by (auto simp: select_device_def result_simps filter_empty_conv)

end
