(* ===== verification/Float64.thy ===== *)
theory Float64
  imports Complex_Main "HOL-Library.Log_Nat"
begin

text \<open>
  The \<open>f64\<close> arithmetic of the planner: a finite value is the rational number it stands for,
  and every operation is the exact one followed by rounding to 53 significant bits, ties to
  even. The exponent range is not bounded: the planner's values are zero or lie between
  \<open>2 ^ - 128\<close> and \<open>2 ^ 256\<close>, where \<open>f64\<close> neither overflows nor loses precision to
  subnormal numbers. The order is \<open>total_cmp\<close> on values whose sign bit is clear, which is all
  the planner compares (it compares results of \<open>abs\<close>).
\<close>

datatype f64 = Finite rat | Infinite bool | NaN

definition pow2 :: "int \<Rightarrow> rat" where
  "pow2 k = (if 0 \<le> k then 2 ^ nat k else 1 / 2 ^ nat (- k))"

definition ilog2 :: "rat \<Rightarrow> int" where
  "ilog2 x = (case quotient_of x of (p, q) \<Rightarrow>
     let l = bitlen p - bitlen q in if x < pow2 l then l - 1 else l)"

definition round_even :: "rat \<Rightarrow> int" where
  "round_even y =
     (let m = \<lfloor>y\<rfloor>; f = y - of_int m in if f < 1 / 2 \<or> (f = 1 / 2 \<and> even m) then m else m + 1)"

definition round53 :: "rat \<Rightarrow> rat" where
  "round53 x =
     (if x = 0 then 0
      else let k = ilog2 \<bar>x\<bar> - 52 in sgn x * of_int (round_even (\<bar>x\<bar> / pow2 k)) * pow2 k)"

definition f64_of_nat :: "nat \<Rightarrow> f64" where
  "f64_of_nat n = Finite (round53 (of_nat n))"

fun f64_mul :: "f64 \<Rightarrow> f64 \<Rightarrow> f64" where
  "f64_mul (Finite a) (Finite b) = Finite (round53 (a * b))"
| "f64_mul NaN _ = NaN"
| "f64_mul _ NaN = NaN"
| "f64_mul (Infinite s) (Infinite t) = Infinite (s \<noteq> t)"
| "f64_mul (Infinite s) (Finite b) = (if b = 0 then NaN else Infinite (s \<noteq> (b < 0)))"
| "f64_mul (Finite a) (Infinite t) = (if a = 0 then NaN else Infinite ((a < 0) \<noteq> t))"

fun f64_div :: "f64 \<Rightarrow> f64 \<Rightarrow> f64" where
  "f64_div (Finite a) (Finite b) =
     (if b = 0 then (if a = 0 then NaN else Infinite (a < 0)) else Finite (round53 (a / b)))"
| "f64_div NaN _ = NaN"
| "f64_div _ NaN = NaN"
| "f64_div (Infinite s) (Infinite t) = NaN"
| "f64_div (Infinite s) (Finite b) = Infinite (s \<noteq> (b < 0))"
| "f64_div (Finite a) (Infinite t) = Finite 0"

fun f64_sub :: "f64 \<Rightarrow> f64 \<Rightarrow> f64" where
  "f64_sub (Finite a) (Finite b) = Finite (round53 (a - b))"
| "f64_sub NaN _ = NaN"
| "f64_sub _ NaN = NaN"
| "f64_sub (Infinite s) (Infinite t) = (if s = t then NaN else Infinite s)"
| "f64_sub (Infinite s) (Finite b) = Infinite s"
| "f64_sub (Finite a) (Infinite t) = Infinite (\<not> t)"

fun f64_abs :: "f64 \<Rightarrow> f64" where
  "f64_abs (Finite a) = Finite \<bar>a\<bar>"
| "f64_abs (Infinite _) = Infinite False"
| "f64_abs NaN = NaN"

fun total_less :: "f64 \<Rightarrow> f64 \<Rightarrow> bool" where
  "total_less (Finite a) (Finite b) \<longleftrightarrow> a < b"
| "total_less (Finite a) _ \<longleftrightarrow> True"
| "total_less (Infinite _) NaN \<longleftrightarrow> True"
| "total_less _ _ \<longleftrightarrow> False"

lemma total_less_irrefl [simp]: "\<not> total_less x x"
  by (cases x) simp_all

lemma total_less_trans: "total_less x y \<Longrightarrow> total_less y z \<Longrightarrow> total_less x z"
  by (cases x; cases y; cases z) simp_all

end
