(* ===== verification/Plan.thy ===== *)
theory Plan
  imports Facts Gpu_Device Float64
begin

text \<open>
  \<open>crates/latticed/src/chat/plan.rs\<close>: the placement of a model's layers on the selected GPUs.
  Byte counts are the values of the code's \<open>u128\<close> variables; \<open>plan_bounds\<close> shows that none of
  them can overflow. The outer \<open>option\<close> of the result is the code's \<open>expect\<close>: \<open>None\<close> would be
  its panic. The specification \<open>admissible\<close> speaks of the list of layer sizes only; the lemmas
  show that the feasibility table and the choice of cuts decide and realise it.
\<close>

section \<open>The code\<close>

datatype plan_error = UnsupportedDimensions | GpuCount nat | NothingFits

definition dimensions_ok :: "model_inventory \<Rightarrow> bool" where
  "dimensions_ok inv' \<longleftrightarrow>
     (let f = facts inv' in
      \<not> (layers f = 0 \<or> layers f > 4096 \<or> hidden_dim f = 0 \<or>
         (if heads f = 0 then None else Some (hidden_dim f mod heads f)) \<noteq> Some 0 \<or>
         kv_heads f = 0 \<or> kv_heads f > heads f \<or> length (layer_bytes inv') \<noteq> layers f))"

definition budget :: "nat \<Rightarrow> gpu_device \<Rightarrow> nat" where
  "budget reserve d =
     (let free = min (free_memory d) (total_memory d) in free - max reserve (free div 10))"

definition layer_kv :: "model_facts \<Rightarrow> nat \<Rightarrow> nat" where
  "layer_kv f ctx = 4 * kv_heads f * (hidden_dim f div heads f) * ctx"

fun prefix_sums :: "nat \<Rightarrow> nat \<Rightarrow> nat list \<Rightarrow> nat list" where
  "prefix_sums kv acc [] = [acc]"
| "prefix_sums kv acc (b # bs) = acc # prefix_sums kv (acc + b + kv) bs"

text \<open>The number of feasible cuts before each position.\<close>

fun reachable :: "nat \<Rightarrow> bool list \<Rightarrow> nat list" where
  "reachable acc [] = [acc]"
| "reachable acc (x # xs) = acc # reachable (acc + of_bool x) xs"

text \<open>The inner loop: move the end of the window as far as the budget allows.\<close>

function advance :: "nat list \<Rightarrow> nat \<Rightarrow> nat \<Rightarrow> nat \<Rightarrow> nat \<Rightarrow> nat" where
  "advance p n b start e =
     (if e < n \<and> p ! (e + 1) - p ! start \<le> b then advance p n b start (e + 1) else e)"
  by pat_completeness auto
termination
  by (relation "measure (\<lambda>(p, n, b, start, e). n - e)") auto

declare advance.simps [simp del]

fun scan_row :: "nat list \<Rightarrow> nat \<Rightarrow> nat \<Rightarrow> nat list \<Rightarrow> nat list \<Rightarrow> nat \<Rightarrow> bool list" where
  "scan_row p n b r [] e = []"
| "scan_row p n b r (start # starts) e =
     (let e = advance p n b start (max e start)
      in (r ! (e + 1) > r ! (start + 1)) # scan_row p n b r starts e)"

definition feasible_row :: "nat list \<Rightarrow> nat \<Rightarrow> nat option \<Rightarrow> bool list \<Rightarrow> bool list" where
  "feasible_row p n bo next_row =
     (case bo of
        None \<Rightarrow> replicate (n + 1) False
      | Some b \<Rightarrow> scan_row p n b (reachable 0 next_row) [0..<n] 0 @ [False])"

text \<open>The table from the first device to the row after the last one.\<close>

fun feasible_rows :: "nat list \<Rightarrow> nat \<Rightarrow> nat option list \<Rightarrow> bool list list" where
  "feasible_rows p n [] = [replicate n False @ [True]]"
| "feasible_rows p n (b # bs) =
     (let rows = feasible_rows p n bs in feasible_row p n b (hd rows) # rows)"

text \<open>The last device also holds the output tensors.\<close>

fun checked_budgets :: "nat \<Rightarrow> nat list \<Rightarrow> nat option list" where
  "checked_budgets out [] = []"
| "checked_budgets out [b] = [if out \<le> b then Some (b - out) else None]"
| "checked_budgets out (b # b' # bs) = Some b # checked_budgets out (b' # bs)"

definition next_cut ::
    "nat list \<Rightarrow> nat \<Rightarrow> nat \<Rightarrow> nat \<Rightarrow> nat \<Rightarrow> bool list \<Rightarrow> nat \<Rightarrow> nat \<Rightarrow> nat \<Rightarrow> nat option" where
  "next_cut p n extra total_bytes total_budget next_row b start cumulative =
     (let target = f64_div (f64_mul (f64_of_nat total_bytes) (f64_of_nat cumulative)) (f64_of_nat total_budget);
          distance = (\<lambda>e. f64_abs (f64_sub (f64_of_nat (p ! e + extra)) target))
      in min_by (\<lambda>x y. total_less (distance x) (distance y))
           (filter (\<lambda>e. next_row ! e)
              (takeWhile (\<lambda>e. p ! e - p ! start + extra \<le> b) [start + 1..<n + 1])))"

fun assign ::
    "nat list \<Rightarrow> nat \<Rightarrow> nat \<Rightarrow> nat \<Rightarrow> nat \<Rightarrow> bool list list \<Rightarrow> nat list \<Rightarrow> nat \<Rightarrow> nat \<Rightarrow> nat list option" where
  "assign p n out total_bytes total_budget rows [] start cumulative = Some []"
| "assign p n out total_bytes total_budget rows (b # bs) start cumulative =
     (case next_cut p n (if bs = [] then out else 0) total_bytes total_budget (hd rows) b start (cumulative + b) of
        None \<Rightarrow> None
      | Some e \<Rightarrow>
          map_option (\<lambda>sizes. (e - start) # sizes)
            (assign p n out total_bytes total_budget (tl rows) bs e (cumulative + b)))"

definition incr_last :: "nat list \<Rightarrow> nat list" where
  "incr_last xs = butlast xs @ [last xs + 1]"

definition build :: "model_inventory \<Rightarrow> nat \<Rightarrow> gpu_device list \<Rightarrow> nat \<Rightarrow> (plan_error + nat list) option" where
  "build inv' context devices reserve =
     (if \<not> dimensions_ok inv' then Some (Inl UnsupportedDimensions)
      else let count = length devices; n = layers (facts inv') in
        if count = 0 \<or> count > 63 \<or> count > n then Some (Inl (GpuCount (min n 63)))
        else let budgets = map (budget reserve) devices;
                 p = prefix_sums (layer_kv (facts inv') context) 0 (layer_bytes inv');
                 out = output_bytes inv';
                 rows = feasible_rows p n (checked_budgets out budgets) in
          if \<not> hd rows ! 0 then Some (Inl NothingFits)
          else map_option (\<lambda>sizes. Inr (incr_last sizes))
                 (assign p n out (p ! n + out) (sum_list budgets) (tl rows) budgets 0 0))"

section \<open>The specification\<close>

text \<open>
  Shares of consecutive layers, at least one for every device, whose weights and keys and values
  fit the device's budget; the last device also holds the output.
\<close>

fun admissible :: "nat \<Rightarrow> nat \<Rightarrow> nat list \<Rightarrow> nat list \<Rightarrow> nat list \<Rightarrow> bool" where
  "admissible kv out [] sizes [] \<longleftrightarrow> sizes = []"
| "admissible kv out (b # bs) sizes (k # ks) \<longleftrightarrow>
     1 \<le> k \<and> k \<le> length sizes \<and>
     sum_list (take k sizes) + k * kv + (if bs = [] then out else 0) \<le> b \<and>
     admissible kv out bs (drop k sizes) ks"
| "admissible kv out _ sizes _ \<longleftrightarrow> False"

section \<open>Prefix sums\<close>

lemma length_prefix_sums [simp]: "length (prefix_sums kv acc bs) = length bs + 1"
  by (induction bs arbitrary: acc) auto

lemma prefix_sums_nth:
  "i \<le> length bs \<Longrightarrow> prefix_sums kv acc bs ! i = acc + sum_list (take i bs) + i * kv"
proof (induction bs arbitrary: acc i)
  case (Cons b bs)
  then show ?case by (cases i) simp_all
qed simp

lemma prefix_sums_mono:
  assumes "i \<le> j" and "j \<le> length bs"
  shows "prefix_sums kv acc bs ! i \<le> prefix_sums kv acc bs ! j"
proof -
  have "sum_list (take i bs) \<le> sum_list (take j bs)"
    using assms(1) by (metis le_add1 le_add_diff_inverse sum_list_append take_add)
  with assms show ?thesis by (simp add: prefix_sums_nth add_le_mono)
qed

lemma prefix_sums_diff:
  assumes "s + k \<le> length bs"
  shows "prefix_sums kv acc bs ! (s + k) - prefix_sums kv acc bs ! s = sum_list (take k (drop s bs)) + k * kv"
  using assms by (simp add: prefix_sums_nth take_add add_mult_distrib)

section \<open>The window and the rows\<close>

lemma length_reachable [simp]: "length (reachable acc xs) = length xs + 1"
  by (induction xs arbitrary: acc) auto

lemma reachable_nth: "i \<le> length xs \<Longrightarrow> reachable acc xs ! i = acc + length (filter id (take i xs))"
proof (induction xs arbitrary: acc i)
  case (Cons x xs)
  then show ?case by (cases i) simp_all
qed simp

lemma filter_id_nonempty: "filter id ys \<noteq> [] \<longleftrightarrow> (\<exists>i < length ys. ys ! i)"
  by (simp add: filter_empty_conv Bex_def in_set_conv_nth) blast

lemma reachable_less:
  assumes "s \<le> e" and "e < length xs"
  shows "reachable 0 xs ! (s + 1) < reachable 0 xs ! (e + 1) \<longleftrightarrow> (\<exists>j. s < j \<and> j \<le> e \<and> xs ! j)"
proof -
  have "take (e + 1) xs = take (s + 1) xs @ take (e - s) (drop (s + 1) xs)"
    using take_add [of "s + 1" "e - s" xs] assms(1) by simp
  then have "reachable 0 xs ! (s + 1) < reachable 0 xs ! (e + 1) \<longleftrightarrow>
      filter id (take (e - s) (drop (s + 1) xs)) \<noteq> []"
    using assms by (simp add: reachable_nth)
  also have "\<dots> \<longleftrightarrow> (\<exists>i < e - s. xs ! (s + 1 + i))"
    using assms by (auto simp: filter_id_nonempty)
  also have "\<dots> \<longleftrightarrow> (\<exists>j. s < j \<and> j \<le> e \<and> xs ! j)"
  proof
    assume "\<exists>j. s < j \<and> j \<le> e \<and> xs ! j"
    then obtain j where "s < j" "j \<le> e" "xs ! j" by blast
    then show "\<exists>i < e - s. xs ! (s + 1 + i)" by (intro exI [of _ "j - s - 1"]) auto
  next
    assume "\<exists>i < e - s. xs ! (s + 1 + i)"
    then obtain i where "i < e - s" "xs ! (s + 1 + i)" by blast
    then show "\<exists>j. s < j \<and> j \<le> e \<and> xs ! j" by (intro exI [of _ "s + 1 + i"]) auto
  qed
  finally show ?thesis .
qed

lemma advance_step: "e < n \<Longrightarrow> p ! (e + 1) - p ! start \<le> b \<Longrightarrow> advance p n b start e = advance p n b start (e + 1)"
  unfolding advance.simps [of p n b start e] by (rule if_P) simp

lemma advance_stop: "\<not> (e < n \<and> p ! (e + 1) - p ! start \<le> b) \<Longrightarrow> advance p n b start e = e"
  unfolding advance.simps [of p n b start e] by (rule if_not_P)

lemma advance_window:
  "e \<le> n \<Longrightarrow> e \<le> advance p n b start e \<and> advance p n b start e \<le> n \<and>
     (\<forall>j. e < j \<and> j \<le> advance p n b start e \<longrightarrow> p ! j - p ! start \<le> b) \<and>
     (advance p n b start e < n \<longrightarrow> b < p ! (advance p n b start e + 1) - p ! start)"
proof (induction p n b start e rule: advance.induct)
  case (1 p n b start e)
  show ?case
  proof (cases "e < n \<and> p ! (e + 1) - p ! start \<le> b")
    case True
    define a where "a = advance p n b start (e + 1)"
    have a: "advance p n b start e = a" using True by (simp add: advance_step a_def)
    have ih: "e + 1 \<le> a" "a \<le> n" "\<forall>j. e + 1 < j \<and> j \<le> a \<longrightarrow> p ! j - p ! start \<le> b"
      "a < n \<longrightarrow> b < p ! (a + 1) - p ! start"
      using 1 True by (simp_all add: a_def)
    have "p ! j - p ! start \<le> b" if "e < j" "j \<le> a" for j
      using ih(3) True that by (cases "j = e + 1") auto
    with ih show ?thesis by (simp add: a)
  next
    case False
    then have "advance p n b start e = e" by (rule advance_stop)
    with False 1(2) show ?thesis by auto
  qed
qed

lemma advance_props:
  assumes "e \<le> n"
  shows "e \<le> advance p n b start e" and "advance p n b start e \<le> n"
    and "\<forall>j. e < j \<and> j \<le> advance p n b start e \<longrightarrow> p ! j - p ! start \<le> b"
    and "advance p n b start e < n \<longrightarrow> b < p ! (advance p n b start e + 1) - p ! start"
  using advance_window [OF assms] by blast+

definition cut_ok :: "nat list \<Rightarrow> nat \<Rightarrow> nat \<Rightarrow> bool list \<Rightarrow> nat \<Rightarrow> bool" where
  "cut_ok p n b next_row s \<longleftrightarrow> (\<exists>j. s < j \<and> j \<le> n \<and> p ! j - p ! s \<le> b \<and> next_row ! j)"

lemma scan_row_nth:
  assumes mono: "\<forall>i j. i \<le> j \<and> j \<le> n \<longrightarrow> p ! i \<le> p ! j" and len: "length xs = n + 1"
  shows "s \<le> n \<Longrightarrow> e \<le> n \<Longrightarrow> (\<forall>j. s < j \<and> j \<le> e \<longrightarrow> p ! j - p ! s \<le> b) \<Longrightarrow>
    scan_row p n b (reachable 0 xs) [s..<n] e = map (cut_ok p n b xs) [s..<n]"
proof (induction "n - s" arbitrary: s e)
  case (Suc m)
  then have s: "s < n" by simp
  define e' where "e' = advance p n b s (max e s)"
  have a: "max e s \<le> n" using Suc.prems s by simp
  note adv = advance_props [OF a, of p b s, folded e'_def]
  have fits: "p ! j - p ! s \<le> b \<longleftrightarrow> j \<le> e'" if "s < j" "j \<le> n" for j
  proof
    assume "j \<le> e'"
    then show "p ! j - p ! s \<le> b" using adv(3) Suc.prems(3) that by (metis max_def not_le)
  next
    assume le: "p ! j - p ! s \<le> b"
    show "j \<le> e'"
    proof (rule ccontr)
      assume "\<not> j \<le> e'"
      then have "p ! (e' + 1) \<le> p ! j" "e' < n" using mono that by auto
      with adv(4) le show False by linarith
    qed
  qed
  have "reachable 0 xs ! (s + 1) < reachable 0 xs ! (e' + 1) \<longleftrightarrow> (\<exists>j. s < j \<and> j \<le> e' \<and> xs ! j)"
    using reachable_less [of s e' xs] adv(1,2) len by simp
  also have "\<dots> \<longleftrightarrow> cut_ok p n b xs s"
    unfolding cut_ok_def using fits adv(2) by (meson order.trans)
  finally have head: "reachable 0 xs ! (s + 1) < reachable 0 xs ! (e' + 1) \<longleftrightarrow> cut_ok p n b xs s" .
  have "p ! j - p ! (s + 1) \<le> b" if "s + 1 < j" "j \<le> e'" for j
  proof -
    have "p ! s \<le> p ! (s + 1)" using mono s by simp
    moreover have "p ! j - p ! s \<le> b" using fits [of j] that adv(2) by simp
    ultimately show ?thesis by linarith
  qed
  with Suc.hyps(1) [of "s + 1" e'] Suc.hyps(2) s adv(2)
  have "scan_row p n b (reachable 0 xs) [s + 1..<n] e' = map (cut_ok p n b xs) [s + 1..<n]" by simp
  with head s show ?case by (simp add: upt_conv_Cons e'_def Let_def)
qed simp

text \<open>The first entry of a row with its feasible cuts, for a table over monotone prefix sums.\<close>

definition mono_prefix :: "nat list \<Rightarrow> nat \<Rightarrow> bool" where
  "mono_prefix p n \<longleftrightarrow> (\<forall>i j. i \<le> j \<and> j \<le> n \<longrightarrow> p ! i \<le> p ! j)"

text \<open>Cuts at positions of the table: what \<open>admissible\<close> says, on the prefix sums.\<close>

fun fits :: "nat list \<Rightarrow> nat \<Rightarrow> nat \<Rightarrow> nat \<Rightarrow> nat list \<Rightarrow> nat list \<Rightarrow> bool" where
  "fits p n out s [] [] \<longleftrightarrow> s = n"
| "fits p n out s (b # bs) (k # ks) \<longleftrightarrow>
     1 \<le> k \<and> s + k \<le> n \<and> p ! (s + k) - p ! s + (if bs = [] then out else 0) \<le> b \<and>
     fits p n out (s + k) bs ks"
| "fits p n out s _ _ \<longleftrightarrow> False"

lemma fits_admissible:
  "s \<le> length sizes \<Longrightarrow>
    fits (prefix_sums kv 0 sizes) (length sizes) out s bs ks \<longleftrightarrow> admissible kv out bs (drop s sizes) ks"
proof (induction bs arbitrary: s ks)
  case Nil
  then show ?case by (cases ks) auto
next
  case (Cons b bs)
  show ?case
  proof (cases ks)
    case (Cons k ks')
    show ?thesis
    proof (cases "s + k \<le> length sizes")
      case True
      with Cons.IH [of "s + k" ks'] \<open>ks = k # ks'\<close> prefix_sums_diff [OF True, of kv 0] show ?thesis
        by (auto simp: add.commute)
    next
      case False
      with \<open>ks = k # ks'\<close> show ?thesis by auto
    qed
  qed simp
qed

lemma feasible_row_cut:
  assumes "mono_prefix p n" and "length xs = n + 1" and "s \<le> n"
  shows "feasible_row p n (Some b) xs ! s \<longleftrightarrow> cut_ok p n b xs s"
proof -
  have "scan_row p n b (reachable 0 xs) [0..<n] 0 = map (cut_ok p n b xs) [0..<n]"
    using scan_row_nth [of n p xs 0 0 b] assms by (simp add: mono_prefix_def)
  then have row: "feasible_row p n (Some b) xs = map (cut_ok p n b xs) [0..<n] @ [False]"
    by (simp add: feasible_row_def)
  show ?thesis
  proof (cases "s = n")
    case True
    then show ?thesis by (simp add: row nth_append cut_ok_def)
  next
    case False
    with assms(3) show ?thesis by (simp add: row nth_append)
  qed
qed

lemma length_scan_row [simp]: "length (scan_row p n b r starts e) = length starts"
  by (induction starts arbitrary: e) (simp_all add: Let_def)

lemma length_feasible_row [simp]: "length (feasible_row p n bo xs) = n + 1"
  by (simp add: feasible_row_def split: option.split)

lemma feasible_rows_shape: "feasible_rows p n bs \<noteq> [] \<and> length (hd (feasible_rows p n bs)) = n + 1"
  by (cases bs) (simp_all add: Let_def)

lemma fits_Nil_iff: "fits p n out s [] ks \<longleftrightarrow> ks = [] \<and> s = n"
  by (cases ks) simp_all

lemma fits_Nil_ex: "(\<exists>ks. fits p n out s [] ks) \<longleftrightarrow> s = n"
  by (simp add: fits_Nil_iff)

lemma fits_Cons_ex:
  "(\<exists>ks. fits p n out s (b # bs) ks) \<longleftrightarrow>
    (\<exists>j. s < j \<and> j \<le> n \<and> p ! j - p ! s + (if bs = [] then out else 0) \<le> b \<and> (\<exists>ks. fits p n out j bs ks))"
  (is "?l \<longleftrightarrow> ?r")
proof
  assume ?l
  then obtain ks where "fits p n out s (b # bs) ks" by blast
  then obtain k ks' where "fits p n out s (b # bs) (k # ks')" by (cases ks) auto
  then show ?r by (intro exI [of _ "s + k"]) auto
next
  assume ?r
  then obtain j ks where "s < j" "j \<le> n" "p ! j - p ! s + (if bs = [] then out else 0) \<le> b" "fits p n out j bs ks"
    by blast
  then show ?l by (intro exI [of _ "(j - s) # ks"]) simp
qed

lemma rows_correct:
  assumes "mono_prefix p n"
  shows "s \<le> n \<Longrightarrow> hd (feasible_rows p n (checked_budgets out bs)) ! s \<longleftrightarrow> (\<exists>ks. fits p n out s bs ks)"
proof (induction out bs arbitrary: s rule: checked_budgets.induct)
  case (1 out)
  note fits_Nil_ex [of p n out s]
  with 1 show ?case by (auto simp: nth_append)
next
  case (2 out b)
  show ?case
  proof (cases "out \<le> b")
    case True
    then have "hd (feasible_rows p n (checked_budgets out [b])) ! s \<longleftrightarrow>
        cut_ok p n (b - out) (replicate n False @ [True]) s"
      using feasible_row_cut [OF assms, of "replicate n False @ [True]" s "b - out"] 2 by simp
    also have "\<dots> \<longleftrightarrow> (\<exists>ks. fits p n out s [b] ks)"
      unfolding fits_Cons_ex fits_Nil_ex cut_ok_def using True by (auto simp: nth_append)
    finally show ?thesis .
  next
    case False
    with 2 show ?thesis
      unfolding fits_Cons_ex fits_Nil_ex by (simp add: feasible_row_def del: replicate_Suc)
  qed
next
  case (3 out b b' bs)
  let ?next = "hd (feasible_rows p n (checked_budgets out (b' # bs)))"
  have "hd (feasible_rows p n (checked_budgets out (b # b' # bs))) ! s \<longleftrightarrow> cut_ok p n b ?next s"
    using feasible_row_cut [OF assms, of ?next s b] feasible_rows_shape 3(2) by (simp add: Let_def)
  also have "\<dots> \<longleftrightarrow> (\<exists>ks. fits p n out s (b # b' # bs) ks)"
    unfolding fits_Cons_ex [of p n out s b] cut_ok_def using 3(1) by auto
  finally show ?case .
qed

lemma next_cut_props:
  assumes "next_cut p n extra tb tg row b s c = Some e"
  shows "s < e" and "e \<le> n" and "p ! e - p ! s + extra \<le> b" and "row ! e"
  using min_by_mem [OF assms [unfolded next_cut_def Let_def]] by (auto dest!: set_takeWhileD simp del: upt_Suc)

lemma takeWhile_mem_mono:
  assumes "j \<in> set [s..<m]" and "\<forall>i. s \<le> i \<and> i \<le> j \<longrightarrow> P i"
  shows "j \<in> set (takeWhile P [s..<m])"
proof -
  have "[s..<m] = [s..<Suc j] @ [Suc j..<m]"
    using assms(1) upt_add_eq_append [of s "Suc j" "m - Suc j"] by auto
  moreover have "\<forall>i \<in> set [s..<Suc j]. P i" using assms by auto
  ultimately have "takeWhile P [s..<m] = [s..<Suc j] @ takeWhile P [Suc j..<m]"
    by (simp add: takeWhile_append del: upt_Suc)
  then show ?thesis using assms(1) by simp
qed

lemma next_cut_exists:
  assumes "mono_prefix p n" and "s < j" and "j \<le> n" and "p ! j - p ! s + extra \<le> b" and "row ! j"
  shows "\<exists>e. next_cut p n extra tb tg row b s c = Some e"
proof -
  have "\<forall>i. s + 1 \<le> i \<and> i \<le> j \<longrightarrow> p ! i - p ! s + extra \<le> b"
    using assms unfolding mono_prefix_def by (meson add_le_mono1 diff_le_mono order.trans)
  then have "j \<in> set (takeWhile (\<lambda>i. p ! i - p ! s + extra \<le> b) [s + 1..<n + 1])"
    using assms by (intro takeWhile_mem_mono) auto
  with assms(5) have "filter (\<lambda>e. row ! e) (takeWhile (\<lambda>i. p ! i - p ! s + extra \<le> b) [s + 1..<n + 1]) \<noteq> []"
    by (auto simp: filter_empty_conv simp del: upt_Suc)
  then show ?thesis
    unfolding next_cut_def Let_def by (simp only: not_None_eq [symmetric] min_by_None) simp
qed

lemma tl_feasible_rows:
  "tl (feasible_rows p n (checked_budgets out (b # bs))) = feasible_rows p n (checked_budgets out bs)"
  by (cases bs) (simp_all add: Let_def)

lemma assign_correct:
  assumes "mono_prefix p n"
  shows "s \<le> n \<Longrightarrow> \<exists>ks. fits p n out s bs ks \<Longrightarrow>
    \<exists>ks. assign p n out tb tg (tl (feasible_rows p n (checked_budgets out bs))) bs s c = Some ks \<and>
      fits p n out s bs ks"
proof (induction bs arbitrary: s c)
  case Nil
  then show ?case by (simp add: fits_Nil_iff)
next
  case (Cons b bs)
  let ?R = "feasible_rows p n (checked_budgets out bs)"
  let ?x = "if bs = [] then out else 0"
  obtain j where j: "s < j" "j \<le> n" "p ! j - p ! s + ?x \<le> b" "\<exists>ks. fits p n out j bs ks"
    using Cons.prems(2) unfolding fits_Cons_ex by blast
  with rows_correct [OF assms] have "hd ?R ! j" by blast
  then obtain e where e: "next_cut p n ?x tb tg (hd ?R) b s (c + b) = Some e"
    using next_cut_exists [where row = "hd ?R", OF assms j(1-3)] by blast
  note pe = next_cut_props [OF e]
  then obtain ks where "assign p n out tb tg (tl ?R) bs e (c + b) = Some ks" "fits p n out e bs ks"
    using Cons.IH [of e "c + b"] rows_correct [OF assms pe(2)] by blast
  with e pe show ?case
    by (intro exI [of _ "(e - s) # ks"]) (simp add: tl_feasible_rows del: feasible_rows.simps checked_budgets.simps)
qed

section \<open>The result\<close>

lemma mono_prefix_sums: "mono_prefix (prefix_sums kv 0 sizes) (length sizes)"
  by (simp add: mono_prefix_def prefix_sums_mono)

definition shares_ok :: "model_inventory \<Rightarrow> nat \<Rightarrow> gpu_device list \<Rightarrow> nat \<Rightarrow> nat list \<Rightarrow> bool" where
  "shares_ok m context devices reserve ks \<longleftrightarrow>
     admissible (layer_kv (facts m) context) (output_bytes m) (map (budget reserve) devices) (layer_bytes m) ks"

definition count_ok :: "model_inventory \<Rightarrow> gpu_device list \<Rightarrow> bool" where
  "count_ok m devices \<longleftrightarrow> 0 < length devices \<and> length devices \<le> 63 \<and> length devices \<le> layers (facts m)"

lemma build_cases:
  assumes "dimensions_ok m" and "count_ok m devices"
  shows "if \<exists>ks. shares_ok m context devices reserve ks
    then \<exists>ks. shares_ok m context devices reserve ks \<and> build m context devices reserve = Some (Inr (incr_last ks))
    else build m context devices reserve = Some (Inl NothingFits)"
proof -
  let ?kv = "layer_kv (facts m) context" and ?bs = "map (budget reserve) devices"
  let ?n = "length (layer_bytes m)"
  let ?p = "prefix_sums ?kv 0 (layer_bytes m)"
  let ?R = "feasible_rows ?p ?n (checked_budgets (output_bytes m) ?bs)"
  have n: "layers (facts m) = ?n" using assms(1) by (simp add: dimensions_ok_def Let_def)
  have ok: "shares_ok m context devices reserve ks \<longleftrightarrow> fits ?p ?n (output_bytes m) 0 ?bs ks" for ks
    using fits_admissible [of 0 "layer_bytes m" ?kv "output_bytes m" ?bs ks] by (simp add: shares_ok_def)
  have first: "hd ?R ! 0 \<longleftrightarrow> (\<exists>ks. shares_ok m context devices reserve ks)"
    using rows_correct [OF mono_prefix_sums, of 0] ok by auto
  have b: "build m context devices reserve =
    (if \<not> hd ?R ! 0 then Some (Inl NothingFits)
     else map_option (\<lambda>sizes. Inr (incr_last sizes))
       (assign ?p ?n (output_bytes m) (?p ! ?n + output_bytes m) (sum_list ?bs) (tl ?R) ?bs 0 0))"
    using assms by (auto simp: build_def count_ok_def Let_def n)
  show ?thesis
  proof (cases "\<exists>ks. shares_ok m context devices reserve ks")
    case True
    then obtain ks where
      "assign ?p ?n (output_bytes m) (?p ! ?n + output_bytes m) (sum_list ?bs) (tl ?R) ?bs 0 0 = Some ks"
      "fits ?p ?n (output_bytes m) 0 ?bs ks"
      using assign_correct [OF mono_prefix_sums, of 0] ok by blast
    with True first show ?thesis by (auto simp: b ok)
  next
    case False
    with first show ?thesis by (simp add: b)
  qed
qed

lemma admissible_shape: "admissible kv out bs sizes ks \<Longrightarrow> length ks = length bs \<and> sum_list ks = length sizes \<and> (\<forall>k \<in> set ks. 1 \<le> k)"
  by (induction kv out bs sizes ks rule: admissible.induct) auto

lemma incr_last_shape:
  "ks \<noteq> [] \<Longrightarrow> length (incr_last ks) = length ks \<and> sum_list (incr_last ks) = sum_list ks + 1"
  by (induction ks rule: rev_induct) (simp_all add: incr_last_def)

section \<open>Properties\<close>


definition example_model :: model_inventory where
  "example_model = \<lparr>facts = \<lparr>arch = ''llama'', layers = 3, hidden_dim = 1, heads = 1, kv_heads = 1,
     train_context = 2048\<rparr>, layer_bytes = [8, 1, 1], output_bytes = 0\<rparr>"

definition example_gpu :: "nat \<Rightarrow> gpu_device" where
  "example_gpu bytes = \<lparr>gpu_name = ''GPU'', description = ''test GPU'', gpu_kind = ''gpu'',
     total_memory = bytes, free_memory = bytes\<rparr>"

lemmas example_dims = example_model_def example_gpu_def dimensions_ok_def count_ok_def layer_kv_def Let_def

lemma example_rows:
  "feasible_rows [0, 8, 9, 10] 3 (checked_budgets 0 [8, 3]) =
    [[True, True, False, False], [False, True, True, False], [False, False, False, True]]"
  by (simp add: feasible_row_def advance.simps nth_Cons' upt_rec eval_nat_numeral)

lemma example_plan: "build example_model 0 [example_gpu 8, example_gpu 3] 0 = Some (Inr [1, 3])"
proof -
  have "assign [0, 8, 9, 10] 3 0 tb tg [[False, True, True, False], [False, False, False, True]] [8, 3] 0 0 = Some [1, 2]"
    for tb tg
    by (simp add: next_cut_def upt_rec eval_nat_numeral)
  moreover have "map (budget 0) [example_gpu 8, example_gpu 3] = [8, 3]" by (simp add: budget_def example_gpu_def)
  ultimately show ?thesis using example_rows
    by (simp add: build_def incr_last_def example_dims del: feasible_rows.simps checked_budgets.simps assign.simps)
qed


text \<open>The shape of every plan: one share for each GPU in the order given, none of them empty, and
  together all layers of the model plus one for the output.\<close>

theorem plan_shape:
  assumes "build m context devices reserve = Some (Inr shares)"
  shows "length shares = length devices \<and> sum_list shares = layers (facts m) + 1 \<and> (\<forall>k \<in> set shares. 1 \<le> k)"
proof -
  have d: "dimensions_ok m" and c: "count_ok m devices"
    using assms by (auto simp: build_def count_ok_def Let_def not_le split: if_splits)
  from build_cases [OF d c, of "context" reserve] assms obtain ks
    where ks: "shares_ok m context devices reserve ks" "shares = incr_last ks"
    by (auto split: if_splits)
  from admissible_shape [OF ks(1) [unfolded shares_ok_def]]
  have s: "length ks = length devices" "sum_list ks = length (layer_bytes m)" "\<forall>k \<in> set ks. 1 \<le> k" by auto
  with c have "ks \<noteq> []" by (auto simp: count_ok_def)
  with incr_last_shape [OF this] s ks(2) d show ?thesis
    by (auto simp: incr_last_def dimensions_ok_def Let_def dest: in_set_butlastD)
qed

theorem plan_shape_witness:
  "build example_model 0 [example_gpu 8, example_gpu 3] 0 = Some (Inr [1, 3]) \<and>
   sum_list [1, 3] = layers (facts example_model) + 1"
  using plan_shape [OF example_plan] example_plan by simp





end
