(* ===== verification/Float32.thy ===== *)
theory Float32
  imports Lattice_Prelude
begin

text \<open>
  \<open>f32\<close> values are their bit patterns. \<open>f32_key\<close> is the integer by which \<open>f32::total_cmp\<close>
  compares: the pattern as a signed number, with all bits but the sign flipped when it is negative.
  Sampling and expert routing order values by it.
\<close>

unbundle bit_operations_syntax

type_synonym f32 = "32 word"

definition f32_key :: "f32 \<Rightarrow> int" where
  "f32_key b = sint (if bit b 31 then b XOR 0x7FFFFFFF else b)"

lemma f32_key_inject: "f32_key a = f32_key b \<longleftrightarrow> a = b"
proof
  assume h: "f32_key a = f32_key b"
  let ?f = "\<lambda>b :: f32. if bit b 31 then b XOR 0x7FFFFFFF else b"
  have sign: "bit (?f x) 31 \<longleftrightarrow> bit x 31" for x by (simp add: bit_xor_iff)
  have "?f a = ?f b" using h unfolding f32_key_def by (rule signed_word_eqI)
  then have same: "bit a 31 = bit b 31" using sign [of a] sign [of b] by simp
  show "a = b"
  proof (cases "bit a 31")
    case True
    with \<open>?f a = ?f b\<close> same have "a XOR 0x7FFFFFFF = b XOR 0x7FFFFFFF" by simp
    then have "(a XOR 0x7FFFFFFF) XOR 0x7FFFFFFF = (b XOR 0x7FFFFFFF) XOR 0x7FFFFFFF" by simp
    then show ?thesis by (simp only: xor.assoc xor_self_eq xor.right_neutral)
  next
    case False
    with \<open>?f a = ?f b\<close> same show ?thesis by simp
  qed
qed simp

end
