(* ===== verification/Llama.thy ===== *)
theory Llama
  imports Facts Float32
begin

text \<open>
  \<open>crates/lattice-engine/src/llama.rs\<close>: the layer range of a llama model that one shard runs.
  Tensors and quantised weights are values of \<open>candle\<close>, whose operations are the fields of the
  record \<open>candle\<close>; every one of them can fail. What the code itself decides is written out: which
  tensors are read for a range, the order of the operations, the key and value cache, the mask
  cache, and the routing of tokens to experts. \<open>split_forward\<close> shows that two shards over
  adjacent ranges compute what one shard over both computes.
\<close>

section \<open>The tensor library\<close>

text \<open>An operation returns an error, or the code panics.\<close>

datatype fault = Candle string | Panic

record ('t, 'q) candle =
  t_dims3 :: "'t \<Rightarrow> fault + nat \<times> nat \<times> nat"
  t_dims4 :: "'t \<Rightarrow> fault + nat \<times> nat \<times> nat \<times> nat"
  t_reshape :: "nat list \<Rightarrow> 't \<Rightarrow> fault + 't"
  t_flat_rows :: "nat \<Rightarrow> 't \<Rightarrow> fault + 't"
  t_transpose :: "'t \<Rightarrow> fault + 't"
  t_contiguous :: "'t \<Rightarrow> fault + 't"
  t_narrow :: "'t \<Rightarrow> nat \<Rightarrow> nat \<Rightarrow> fault + 't"
  t_rope :: "'t \<Rightarrow> 't \<Rightarrow> 't \<Rightarrow> fault + 't"
  t_rope_i :: "'t \<Rightarrow> 't \<Rightarrow> 't \<Rightarrow> fault + 't"
  t_cat :: "'t \<Rightarrow> 't \<Rightarrow> fault + 't"
  t_is_metal :: "'t \<Rightarrow> bool"
  t_sdpa :: "'t \<Rightarrow> 't \<Rightarrow> 't \<Rightarrow> nat \<Rightarrow> fault + 't"
  t_repeat_kv :: "'t \<Rightarrow> nat \<Rightarrow> fault + 't"
  t_t :: "'t \<Rightarrow> fault + 't"
  t_matmul :: "'t \<Rightarrow> 't \<Rightarrow> fault + 't"
  t_div_sqrt :: "'t \<Rightarrow> nat \<Rightarrow> fault + 't"
  t_broadcast_like :: "'t \<Rightarrow> 't \<Rightarrow> fault + 't"
  t_where_cond :: "'t \<Rightarrow> 't \<Rightarrow> 't \<Rightarrow> fault + 't"
  t_softmax :: "'t \<Rightarrow> fault + 't"
  t_silu :: "'t \<Rightarrow> fault + 't"
  t_mul :: "'t \<Rightarrow> 't \<Rightarrow> fault + 't"
  t_add :: "'t \<Rightarrow> 't \<Rightarrow> fault + 't"
  t_zeros_like :: "'t \<Rightarrow> fault + 't"
  t_index_select :: "'t \<Rightarrow> 't \<Rightarrow> fault + 't"
  t_broadcast_mul :: "'t \<Rightarrow> 't \<Rightarrow> fault + 't"
  t_index_add :: "'t \<Rightarrow> 't \<Rightarrow> 't \<Rightarrow> fault + 't"
  t_to_vec2 :: "'t \<Rightarrow> fault + f32 list list"
  t_of_u32s :: "u32 list \<Rightarrow> fault + 't"
  t_of_f32s :: "f32 list \<Rightarrow> fault + 't"
  t_scalar :: "f32 \<Rightarrow> fault + 't"
  t_column :: "'t \<Rightarrow> fault + 't"
  t_arange_f32 :: "nat \<Rightarrow> fault + 't"
  t_cos :: "'t \<Rightarrow> fault + 't"
  t_sin :: "'t \<Rightarrow> fault + 't"
  t_row :: "'t \<Rightarrow> nat \<Rightarrow> fault + 't"
  t_embed :: "'q \<Rightarrow> 't \<Rightarrow> fault + 't"
  t_rms_norm :: "'q \<Rightarrow> 't \<Rightarrow> fault + 't"
  t_causal_mask :: "nat \<Rightarrow> nat \<Rightarrow> fault + 't"
  q_embedding :: "'q \<Rightarrow> nat \<Rightarrow> fault + 'q"
  q_rms_norm :: "'q \<Rightarrow> f32 \<Rightarrow> fault + 'q"
  q_matmul_weight :: "'q \<Rightarrow> fault + 'q"
  q_matmul :: "'q \<Rightarrow> 't \<Rightarrow> fault + 't"
  f32_add :: "f32 \<Rightarrow> f32 \<Rightarrow> f32"
  f32_div :: "f32 \<Rightarrow> f32 \<Rightarrow> f32"
  f32_powf :: "f32 \<Rightarrow> f32 \<Rightarrow> f32"
  f32_of_nat :: "nat \<Rightarrow> f32"

abbreviation f32_one :: f32 where "f32_one \<equiv> 0x3F800000"
abbreviation f32_neg_infinity :: f32 where "f32_neg_infinity \<equiv> 0xFF800000"

definition MAX_SEQ_LEN :: nat where "MAX_SEQ_LEN = 4096"

section \<open>The feed-forward network and the experts\<close>

record 'q mlp =
  feed_forward_w1 :: 'q
  feed_forward_w2 :: 'q
  feed_forward_w3 :: 'q

datatype 'q mlp_or_moe = Mlp "'q mlp" | MoE nat 'q "'q mlp list"

definition mlp_forward :: "('t, 'q) candle \<Rightarrow> 'q mlp \<Rightarrow> 't \<Rightarrow> fault + 't" where
  "mlp_forward c m xs =
     rbind (q_matmul c (feed_forward_w1 m) xs) (\<lambda>w1.
     rbind (q_matmul c (feed_forward_w3 m) xs) (\<lambda>w3.
     rbind (t_silu c w1) (\<lambda>s.
     rbind (t_mul c s w3) (q_matmul c (feed_forward_w2 m)))))"

text \<open>The experts of one token: positions by decreasing weight, ties in order (\<open>sort_by\<close> is stable).\<close>

definition ranking :: "f32 list \<Rightarrow> nat list" where
  "ranking rw = sort_key (\<lambda>i. - f32_key (rw ! i)) [0..<length rw]"

type_synonym routes = "u32 list list \<times> f32 list list"

text \<open>A position outside the list of experts is an index panic.\<close>

definition route_row :: "('t, 'q) candle \<Rightarrow> nat \<Rightarrow> routes \<Rightarrow> nat \<times> f32 list \<Rightarrow> fault + routes" where
  "route_row c k rs row =
     (case row of (row_idx, rw) \<Rightarrow>
      let chosen = take k (ranking rw);
          total = foldl (\<lambda>s e. f32_add c s (rw ! e)) 0 chosen
      in if \<exists>e \<in> set chosen. length (fst rs) \<le> e then Inl Panic
         else Inr (foldl (\<lambda>t e. t[e := t ! e @ [of_nat row_idx]]) (fst rs) chosen,
                   foldl (\<lambda>t e. t[e := t ! e @ [f32_div c (rw ! e) total]]) (snd rs) chosen))"

definition route :: "('t, 'q) candle \<Rightarrow> nat \<Rightarrow> nat \<Rightarrow> f32 list list \<Rightarrow> fault + routes" where
  "route c n k weights =
     try_fold (route_row c k) (replicate n [], replicate n []) (zip [0..<length weights] weights)"

text \<open>One expert's contribution, added to the rows of its tokens; an expert with none is skipped.\<close>

definition run_expert ::
    "('t, 'q) candle \<Rightarrow> nat \<Rightarrow> 't \<Rightarrow> 't \<Rightarrow> 'q mlp \<times> u32 list \<times> f32 list \<Rightarrow> fault + 't" where
  "run_expert c hidden xs ys expert =
     (case expert of (m, top_x, selected_rws) \<Rightarrow>
      if top_x = [] then Inr ys
      else rbind (t_of_u32s c top_x) (\<lambda>top_x.
        rbind (t_of_f32s c selected_rws) (\<lambda>r.
        rbind (t_column c r) (\<lambda>rws.
        rbind (t_index_select c xs top_x) (\<lambda>s.
        rbind (t_flat_rows c hidden s) (\<lambda>current.
        rbind (mlp_forward c m current) (\<lambda>h.
        rbind (t_broadcast_mul c h rws) (\<lambda>h. t_index_add c ys top_x h))))))))"

definition mlp_or_moe_forward :: "('t, 'q) candle \<Rightarrow> 'q mlp_or_moe \<Rightarrow> 't \<Rightarrow> fault + 't" where
  "mlp_or_moe_forward c m xs =
     (case m of
        Mlp mlp \<Rightarrow> mlp_forward c mlp xs
      | MoE used gate experts \<Rightarrow>
          rbind (t_dims3 c xs) (\<lambda>(b_size, seq_len, hidden).
          rbind (t_flat_rows c hidden xs) (\<lambda>xs.
          rbind (q_matmul c gate xs) (\<lambda>logits.
          rbind (t_softmax c logits) (\<lambda>weights.
          rbind (t_to_vec2 c weights) (\<lambda>weights.
          rbind (route c (length experts) used weights) (\<lambda>(top_x, selected_rws).
          rbind (t_zeros_like c xs) (\<lambda>ys.
          rbind (try_fold (run_expert c hidden xs) ys (zip experts (zip top_x selected_rws)))
            (t_reshape c [b_size, seq_len, hidden])))))))))"

section \<open>A layer\<close>

record ('t, 'q) layer =
  attention_wq :: 'q
  attention_wk :: 'q
  attention_wv :: 'q
  attention_wo :: 'q
  attention_norm :: 'q
  mlp_or_moe :: "'q mlp_or_moe"
  ffn_norm :: 'q
  n_head :: nat
  n_kv_head :: nat
  layer_head_dim :: nat
  rope_is_neox :: bool
  layer_cos :: 't
  layer_sin :: 't
  neg_inf :: 't
  kv_cache :: "('t \<times> 't) option"

definition masked_fill :: "('t, 'q) candle \<Rightarrow> 't \<Rightarrow> 't \<Rightarrow> 't \<Rightarrow> fault + 't" where
  "masked_fill c on_false mk on_true =
     rbind (t_broadcast_like c on_true mk) (\<lambda>v. t_where_cond c mk v on_false)"

definition apply_rotary_emb :: "('t, 'q) candle \<Rightarrow> ('t, 'q) layer \<Rightarrow> 't \<Rightarrow> nat \<Rightarrow> fault + 't" where
  "apply_rotary_emb c l x index_pos =
     rbind (t_dims4 c x) (\<lambda>(_, _, seq_len, _).
     rbind (t_narrow c (layer_cos l) index_pos seq_len) (\<lambda>cs.
     rbind (t_narrow c (layer_sin l) index_pos seq_len) (\<lambda>sn.
     rbind (t_contiguous c x) (\<lambda>x.
     if rope_is_neox l then t_rope c x cs sn else t_rope_i c x cs sn))))"

text \<open>The first half of attention: queries, and keys and values with the cached ones before them.\<close>

definition attn_qkv ::
    "('t, 'q) candle \<Rightarrow> ('t, 'q) layer \<Rightarrow> 't \<Rightarrow> nat \<Rightarrow> fault + (nat \<times> nat \<times> nat) \<times> 't \<times> 't \<times> 't" where
  "attn_qkv c l x index_pos =
     rbind (t_dims3 c x) (\<lambda>(b_sz, seq_len, n_embd).
     rbind (q_matmul c (attention_wq l) x) (\<lambda>q.
     rbind (q_matmul c (attention_wk l) x) (\<lambda>k.
     rbind (q_matmul c (attention_wv l) x) (\<lambda>v.
     rbind (rbind (t_reshape c [b_sz, seq_len, n_head l, layer_head_dim l] q) (t_transpose c)) (\<lambda>q.
     rbind (rbind (t_reshape c [b_sz, seq_len, n_kv_head l, layer_head_dim l] k) (t_transpose c)) (\<lambda>k.
     rbind (rbind (rbind (t_reshape c [b_sz, seq_len, n_kv_head l, layer_head_dim l] v)
                         (t_transpose c)) (t_contiguous c)) (\<lambda>v.
     rbind (apply_rotary_emb c l q index_pos) (\<lambda>q.
     rbind (apply_rotary_emb c l k index_pos) (\<lambda>k.
     case kv_cache l of
       None \<Rightarrow> Inr ((b_sz, seq_len, n_embd), q, k, v)
     | Some (k_cache, v_cache) \<Rightarrow>
         if index_pos = 0 then Inr ((b_sz, seq_len, n_embd), q, k, v)
         else rbind (t_cat c k_cache k) (\<lambda>k.
              rbind (t_cat c v_cache v) (\<lambda>v. Inr ((b_sz, seq_len, n_embd), q, k, v))))))))))))"

text \<open>The second half: the scores, the mask and the output projection.\<close>

definition attn_scores ::
    "('t, 'q) candle \<Rightarrow> ('t, 'q) layer \<Rightarrow> nat \<Rightarrow> 't option \<Rightarrow> 't \<Rightarrow> 't \<Rightarrow> 't \<Rightarrow> fault + 't" where
  "attn_scores c l seq_len mk q k v =
     (if t_is_metal c q \<and> seq_len = 1 then t_sdpa c q k v (layer_head_dim l)
      else if n_kv_head l = 0 then Inl Panic
      else
        rbind (t_repeat_kv c k (n_head l div n_kv_head l)) (\<lambda>k.
        rbind (t_repeat_kv c v (n_head l div n_kv_head l)) (\<lambda>v.
        rbind (rbind (rbind (t_t c k) (t_matmul c q)) (\<lambda>s. t_div_sqrt c s (layer_head_dim l))) (\<lambda>att.
        rbind (case mk of
                 None \<Rightarrow> Inr att
               | Some m \<Rightarrow> rbind (t_broadcast_like c m att) (\<lambda>m. masked_fill c att m (neg_inf l))) (\<lambda>att.
        rbind (t_softmax c att) (\<lambda>att.
        rbind (t_contiguous c v) (t_matmul c att)))))))"

definition forward_attn ::
    "('t, 'q) candle \<Rightarrow> ('t, 'q) layer \<Rightarrow> 't \<Rightarrow> 't option \<Rightarrow> nat \<Rightarrow> (fault + 't) \<times> ('t, 'q) layer" where
  "forward_attn c l x mk index_pos =
     (case attn_qkv c l x index_pos of
        Inl e \<Rightarrow> (Inl e, l)
      | Inr ((b_sz, seq_len, n_embd), q, k, v) \<Rightarrow>
          (rbind (attn_scores c l seq_len mk q k v) (\<lambda>y.
           rbind (rbind (t_transpose c y) (t_reshape c [b_sz, seq_len, n_embd])) (q_matmul c (attention_wo l))),
           l\<lparr>kv_cache := Some (k, v)\<rparr>))"

text \<open>The body of the loop over the layers in \<open>forward\<close>.\<close>

definition layer_forward ::
    "('t, 'q) candle \<Rightarrow> 't option \<Rightarrow> nat \<Rightarrow> ('t, 'q) layer \<Rightarrow> 't \<Rightarrow> (fault + 't) \<times> ('t, 'q) layer" where
  "layer_forward c mk index_pos l x =
     (case t_rms_norm c (attention_norm l) x of
        Inl e \<Rightarrow> (Inl e, l)
      | Inr n \<Rightarrow>
          (case forward_attn c l n mk index_pos of
             (attn, l) \<Rightarrow>
               (rbind attn (\<lambda>attn.
                rbind (t_add c attn x) (\<lambda>x.
                rbind (t_rms_norm c (ffn_norm l) x) (\<lambda>y.
                rbind (mlp_or_moe_forward c (mlp_or_moe l) y) (\<lambda>y. t_add c y x)))), l)))"

fun run_layers ::
    "('t, 'q) candle \<Rightarrow> 't option \<Rightarrow> nat \<Rightarrow> ('t, 'q) layer list \<Rightarrow> 't \<Rightarrow> (fault + 't) \<times> ('t, 'q) layer list" where
  "run_layers c mk index_pos [] x = (Inr x, [])"
| "run_layers c mk index_pos (l # ls) x =
     (case layer_forward c mk index_pos l x of
        (Inl e, l') \<Rightarrow> (Inl e, l' # ls)
      | (Inr y, l') \<Rightarrow>
          (case run_layers c mk index_pos ls y of (r, ls') \<Rightarrow> (r, l' # ls')))"

section \<open>The model\<close>

record ('t, 'q) shard_model =
  tok_embeddings :: "'q option"
  model_layers :: "('t, 'q) layer list"
  model_head :: "('q \<times> 'q) option"
  masks :: "nat \<times> nat \<rightharpoonup> 't"

definition shard_mask ::
    "('t, 'q) candle \<Rightarrow> ('t, 'q) shard_model \<Rightarrow> nat \<Rightarrow> nat \<Rightarrow> (fault + 't) \<times> ('t, 'q) shard_model" where
  "shard_mask c m seq_len index_pos =
     (let kv_len = index_pos + seq_len in
      case masks m (seq_len, kv_len) of
        Some t \<Rightarrow> (Inr t, m)
      | None \<Rightarrow>
          (case t_causal_mask c seq_len index_pos of
             Inl e \<Rightarrow> (Inl e, m)
           | Inr t \<Rightarrow> (Inr t, m\<lparr>masks := (masks m)((seq_len, kv_len) \<mapsto> t)\<rparr>)))"

definition clear_kv_cache :: "('t, 'q) shard_model \<Rightarrow> ('t, 'q) shard_model" where
  "clear_kv_cache m = m\<lparr>model_layers := map (\<lambda>l. l\<lparr>kv_cache := None\<rparr>) (model_layers m)\<rparr>"

text \<open>The head keeps the last position only; \<open>seq_len - 1\<close> is a \<open>usize\<close>, which wraps.\<close>

definition head_forward :: "('t, 'q) candle \<Rightarrow> ('q \<times> 'q) option \<Rightarrow> nat \<Rightarrow> 't \<Rightarrow> fault + 't" where
  "head_forward c h seq_len x =
     (case h of
        None \<Rightarrow> Inr x
      | Some (norm, out) \<Rightarrow>
          rbind (rbind (t_rms_norm c norm x) (\<lambda>y. t_row c y (unat (of_nat seq_len - 1 :: u64)))) (q_matmul c out))"

definition forward ::
    "('t, 'q) candle \<Rightarrow> ('t, 'q) shard_model \<Rightarrow> 't \<Rightarrow> nat \<Rightarrow> (fault + 't) \<times> ('t, 'q) shard_model" where
  "forward c m x index_pos =
     (case rbind (case tok_embeddings m of Some e \<Rightarrow> t_embed c e x | None \<Rightarrow> Inr x) (\<lambda>y.
           rbind (t_dims3 c y) (\<lambda>(_, seq_len, _). Inr (y, seq_len))) of
        Inl e \<Rightarrow> (Inl e, m)
      | Inr (y, seq_len) \<Rightarrow>
          (case (if seq_len = 1 then (Inr None, m)
                 else (case shard_mask c m seq_len index_pos of (r, m) \<Rightarrow> (rbind r (\<lambda>t. Inr (Some t)), m))) of
             (Inl e, m) \<Rightarrow> (Inl e, m)
           | (Inr mk, m) \<Rightarrow>
               (case run_layers c mk index_pos (model_layers m) y of
                  (r, ls) \<Rightarrow> (rbind r (head_forward c (model_head m) seq_len), m\<lparr>model_layers := ls\<rparr>))))"

section \<open>Loading a range of layers\<close>

record ('t, 'q) gguf_source =
  source_metadata :: metadata
  source_tensor :: "string \<Rightarrow> fault + 'q"
  value_u32 :: "gguf_value \<Rightarrow> fault + nat"
  value_f32 :: "gguf_value \<Rightarrow> fault + f32"

definition md_get :: "('t, 'q) gguf_source \<Rightarrow> string \<Rightarrow> fault + gguf_value" where
  "md_get g s = ok_or (Candle (''cannot find '' @ s @ '' in metadata'')) (source_metadata g s)"

definition md_u32 :: "('t, 'q) gguf_source \<Rightarrow> string \<Rightarrow> fault + nat" where
  "md_u32 g s = rbind (md_get g s) (value_u32 g)"

definition md_f32 :: "('t, 'q) gguf_source \<Rightarrow> string \<Rightarrow> fault + f32" where
  "md_f32 g s = rbind (md_get g s) (value_f32 g)"

definition unwrap_or :: "'a \<Rightarrow> fault + 'a \<Rightarrow> 'a" where
  "unwrap_or d r = (case r of Inl _ \<Rightarrow> d | Inr x \<Rightarrow> x)"

definition precomput_freqs_cis :: "('t, 'q) candle \<Rightarrow> nat \<Rightarrow> f32 \<Rightarrow> fault + 't \<times> 't" where
  "precomput_freqs_cis c hdim base =
     (let theta = map (\<lambda>i. f32_div c f32_one (f32_powf c base (f32_div c (f32_of_nat c i) (f32_of_nat c hdim))))
                    (filter even [0..<hdim])
      in rbind (t_of_f32s c theta) (\<lambda>t.
         rbind (rbind (t_arange_f32 c MAX_SEQ_LEN) (t_reshape c [MAX_SEQ_LEN, 1])) (\<lambda>idx.
         rbind (rbind (t_reshape c [1, length theta] t) (t_matmul c idx)) (\<lambda>idx_theta.
         rbind (t_cos c idx_theta) (\<lambda>cs.
         rbind (t_sin c idx_theta) (\<lambda>sn. Inr (cs, sn)))))))"

definition neox_archs :: "string list" where
  "neox_archs = [''qwen'', ''qwen2'', ''qwen2moe'', ''qwen3'', ''qwen3moe'', ''falcon'', ''grok'', ''dbrx'',
     ''phi2'', ''phi3'', ''phimoe'', ''stablelm'', ''starcoder2'', ''bert'', ''nomic-bert'', ''jina-bert-v2'',
     ''olmo2'', ''olmoe'', ''codeshell'', ''plamo'']"

definition load_mlp :: "('t, 'q) candle \<Rightarrow> ('t, 'q) gguf_source \<Rightarrow> string \<Rightarrow> string \<Rightarrow> fault + 'q mlp" where
  "load_mlp c g prefix suffix =
     rbind (source_tensor g (prefix @ ''.ffn_gate'' @ suffix)) (\<lambda>w1.
     rbind (source_tensor g (prefix @ ''.ffn_down'' @ suffix)) (\<lambda>w2.
     rbind (source_tensor g (prefix @ ''.ffn_up'' @ suffix)) (\<lambda>w3.
     rbind (q_matmul_weight c w1) (\<lambda>w1.
     rbind (q_matmul_weight c w2) (\<lambda>w2.
     rbind (q_matmul_weight c w3) (\<lambda>w3.
     Inr \<lparr>feed_forward_w1 = w1, feed_forward_w2 = w2, feed_forward_w3 = w3\<rparr>))))))"

definition load_mlp_or_moe ::
    "('t, 'q) candle \<Rightarrow> ('t, 'q) gguf_source \<Rightarrow> nat \<Rightarrow> nat \<Rightarrow> string \<Rightarrow> fault + 'q mlp_or_moe" where
  "load_mlp_or_moe c g n_expert n_expert_used prefix =
     (if n_expert \<le> 1 then rbind (load_mlp c g prefix ''.weight'') (\<lambda>m. Inr (Mlp m))
      else
        rbind (source_tensor g (prefix @ ''.ffn_gate_inp.weight'')) (\<lambda>gate.
        rbind (try_fold (\<lambda>ms i. rbind (load_mlp c g prefix (''.'' @ show_nat i @ ''.weight'')) (\<lambda>m. Inr (ms @ [m])))
                 [] [0..<n_expert]) (\<lambda>experts.
        rbind (q_matmul_weight c gate) (\<lambda>gate. Inr (MoE n_expert_used gate experts)))))"

record 't layer_shape =
  shape_heads :: nat
  shape_kv_heads :: nat
  shape_embedding :: nat
  shape_experts :: nat
  shape_experts_used :: nat
  shape_eps :: f32
  shape_neox :: bool
  shape_cos :: 't
  shape_sin :: 't
  shape_neg_inf :: 't

definition load_layer ::
    "('t, 'q) candle \<Rightarrow> ('t, 'q) gguf_source \<Rightarrow> 't layer_shape \<Rightarrow> nat \<Rightarrow> fault + ('t, 'q) layer" where
  "load_layer c g p layer_idx =
     (let prefix = ''blk.'' @ show_nat layer_idx;
          tensor = (\<lambda>name. source_tensor g (prefix @ name)) in
      rbind (tensor ''.attn_q.weight'') (\<lambda>wq.
      rbind (tensor ''.attn_k.weight'') (\<lambda>wk.
      rbind (tensor ''.attn_v.weight'') (\<lambda>wv.
      rbind (tensor ''.attn_output.weight'') (\<lambda>wo.
      rbind (load_mlp_or_moe c g (shape_experts p) (shape_experts_used p) prefix) (\<lambda>ffn.
      rbind (tensor ''.attn_norm.weight'') (\<lambda>an.
      rbind (tensor ''.ffn_norm.weight'') (\<lambda>fn.
      rbind (q_matmul_weight c wq) (\<lambda>wq.
      rbind (q_matmul_weight c wk) (\<lambda>wk.
      rbind (q_matmul_weight c wv) (\<lambda>wv.
      rbind (q_matmul_weight c wo) (\<lambda>wo.
      rbind (q_rms_norm c an (shape_eps p)) (\<lambda>an.
      rbind (q_rms_norm c fn (shape_eps p)) (\<lambda>fn.
      if shape_heads p = 0 then Inl Panic
      else Inr \<lparr>attention_wq = wq, attention_wk = wk, attention_wv = wv, attention_wo = wo,
        attention_norm = an, mlp_or_moe = ffn, ffn_norm = fn, n_head = shape_heads p,
        n_kv_head = shape_kv_heads p, layer_head_dim = shape_embedding p div shape_heads p,
        rope_is_neox = shape_neox p, layer_cos = shape_cos p, layer_sin = shape_sin p,
        neg_inf = shape_neg_inf p, kv_cache = None\<rparr>))))))))))))))"

definition load_layers ::
    "('t, 'q) candle \<Rightarrow> ('t, 'q) gguf_source \<Rightarrow> 't layer_shape \<Rightarrow> nat \<Rightarrow> nat \<Rightarrow> fault + ('t, 'q) layer list" where
  "load_layers c g p lo hi =
     try_fold (\<lambda>ls i. rbind (load_layer c g p i) (\<lambda>l. Inr (ls @ [l]))) [] [lo..<hi]"

text \<open>The part of \<open>from_gguf\<close> before the range matters: the metadata and the tables.\<close>

definition read_shape :: "('t, 'q) candle \<Rightarrow> ('t, 'q) gguf_source \<Rightarrow> fault + 't layer_shape \<times> nat" where
  "read_shape c g =
     (let n_expert = unwrap_or 0 (md_u32 g ''llama.expert_count'');
          n_expert_used = unwrap_or 0 (md_u32 g ''llama.expert_used_count'') in
      rbind (md_u32 g ''llama.attention.head_count'') (\<lambda>head_count.
      rbind (md_u32 g ''llama.attention.head_count_kv'') (\<lambda>head_count_kv.
      rbind (md_u32 g ''llama.block_count'') (\<lambda>block_count.
      rbind (md_u32 g ''llama.embedding_length'') (\<lambda>embedding_length.
      rbind (md_u32 g ''llama.rope.dimension_count'') (\<lambda>rope_dim.
      rbind (md_f32 g ''llama.attention.layer_norm_rms_epsilon'') (\<lambda>eps.
      let base = unwrap_or 0x461C4000 (md_f32 g ''llama.rope.freq_base'');
          a = (case source_metadata g ''general.architecture'' of Some (VString s) \<Rightarrow> s | _ \<Rightarrow> []) in
      rbind (precomput_freqs_cis c rope_dim base) (\<lambda>(cs, sn).
      rbind (t_scalar c f32_neg_infinity) (\<lambda>neg_inf.
      Inr (\<lparr>shape_heads = head_count, shape_kv_heads = head_count_kv, shape_embedding = embedding_length,
            shape_experts = n_expert, shape_experts_used = n_expert_used, shape_eps = eps,
            shape_neox = (a \<in> set neox_archs), shape_cos = cs, shape_sin = sn,
            shape_neg_inf = neg_inf\<rparr>, block_count))))))))))"

definition load_embedding ::
    "('t, 'q) candle \<Rightarrow> ('t, 'q) gguf_source \<Rightarrow> nat \<Rightarrow> nat \<Rightarrow> fault + ('q \<times> 'q) option" where
  "load_embedding c g embedding_length lo =
     (if lo = 0 then
        rbind (source_tensor g ''token_embd.weight'') (\<lambda>q.
        rbind (q_embedding c q embedding_length) (\<lambda>e. Inr (Some (q, e))))
      else Inr None)"

definition load_head ::
    "('t, 'q) candle \<Rightarrow> ('t, 'q) gguf_source \<Rightarrow> f32 \<Rightarrow> ('q \<times> 'q) option \<Rightarrow> bool \<Rightarrow> fault + ('q \<times> 'q) option" where
  "load_head c g eps embedding owns_head =
     (if owns_head then
        rbind (rbind (source_tensor g ''output_norm.weight'') (\<lambda>n. q_rms_norm c n eps)) (\<lambda>norm.
        rbind (case source_tensor g ''output.weight'' of
                 Inr t \<Rightarrow> Inr t
               | Inl _ \<Rightarrow> (case embedding of Some (q, _) \<Rightarrow> Inr q | None \<Rightarrow> source_tensor g ''token_embd.weight'')) (\<lambda>out.
        rbind (q_matmul_weight c out) (\<lambda>out. Inr (Some (norm, out)))))
      else Inr None)"

definition from_gguf ::
    "('t, 'q) candle \<Rightarrow> ('t, 'q) gguf_source \<Rightarrow> nat \<Rightarrow> nat \<Rightarrow> fault + ('t, 'q) shard_model" where
  "from_gguf c g lo hi =
     rbind (read_shape c g) (\<lambda>(p, block_count).
     if hi > block_count \<or> lo > hi
     then Inl (Candle (''layers '' @ show_nat lo @ ''..'' @ show_nat hi @ '' outside a '' @
            show_nat block_count @ ''-layer model''))
     else
       rbind (load_embedding c g (shape_embedding p) lo) (\<lambda>embedding.
       rbind (load_head c g (shape_eps p) embedding (hi = block_count)) (\<lambda>h.
       rbind (load_layers c g p lo hi) (\<lambda>ls.
       Inr \<lparr>tok_embeddings = map_option snd embedding, model_layers = ls, model_head = h, masks = Map.empty\<rparr>))))"

section \<open>Masks and shapes\<close>

text \<open>Every cached mask is the one the library would build again.\<close>

definition masks_ok :: "('t, 'q) candle \<Rightarrow> ('t, 'q) shard_model \<Rightarrow> bool" where
  "masks_ok c m \<longleftrightarrow> (\<forall>s k t. masks m (s, k) = Some t \<longrightarrow> s \<le> k \<and> t_causal_mask c s (k - s) = Inr t)"

text \<open>Addition is defined on equal shapes and returns that shape.\<close>

definition add_law :: "('t, 'q) candle \<Rightarrow> bool" where
  "add_law c \<longleftrightarrow> (\<forall>x y z. t_add c x y = Inr z \<longrightarrow> t_dims3 c z = t_dims3 c y)"

lemma shard_mask_cases:
  assumes "masks_ok c m"
  shows "fst (shard_mask c m s p) = t_causal_mask c s p" and "masks_ok c (snd (shard_mask c m s p))"
    and "\<exists>ms. snd (shard_mask c m s p) = m\<lparr>masks := ms\<rparr>"
proof -
  have "t_causal_mask c s p = Inr t" if "masks m (s, p + s) = Some t" for t
    using assms that unfolding masks_ok_def by (metis add_diff_cancel_right')
  then show "fst (shard_mask c m s p) = t_causal_mask c s p"
    by (simp add: shard_mask_def Let_def split: option.split sum.split)
  show "masks_ok c (snd (shard_mask c m s p))"
    using assms by (auto simp: shard_mask_def masks_ok_def Let_def split: option.split sum.split)
  have "\<exists>ms. m = m\<lparr>masks := ms\<rparr>" by (rule exI [of _ "masks m"]) simp
  then show "\<exists>ms. snd (shard_mask c m s p) = m\<lparr>masks := ms\<rparr>"
    by (auto simp: shard_mask_def Let_def split: option.split sum.split)
qed

lemma layer_forward_dims:
  assumes "add_law c" and "layer_forward c mk p l x = (Inr y, l')"
  shows "t_dims3 c y = t_dims3 c x"
  using assms by (auto simp: layer_forward_def add_law_def rbind_eq_Inr split: sum.splits prod.splits)

lemma run_layers_dims:
  assumes "add_law c"
  shows "run_layers c mk p ls x = (Inr y, ls') \<Longrightarrow> t_dims3 c y = t_dims3 c x"
proof (induction ls arbitrary: x ls')
  case (Cons l ls)
  then obtain z l1 where z: "layer_forward c mk p l x = (Inr z, l1)"
    by (auto split: sum.splits prod.splits)
  with Cons.prems obtain ls1 where "run_layers c mk p ls z = (Inr y, ls1)" by (auto split: prod.splits)
  with Cons.IH layer_forward_dims [OF assms z] show ?case by metis
qed simp

lemma run_layers_append:
  "run_layers c mk p (as @ bs) x =
     (case run_layers c mk p as x of
        (Inl e, as') \<Rightarrow> (Inl e, as' @ bs)
      | (Inr y, as') \<Rightarrow> (case run_layers c mk p bs y of (r, bs') \<Rightarrow> (r, as' @ bs')))"
  by (induction as arbitrary: x) (auto split: sum.splits prod.splits)

section \<open>Splitting a model\<close>

definition joins :: "('t, 'q) shard_model \<Rightarrow> ('t, 'q) shard_model \<Rightarrow> ('t, 'q) shard_model \<Rightarrow> bool" where
  "joins w a b \<longleftrightarrow> tok_embeddings w = tok_embeddings a \<and> tok_embeddings b = None \<and> model_head a = None \<and>
     model_head w = model_head b \<and> model_layers w = model_layers a @ model_layers b"

text \<open>A model's input after the embedding, with its length, and the mask for that length.\<close>

definition model_input :: "('t, 'q) candle \<Rightarrow> 'q option \<Rightarrow> 't \<Rightarrow> fault + 't \<times> nat" where
  "model_input c emb x =
     rbind (case emb of Some e \<Rightarrow> t_embed c e x | None \<Rightarrow> Inr x) (\<lambda>y.
     rbind (t_dims3 c y) (\<lambda>(_, seq_len, _). Inr (y, seq_len)))"

definition wanted_mask :: "('t, 'q) candle \<Rightarrow> nat \<Rightarrow> nat \<Rightarrow> fault + 't option" where
  "wanted_mask c s p = (if s = 1 then Inr None else rbind (t_causal_mask c s p) (\<lambda>t. Inr (Some t)))"

text \<open>\<open>forward\<close> without the mask cache.\<close>

definition forward_pure ::
    "('t, 'q) candle \<Rightarrow> ('t, 'q) shard_model \<Rightarrow> 't \<Rightarrow> nat \<Rightarrow> (fault + 't) \<times> ('t, 'q) layer list" where
  "forward_pure c m x p =
     (case rbind (model_input c (tok_embeddings m) x) (\<lambda>(y, s). rbind (wanted_mask c s p) (\<lambda>mk. Inr (y, s, mk))) of
        Inl e \<Rightarrow> (Inl e, model_layers m)
      | Inr (y, s, mk) \<Rightarrow>
          (case run_layers c mk p (model_layers m) y of (r, ls) \<Rightarrow> (rbind r (head_forward c (model_head m) s), ls)))"

lemma forward_forward_pure:
  assumes "masks_ok c m"
  shows "fst (forward c m x p) = fst (forward_pure c m x p)"
    and "model_layers (snd (forward c m x p)) = snd (forward_pure c m x p)"
    and "masks_ok c (snd (forward c m x p))"
    and "tok_embeddings (snd (forward c m x p)) = tok_embeddings m"
    and "model_head (snd (forward c m x p)) = model_head m"
proof -
  have *: "fst (forward c m x p) = fst (forward_pure c m x p) \<and>
    model_layers (snd (forward c m x p)) = snd (forward_pure c m x p) \<and>
    masks_ok c (snd (forward c m x p)) \<and> tok_embeddings (snd (forward c m x p)) = tok_embeddings m \<and>
    model_head (snd (forward c m x p)) = model_head m"
  proof (cases "model_input c (tok_embeddings m) x")
    case (Inl e)
    then show ?thesis using assms by (simp add: forward_def forward_pure_def model_input_def)
  next
    case (Inr ys)
    obtain y s where ys: "ys = (y, s)" by (cases ys)
    note inp = Inr [unfolded ys model_input_def]
    note pure = forward_pure_def [of c m x p, unfolded Inr ys]
    show ?thesis
    proof (cases "s = 1")
      case True
      then show ?thesis using assms inp pure
        by (simp add: forward_def wanted_mask_def masks_ok_def split: prod.splits)
    next
      case False
      obtain r m' where m': "shard_mask c m s p = (r, m')" by (cases "shard_mask c m s p")
      from shard_mask_cases [OF assms, of s p] m' have r: "r = t_causal_mask c s p" and ok: "masks_ok c m'"
        and upd: "tok_embeddings m' = tok_embeddings m" "model_head m' = model_head m" "model_layers m' = model_layers m"
        by auto
      show ?thesis
      proof (cases r)
        case (Inl e)
        then show ?thesis using False inp pure m' r ok upd by (simp add: forward_def wanted_mask_def)
      next
        case (Inr t)
        then have mk: "t_causal_mask c s p = Inr t" using r by simp
        show ?thesis using False inp pure m' Inr mk ok upd
          by (simp add: forward_def wanted_mask_def masks_ok_def split: prod.splits)
      qed
    qed
  qed
  from * show "fst (forward c m x p) = fst (forward_pure c m x p)"
    "model_layers (snd (forward c m x p)) = snd (forward_pure c m x p)" "masks_ok c (snd (forward c m x p))"
    "tok_embeddings (snd (forward c m x p)) = tok_embeddings m" "model_head (snd (forward c m x p)) = model_head m"
    by blast+
qed

text \<open>The shards of a chain, each fed with what the one before it returns.\<close>

fun chain_forward ::
    "('t, 'q) candle \<Rightarrow> ('t, 'q) shard_model list \<Rightarrow> 't \<Rightarrow> nat \<Rightarrow> (fault + 't) \<times> ('t, 'q) shard_model list" where
  "chain_forward c [] x p = (Inr x, [])"
| "chain_forward c (m # ms) x p =
     (case forward c m x p of
        (Inl e, m') \<Rightarrow> (Inl e, m' # ms)
      | (Inr y, m') \<Rightarrow> (case chain_forward c ms y p of (r, ms') \<Rightarrow> (r, m' # ms')))"

lemma forward_pure_joins:
  assumes "joins w a b" and "add_law c"
  shows "forward_pure c w x p =
    (case forward_pure c a x p of
       (Inl e, as) \<Rightarrow> (Inl e, as @ model_layers b)
     | (Inr y, as) \<Rightarrow> (case forward_pure c b y p of (r, bs) \<Rightarrow> (r, as @ bs)))"
proof -
  have w: "tok_embeddings w = tok_embeddings a" "model_layers w = model_layers a @ model_layers b"
    "model_head w = model_head b" "model_head a = None" "tok_embeddings b = None"
    using assms(1) by (simp_all add: joins_def)
  let ?in = "rbind (model_input c (tok_embeddings a) x) (\<lambda>(y, s). rbind (wanted_mask c s p) (\<lambda>mk. Inr (y, s, mk)))"
  show ?thesis
  proof (cases ?in)
    case (Inl e)
    then show ?thesis by (simp add: forward_pure_def w)
  next
    case (Inr ysm)
    then obtain y s mk where ysm: "?in = Inr (y, s, mk)" by (cases ysm) auto
    then have dims: "\<exists>b' h. t_dims3 c y = Inr (b', s, h)" and mk: "wanted_mask c s p = Inr mk"
      by (auto simp: rbind_eq_Inr model_input_def split: option.splits)
    obtain r as where run: "run_layers c mk p (model_layers a) y = (r, as)"
      by (cases "run_layers c mk p (model_layers a) y")
    show ?thesis
    proof (cases r)
      case (Inl e)
      then show ?thesis using ysm run by (simp add: forward_pure_def w run_layers_append)
    next
      case (Inr z)
      with run dims run_layers_dims [OF assms(2)] have "\<exists>b' h. t_dims3 c z = Inr (b', s, h)" by metis
      then have "model_input c None z = Inr (z, s)" by (auto simp: model_input_def)
      with mk ysm run Inr show ?thesis
        by (simp add: forward_pure_def w run_layers_append head_forward_def split: prod.split)
    qed
  qed
qed

lemma joins_forward:
  assumes "joins w a b" and "add_law c" and "masks_ok c w" and "masks_ok c a" and "masks_ok c b"
    and "chain_forward c [a, b] x p = (r, [a', b'])"
  shows "fst (forward c w x p) = r \<and> joins (snd (forward c w x p)) a' b' \<and>
    masks_ok c (snd (forward c w x p)) \<and> masks_ok c a' \<and> masks_ok c b'"
proof -
  note w = forward_forward_pure [OF assms(3), of x p] and p = forward_pure_joins [OF assms(1,2), of x p]
  note a = forward_forward_pure [OF assms(4), of x p]
  obtain ra a1 where fa: "forward c a x p = (ra, a1)" by (cases "forward c a x p")
  have pa: "forward_pure c a x p = (ra, model_layers a1)" using a(1,2) fa by (simp add: prod_eq_iff)
  show ?thesis
  proof (cases ra)
    case (Inl e)
    with assms(6) fa have "r = Inl e" "a' = a1" "b' = b" by simp_all
    with w p pa a assms(1,5) fa Inl show ?thesis by (simp add: joins_def)
  next
    case (Inr y)
    note b = forward_forward_pure [OF assms(5), of y p]
    obtain rb b1 where fb: "forward c b y p = (rb, b1)" by (cases "forward c b y p")
    have pb: "forward_pure c b y p = (rb, model_layers b1)" using b(1,2) fb by (simp add: prod_eq_iff)
    have "r = rb" "a' = a1" "b' = b1"
      using assms(6) fa fb Inr by (auto split: sum.splits)
    with w p pa pb a b assms(1) fa fb Inr show ?thesis by (simp add: joins_def)
  qed
qed

text \<open>\<open>w\<close> is one shard over the ranges of \<open>ms\<close>, in order.\<close>

fun covers_parts ::
    "'q option \<Rightarrow> ('q \<times> 'q) option \<Rightarrow> ('t, 'q) layer list \<Rightarrow> ('t, 'q) shard_model list \<Rightarrow> bool" where
  "covers_parts e h ls [] \<longleftrightarrow> False"
| "covers_parts e h ls [m] \<longleftrightarrow> e = tok_embeddings m \<and> h = model_head m \<and> ls = model_layers m"
| "covers_parts e h ls (m # m' # ms) \<longleftrightarrow>
     (let k = length (model_layers m) in
      e = tok_embeddings m \<and> model_head m = None \<and> take k ls = model_layers m \<and>
      covers_parts None h (drop k ls) (m' # ms))"

definition covers :: "('t, 'q) shard_model \<Rightarrow> ('t, 'q) shard_model list \<Rightarrow> bool" where
  "covers w ms \<longleftrightarrow> covers_parts (tok_embeddings w) (model_head w) (model_layers w) ms"

lemma covers_joins:
  assumes "covers w (m # ms)" and "ms \<noteq> []"
  obtains rest where "joins w m rest" "covers rest ms" "masks rest = masks w"
proof -
  obtain m' ms' where ms: "ms = m' # ms'" using assms(2) by (cases ms) auto
  define rest where "rest = w\<lparr>tok_embeddings := None, model_layers := drop (length (model_layers m)) (model_layers w)\<rparr>"
  have c: "covers rest ms" "tok_embeddings w = tok_embeddings m" "model_head m = None"
    "take (length (model_layers m)) (model_layers w) = model_layers m"
    using assms(1) by (simp_all add: covers_def ms rest_def Let_def)
  then have "joins w m rest"
    by (simp add: joins_def rest_def) (metis append_take_drop_id)
  from that [OF this c(1)] show thesis by (simp add: rest_def)
qed

lemma joins_covers:
  assumes "joins w m rest" and "covers rest ms" and "ms \<noteq> []"
  shows "covers w (m # ms)"
proof -
  obtain m' ms' where ms: "ms = m' # ms'" using assms(3) by (cases ms) auto
  from assms(1,2) show ?thesis by (simp add: covers_def ms joins_def Let_def)
qed

lemma chain_covers:
  assumes "add_law c"
  shows "covers w ms \<Longrightarrow> masks_ok c w \<Longrightarrow> \<forall>m \<in> set ms. masks_ok c m \<Longrightarrow> chain_forward c ms x p = (r, ms') \<Longrightarrow>
    fst (forward c w x p) = r \<and> covers (snd (forward c w x p)) ms' \<and> ms' \<noteq> [] \<and>
    masks_ok c (snd (forward c w x p)) \<and> (\<forall>m \<in> set ms'. masks_ok c m)"
proof (induction ms arbitrary: w x r ms')
  case (Cons m ms)
  obtain rm m1 where fm: "forward c m x p = (rm, m1)" by (cases "forward c m x p")
  have mm: "masks_ok c m" using Cons.prems(3) by simp
  note fw = forward_forward_pure [OF Cons.prems(2), of x p] and fpm = forward_forward_pure [OF mm, of x p, unfolded fm]
  show ?case
  proof (cases "ms = []")
    case True
    then have same: "tok_embeddings w = tok_embeddings m" "model_head w = model_head m" "model_layers w = model_layers m"
      using Cons.prems(1) by (simp_all add: covers_def)
    have "forward_pure c w x p = forward_pure c m x p" unfolding forward_pure_def same ..
    with fw fpm same have "fst (forward c w x p) = rm" "covers (snd (forward c w x p)) [m1]"
      by (simp_all add: covers_def)
    moreover have "r = rm" "ms' = [m1]" using Cons.prems(4) True fm by (auto split: sum.splits)
    ultimately show ?thesis using fw(3) fpm(3) by simp
  next
    case False
    obtain rest where rest: "joins w m rest" "covers rest ms" "masks rest = masks w"
      using covers_joins [OF Cons.prems(1) False] .
    have mr: "masks_ok c rest" using Cons.prems(2) rest(3) by (simp add: masks_ok_def)
    show ?thesis
    proof (cases rm)
      case (Inl e)
      then have ch: "chain_forward c [m, rest] x p = (Inl e, [m1, rest])" by (simp add: fm)
      have "r = Inl e" "ms' = m1 # ms" using Cons.prems(4) fm Inl by simp_all
      with joins_forward [OF rest(1) assms Cons.prems(2) mm mr ch] joins_covers [OF _ rest(2) False] Cons.prems(3)
      show ?thesis by auto
    next
      case (Inr y)
      obtain r2 ms2 where tl: "chain_forward c ms y p = (r2, ms2)" by (cases "chain_forward c ms y p")
      have r: "r = r2" "ms' = m1 # ms2" using Cons.prems(4) fm Inr tl by simp_all
      from Cons.IH [OF rest(2) mr _ tl] Cons.prems(3)
      have ih: "fst (forward c rest y p) = r2" "covers (snd (forward c rest y p)) ms2" "ms2 \<noteq> []"
        "\<forall>m \<in> set ms2. masks_ok c m" by simp_all
      have ch: "chain_forward c [m, rest] x p = (r2, [m1, snd (forward c rest y p)])"
        using ih(1) by (auto simp: fm Inr split: sum.split prod.split)
      from joins_forward [OF rest(1) assms Cons.prems(2) mm mr ch] joins_covers [OF _ ih(2,3)] ih(4) r
      show ?thesis by simp
    qed
  qed
qed (simp add: covers_def)

section \<open>Loading adjacent ranges\<close>

lemma try_fold_collect:
  "try_fold (\<lambda>ls i. rbind (g i) (\<lambda>l. Inr (ls @ [l]))) acc xs =
     rbind (try_fold (\<lambda>ls i. rbind (g i) (\<lambda>l. Inr (ls @ [l]))) [] xs) (\<lambda>ys. Inr (acc @ ys))"
proof (induction xs arbitrary: acc)
  case (Cons i xs)
  show ?case
  proof (cases "g i")
    case (Inr l)
    then show ?thesis using Cons [of "acc @ [l]"] Cons [of "[l]"] by (simp add: rbind_assoc)
  qed simp
qed simp

lemma load_layers_append:
  assumes "lo \<le> mid" and "mid \<le> hi"
  shows "load_layers c g p lo hi =
    rbind (load_layers c g p lo mid) (\<lambda>as. rbind (load_layers c g p mid hi) (\<lambda>bs. Inr (as @ bs)))"
proof -
  have "[lo..<hi] = [lo..<mid] @ [mid..<hi]" using assms by (metis le_add_diff_inverse upt_add_eq_append)
  moreover have "(\<lambda>as. try_fold (\<lambda>ls i. rbind (load_layer c g p i) (\<lambda>l. Inr (ls @ [l]))) as [mid..<hi]) =
      (\<lambda>as. rbind (load_layers c g p mid hi) (\<lambda>bs. Inr (as @ bs)))"
    unfolding load_layers_def by (rule ext, rule try_fold_collect)
  ultimately show ?thesis by (simp add: load_layers_def [of c g p lo] try_fold_append)
qed

lemma load_layers_length: "load_layers c g p lo hi = Inr ls \<Longrightarrow> length ls = hi - lo"
proof -
  have "try_fold (\<lambda>ls i. rbind (load_layer c g p i) (\<lambda>l. Inr (ls @ [l]))) acc xs = Inr ls \<Longrightarrow>
    length ls = length acc + length xs" for acc xs
  proof (induction xs arbitrary: acc)
    case (Cons i xs)
    from Cons.prems obtain l where
      "try_fold (\<lambda>ls i. rbind (load_layer c g p i) (\<lambda>l. Inr (ls @ [l]))) (acc @ [l]) xs = Inr ls"
      by (auto simp: rbind_eq_Inr)
    from Cons.IH [OF this] show ?case by simp
  qed simp
  then show "load_layers c g p lo hi = Inr ls \<Longrightarrow> length ls = hi - lo" by (force simp: load_layers_def)
qed

lemma load_head_tied:
  assumes "load_embedding c g n 0 = Inr emb"
  shows "load_head c g eps emb True = load_head c g eps None True"
  using assms by (auto simp: load_head_def load_embedding_def rbind_eq_Inr split: sum.split)

lemma from_gguf_Inr:
  assumes "read_shape c g = Inr (p, n)"
  shows "from_gguf c g lo hi = Inr m \<longleftrightarrow> lo \<le> hi \<and> hi \<le> n \<and>
    (\<exists>emb h ls. load_embedding c g (shape_embedding p) lo = Inr emb \<and> load_head c g (shape_eps p) emb (hi = n) = Inr h \<and>
      load_layers c g p lo hi = Inr ls \<and>
      m = \<lparr>tok_embeddings = map_option snd emb, model_layers = ls, model_head = h, masks = Map.empty\<rparr>)"
  using assms by (auto simp: from_gguf_def rbind_eq_Inr)

lemma from_gguf_joins:
  assumes "read_shape c g = Inr (p, n)" and "0 < mid" and "mid < n" and "lo \<le> mid" and "mid \<le> hi"
    and "from_gguf c g lo mid = Inr a" and "from_gguf c g mid hi = Inr b"
  shows "\<exists>w. from_gguf c g lo hi = Inr w \<and> joins w a b \<and> masks_ok c w \<and> masks_ok c a \<and> masks_ok c b"
proof -
  from assms(6) obtain emb as where a: "load_embedding c g (shape_embedding p) lo = Inr emb"
    "load_layers c g p lo mid = Inr as"
    "a = \<lparr>tok_embeddings = map_option snd emb, model_layers = as, model_head = None, masks = Map.empty\<rparr>"
    using assms(3) unfolding from_gguf_Inr [OF assms(1)] by (auto simp: load_head_def)
  from assms(7) obtain h bs where b: "load_head c g (shape_eps p) None (hi = n) = Inr h" "hi \<le> n"
    "load_layers c g p mid hi = Inr bs"
    "b = \<lparr>tok_embeddings = None, model_layers = bs, model_head = h, masks = Map.empty\<rparr>"
    using assms(2) unfolding from_gguf_Inr [OF assms(1)] by (auto simp: load_embedding_def)
  have "load_head c g (shape_eps p) emb (hi = n) = Inr h"
  proof (cases "hi = n \<and> lo = 0")
    case True
    with a(1) b(1) load_head_tied show ?thesis by metis
  next
    case False
    with a(1) b(1) show ?thesis by (cases "hi = n") (auto simp: load_embedding_def load_head_def split: if_splits)
  qed
  moreover have "load_layers c g p lo hi = Inr (as @ bs)"
    using load_layers_append [OF assms(4,5), of c g p] a(2) b(3) by simp
  ultimately have "from_gguf c g lo hi = Inr \<lparr>tok_embeddings = map_option snd emb, model_layers = as @ bs, model_head = h, masks = Map.empty\<rparr>"
    using a(1) b(2) assms(4,5) unfolding from_gguf_Inr [OF assms(1)] by auto
  then show ?thesis using a(3) b(4) by (auto simp: joins_def masks_ok_def)
qed

lemma joins_covers_last: "joins w a b \<Longrightarrow> covers w [a, b]"
  by (simp add: covers_def joins_def)

lemma load_mlp_cong:
  assumes "\<And>rest. source_tensor g' (prefix @ CHR ''.'' # rest) = source_tensor g (prefix @ CHR ''.'' # rest)"
  shows "load_mlp c g' prefix s = load_mlp c g prefix s"
  using assms by (simp add: load_mlp_def)

lemma load_layer_cong:
  assumes "\<And>rest. source_tensor g' (''blk.'' @ show_nat i @ CHR ''.'' # rest) =
    source_tensor g (''blk.'' @ show_nat i @ CHR ''.'' # rest)"
  shows "load_layer c g' p i = load_layer c g p i"
proof -
  note a = assms [simplified]
  have "load_mlp c g' (''blk.'' @ show_nat i) s = load_mlp c g (''blk.'' @ show_nat i) s" for s
    by (rule load_mlp_cong) (simp add: a)
  then have "load_mlp_or_moe c g' x y (''blk.'' @ show_nat i) = load_mlp_or_moe c g x y (''blk.'' @ show_nat i)" for x y
    using a by (simp add: load_mlp_or_moe_def)
  then show ?thesis using a by (simp add: load_layer_def Let_def)
qed

lemma try_fold_cong: "(\<And>s x. x \<in> set xs \<Longrightarrow> f s x = g s x) \<Longrightarrow> try_fold f s xs = try_fold g s xs"
proof (induction xs arbitrary: s)
  case (Cons x xs)
  then have "(\<lambda>t. try_fold f t xs) = (\<lambda>t. try_fold g t xs)" by auto
  with Cons.prems show ?case by simp
qed simp

section \<open>Routing\<close>

lemma ranking_props: "distinct (ranking rw)" "set (ranking rw) = {..<length rw}" "length (ranking rw) = length rw"
  by (auto simp: ranking_def)

lemma ranking_sorted: "i < j \<Longrightarrow> j < length rw \<Longrightarrow> f32_key (rw ! (ranking rw ! j)) \<le> f32_key (rw ! (ranking rw ! i))"
proof -
  assume ij: "i < j" "j < length rw"
  have "sorted (map (\<lambda>i. - f32_key (rw ! i)) (ranking rw))" by (simp add: ranking_def)
  from sorted_nth_mono [OF this, of i j] ij show ?thesis by (simp add: ranking_props(3))
qed

lemma ranking_top:
  assumes "e \<in> set (take k (ranking rw))" and "f < length rw" and "f \<notin> set (take k (ranking rw))"
  shows "f32_key (rw ! f) \<le> f32_key (rw ! e)"
proof -
  from assms(1) obtain i where i: "i < k" "i < length rw" "e = ranking rw ! i"
    by (auto simp: in_set_conv_nth ranking_props(3))
  from assms(2) have "f \<in> set (ranking rw)" by (simp add: ranking_props(2))
  then obtain j where j: "j < length rw" "f = ranking rw ! j" by (auto simp: in_set_conv_nth ranking_props(3))
  have "k \<le> j"
  proof (rule ccontr)
    assume "\<not> k \<le> j"
    then have "f \<in> set (take k (ranking rw))" using j by (auto simp: in_set_conv_nth ranking_props(3))
    with assms(3) show False by simp
  qed
  with i j ranking_sorted [of i j rw] show ?thesis by simp
qed

lemma fold_push:
  assumes "distinct es" and "\<forall>e \<in> set es. e < length t"
  shows "length (foldl (\<lambda>t e. t[e := t ! e @ [x e]]) t es) = length t \<and>
    (\<forall>e < length t. foldl (\<lambda>t e. t[e := t ! e @ [x e]]) t es ! e = (if e \<in> set es then t ! e @ [x e] else t ! e))"
  using assms
proof (induction es arbitrary: t)
  case (Cons a es)
  from Cons.IH [of "t[a := t ! a @ [x a]]"] Cons.prems show ?case by (auto simp: nth_list_update)
qed simp

text \<open>After some rows, each expert holds exactly the rows that rank it among their first \<open>k\<close>, in order.\<close>

definition chosen_rows :: "nat \<Rightarrow> f32 list list \<Rightarrow> nat \<Rightarrow> nat list" where
  "chosen_rows k weights e = filter (\<lambda>i. e \<in> set (take k (ranking (weights ! i)))) [0..<length weights]"

lemma route_row_Inr:
  assumes "route_row c k (tx, rws) (i, rw) = Inr (tx', rws')" and "length tx = n" and "length rws = n"
  shows "length tx' = n \<and> length rws' = n \<and> (\<forall>e < n.
    (e \<in> set (take k (ranking rw)) \<longrightarrow> tx' ! e = tx ! e @ [of_nat i] \<and> length (rws' ! e) = length (rws ! e) + 1) \<and>
    (e \<notin> set (take k (ranking rw)) \<longrightarrow> tx' ! e = tx ! e \<and> rws' ! e = rws ! e))"
proof -
  let ?es = "take k (ranking rw)"
  define total where "total = foldl (\<lambda>s e. f32_add c s (rw ! e)) 0 ?es"
  from assms(1) have in_range: "\<forall>e \<in> set ?es. e < length tx"
    and tx': "tx' = foldl (\<lambda>t e. t[e := t ! e @ [of_nat i]]) tx ?es"
    and rws': "rws' = foldl (\<lambda>t e. t[e := t ! e @ [f32_div c (rw ! e) total]]) rws ?es"
    by (auto simp: route_row_def Let_def total_def not_le split: if_splits)
  have d: "distinct ?es" using ranking_props(1) distinct_take by blast
  from fold_push [OF d in_range, of "\<lambda>_. of_nat i"] tx' assms(2)
  have t: "length tx' = n" "\<forall>e < n. tx' ! e = (if e \<in> set ?es then tx ! e @ [of_nat i] else tx ! e)"
    by auto
  from fold_push [OF d, of rws "\<lambda>e. f32_div c (rw ! e) total"] in_range rws' assms(2,3)
  have "length rws' = n" "\<forall>e < n. rws' ! e = (if e \<in> set ?es then rws ! e @ [f32_div c (rw ! e) total] else rws ! e)"
    by auto
  with t show ?thesis by auto
qed

lemma route_fold:
  "try_fold (route_row c k) (replicate n [], replicate n []) (zip [0..<length weights] weights) = Inr (tx, rws) \<Longrightarrow>
   length tx = n \<and> length rws = n \<and>
   (\<forall>e < n. tx ! e = map of_nat (chosen_rows k weights e) \<and> length (rws ! e) = length (tx ! e))"
proof (induction weights arbitrary: tx rws rule: rev_induct)
  case Nil
  then show ?case by (auto simp: chosen_rows_def)
next
  case (snoc rw weights)
  have zip: "zip [0..<length (weights @ [rw])] (weights @ [rw]) = zip [0..<length weights] weights @ [(length weights, rw)]"
    by simp
  from snoc.prems obtain acc where acc:
    "try_fold (route_row c k) (replicate n [], replicate n []) (zip [0..<length weights] weights) = Inr acc"
    "route_row c k acc (length weights, rw) = Inr (tx, rws)"
    unfolding zip try_fold_append by (auto simp: rbind_eq_Inr)
  obtain tx0 rws0 where pair: "acc = (tx0, rws0)" by (cases acc)
  from snoc.IH acc(1) pair have ih: "length tx0 = n" "length rws0 = n"
    "\<forall>e < n. tx0 ! e = map of_nat (chosen_rows k weights e) \<and> length (rws0 ! e) = length (tx0 ! e)" by auto
  have rows: "chosen_rows k (weights @ [rw]) e =
      chosen_rows k weights e @ (if e \<in> set (take k (ranking rw)) then [length weights] else [])" for e
    by (auto simp: chosen_rows_def nth_append intro!: filter_cong)
  from route_row_Inr [OF acc(2) [unfolded pair] ih(1,2)] ih(3) rows show ?case by auto
qed

section \<open>Chains of shards over one file\<close>

text \<open>The shards over the ranges between consecutive cuts.\<close>

fun load_chain ::
    "('t, 'q) candle \<Rightarrow> ('t, 'q) gguf_source \<Rightarrow> nat \<Rightarrow> nat list \<Rightarrow> fault + ('t, 'q) shard_model list" where
  "load_chain c g lo [] = Inr []"
| "load_chain c g lo (hi # cuts) =
     rbind (from_gguf c g lo hi) (\<lambda>m. rbind (load_chain c g hi cuts) (\<lambda>ms. Inr (m # ms)))"

lemma load_chain_covers:
  assumes "read_shape c g = Inr (p, n)"
  shows "load_chain c g lo (mids @ [hi]) = Inr ms \<Longrightarrow> sorted (lo # mids @ [hi]) \<Longrightarrow> \<forall>i \<in> set mids. 0 < i \<and> i < n \<Longrightarrow>
    \<exists>w. from_gguf c g lo hi = Inr w \<and> covers w ms \<and> masks_ok c w \<and> (\<forall>m \<in> set ms. masks_ok c m)"
proof (induction mids arbitrary: lo ms)
  case Nil
  then show ?case
    unfolding from_gguf_Inr [OF assms] by (auto simp: rbind_eq_Inr covers_def masks_ok_def from_gguf_Inr [OF assms])
next
  case (Cons mid mids)
  from Cons.prems(1) obtain a ms' where a: "from_gguf c g lo mid = Inr a"
    "load_chain c g mid (mids @ [hi]) = Inr ms'" "ms = a # ms'"
    by (auto simp: rbind_eq_Inr)
  with Cons.IH [of mid ms'] Cons.prems obtain b where b: "from_gguf c g mid hi = Inr b" "covers b ms'"
    "\<forall>m \<in> set ms'. masks_ok c m" by auto
  have "ms' \<noteq> []" using b(2) by (auto simp: covers_def)
  have "0 < mid" "mid < n" "lo \<le> mid" "mid \<le> hi" using Cons.prems by auto
  from from_gguf_joins [OF assms this a(1) b(1)] obtain w where
    "from_gguf c g lo hi = Inr w" "joins w a b" "masks_ok c w" "masks_ok c a" by blast
  with joins_covers [OF _ b(2) \<open>ms' \<noteq> []\<close>] a(3) b(3) show ?case by auto
qed

datatype 't model_op = ClearCache | Forward 't nat

fun model_step :: "('t, 'q) candle \<Rightarrow> ('t, 'q) shard_model \<Rightarrow> 't model_op \<Rightarrow> (fault + 't) option \<times> ('t, 'q) shard_model" where
  "model_step c m ClearCache = (None, clear_kv_cache m)"
| "model_step c m (Forward x p) = (case forward c m x p of (r, m') \<Rightarrow> (Some r, m'))"

fun chain_step ::
    "('t, 'q) candle \<Rightarrow> ('t, 'q) shard_model list \<Rightarrow> 't model_op \<Rightarrow> (fault + 't) option \<times> ('t, 'q) shard_model list" where
  "chain_step c ms ClearCache = (None, map clear_kv_cache ms)"
| "chain_step c ms (Forward x p) = (case chain_forward c ms x p of (r, ms') \<Rightarrow> (Some r, ms'))"

fun replies :: "('s \<Rightarrow> 'o \<Rightarrow> 'r \<times> 's) \<Rightarrow> 's \<Rightarrow> 'o list \<Rightarrow> 'r list" where
  "replies step s [] = []"
| "replies step s (i # is) = (case step s i of (r, s') \<Rightarrow> r # replies step s' is)"

lemma covers_clear: "covers w ms \<Longrightarrow> covers (clear_kv_cache w) (map clear_kv_cache ms)"
proof -
  let ?f = "\<lambda>l. l\<lparr>kv_cache := None\<rparr>"
  have "covers_parts e h ls ms \<Longrightarrow> covers_parts e h (map ?f ls) (map clear_kv_cache ms)" for e h and ls :: "('t, 'q) layer list" and ms
    by (induction e h ls ms rule: covers_parts.induct) (auto simp: clear_kv_cache_def Let_def take_map drop_map)
  from this [of "tok_embeddings w" "model_head w" "model_layers w" ms] show "covers w ms \<Longrightarrow> ?thesis"
    by (simp add: covers_def clear_kv_cache_def)
qed

lemma masks_ok_clear [simp]: "masks_ok c (clear_kv_cache m) = masks_ok c m"
  by (simp add: masks_ok_def clear_kv_cache_def)

lemma chain_simulates:
  assumes "add_law c"
  shows "covers w ms \<Longrightarrow> masks_ok c w \<Longrightarrow> \<forall>m \<in> set ms. masks_ok c m \<Longrightarrow>
    replies (model_step c) w ops = replies (chain_step c) ms ops"
proof (induction ops arbitrary: w ms)
  case (Cons x ops)
  show ?case
  proof (cases x)
    case ClearCache
    with Cons.IH [OF covers_clear [OF Cons.prems(1)]] Cons.prems show ?thesis by simp
  next
    case (Forward t p)
    obtain r ms' where ch: "chain_forward c ms t p = (r, ms')" by (cases "chain_forward c ms t p")
    obtain r' w' where fw: "forward c w t p = (r', w')" by (cases "forward c w t p")
    from chain_covers [OF assms Cons.prems ch] fw
    have "r' = r" "covers w' ms'" "masks_ok c w'" "\<forall>m \<in> set ms'. masks_ok c m" by auto
    with Cons.IH ch fw Forward show ?thesis by simp
  qed
qed simp

text \<open>The tensors a range is made of.\<close>

definition needed_tensor :: "nat \<Rightarrow> nat \<Rightarrow> nat \<Rightarrow> string \<Rightarrow> bool" where
  "needed_tensor n lo hi name \<longleftrightarrow>
     (\<exists>i. lo \<le> i \<and> i < hi \<and> starts_with (''blk.'' @ show_nat i @ ''.'') name) \<or>
     (lo = 0 \<or> hi = n) \<and> name = ''token_embd.weight'' \<or>
     hi = n \<and> name \<in> {''output_norm.weight'', ''output.weight''}"

lemma from_gguf_reads:
  assumes shape: "read_shape c g = Inr (p, n)" and same: "\<forall>name. needed_tensor n lo hi name \<longrightarrow> t name = source_tensor g name"
  shows "from_gguf c (g\<lparr>source_tensor := t\<rparr>) lo hi = from_gguf c g lo hi"
proof -
  let ?g = "g\<lparr>source_tensor := t\<rparr>"
  have shape': "read_shape c ?g = read_shape c g"
    by (simp add: read_shape_def md_u32_def md_f32_def md_get_def)
  have "load_layer c ?g p i = load_layer c g p i" if "lo \<le> i" "i < hi" for i
  proof (rule load_layer_cong)
    fix rest
    have "needed_tensor n lo hi (''blk.'' @ show_nat i @ CHR ''.'' # rest)"
      using that starts_with_append [of "''blk.'' @ show_nat i @ ''.''" rest] by (auto simp: needed_tensor_def)
    with same show "source_tensor ?g (''blk.'' @ show_nat i @ CHR ''.'' # rest) = source_tensor g (''blk.'' @ show_nat i @ CHR ''.'' # rest)"
      by simp
  qed
  then have layers: "load_layers c ?g p lo hi = load_layers c g p lo hi"
    unfolding load_layers_def by (intro try_fold_cong) simp
  have emb: "load_embedding c ?g k lo = load_embedding c g k lo" for k
    using same by (simp add: load_embedding_def needed_tensor_def)
  have head: "load_head c ?g eps e (hi = n) = load_head c g eps e (hi = n)" for eps e
  proof (cases "hi = n")
    case True
    then have "t ''output_norm.weight'' = source_tensor g ''output_norm.weight''"
      "t ''output.weight'' = source_tensor g ''output.weight''"
      "t ''token_embd.weight'' = source_tensor g ''token_embd.weight''"
      using same by (simp_all add: needed_tensor_def)
    then show ?thesis by (simp add: load_head_def split: sum.split option.split)
  qed (simp add: load_head_def)
  show ?thesis unfolding from_gguf_def shape' shape using layers emb head by simp
qed

section \<open>Properties\<close>

text \<open>C4: Splitting a model is exact. Shards over adjacent ranges of one file, cut anywhere inside the
  model, load whenever each of them does as a single shard would, and for every sequence of forward
  passes and cache resets the chain of shards answers exactly as the single shard: same results,
  same errors.\<close>

theorem split_equivalence:
  assumes "add_law c" and "read_shape c g = Inr (p, n)" and "load_chain c g lo (mids @ [hi]) = Inr ms"
    and "sorted (lo # mids @ [hi])" and "\<forall>i \<in> set mids. 0 < i \<and> i < n"
  shows "\<exists>w. from_gguf c g lo hi = Inr w \<and> (\<forall>ops. replies (model_step c) w ops = replies (chain_step c) ms ops)"
  using load_chain_covers [OF assms(2-5)] chain_simulates [OF assms(1)] by blast

text \<open>C30: A shard reads only its own range: replacing every tensor outside its layers, the
  embedding when it holds neither end, and the head when it does not hold the last layer, changes
  nothing in what is loaded.\<close>

theorem loads_only_range:
  assumes "read_shape c g = Inr (p, n)" and "\<forall>name. needed_tensor n lo hi name \<longrightarrow> t name = source_tensor g name"
  shows "from_gguf c (g\<lparr>source_tensor := t\<rparr>) lo hi = from_gguf c g lo hi"
  by (rule from_gguf_reads [OF assms])

text \<open>The cached causal masks are transparent: with a consistent cache, asking for a mask returns
  what building it afresh returns, and leaves the cache consistent.\<close>

theorem mask_cache_transparent:
  assumes "masks_ok c m"
  shows "fst (shard_mask c m seq_len index_pos) = t_causal_mask c seq_len index_pos \<and>
    masks_ok c (snd (shard_mask c m seq_len index_pos))"
  using shard_mask_cases [OF assms] by blast

text \<open>C31: Routing of tokens to experts: each expert receives, in order, exactly the rows that rank it
  among their first \<open>k\<close>, with one weight for each; and what a row ranks first are its largest
  weights in the total order of floating point numbers.\<close>

theorem routing_exact:
  assumes "route c n k weights = Inr (top_x, selected)" and "e < n"
  shows "top_x ! e = map of_nat (chosen_rows k weights e) \<and> length (selected ! e) = length (top_x ! e) \<and>
    (\<forall>i f. i \<in> set (chosen_rows k weights e) \<and> f < length (weights ! i) \<and> i \<notin> set (chosen_rows k weights f) \<longrightarrow>
       f32_key (weights ! i ! f) \<le> f32_key (weights ! i ! e))"
  using route_fold [of c k n weights top_x selected] assms ranking_top
  by (auto simp: route_def chosen_rows_def)

section \<open>An example\<close>

text \<open>A small tensor library over lists of integers, on which the laws hold.\<close>

definition example_candle :: "(int list, int) candle" where
  "example_candle = \<lparr>t_dims3 = \<lambda>x. Inr (1, length x, 1), t_dims4 = \<lambda>x. Inr (1, 1, length x, 1),
     t_reshape = \<lambda>_ x. Inr x, t_flat_rows = \<lambda>_ x. Inr x, t_transpose = Inr, t_contiguous = Inr,
     t_narrow = \<lambda>x _ _. Inr x, t_rope = \<lambda>x _ _. Inr x, t_rope_i = \<lambda>x _ _. Inr x, t_cat = \<lambda>a b. Inr (a @ b),
     t_is_metal = \<lambda>_. False, t_sdpa = \<lambda>q _ _ _. Inr q, t_repeat_kv = \<lambda>x _. Inr x, t_t = Inr,
     t_matmul = \<lambda>a b. Inr (map (\<lambda>x. x * sum_list b) a), t_div_sqrt = \<lambda>x _. Inr x,
     t_broadcast_like = \<lambda>x _. Inr x, t_where_cond = \<lambda>_ _ x. Inr x, t_softmax = Inr, t_silu = Inr,
     t_mul = \<lambda>a b. Inr (map2 (*) a b),
     t_add = \<lambda>a b. if length a = length b then Inr (map2 (+) a b) else Inl (Candle ''shape''),
     t_zeros_like = \<lambda>x. Inr (map (\<lambda>_. 0) x), t_index_select = \<lambda>x _. Inr x, t_broadcast_mul = \<lambda>a b. Inr a,
     t_index_add = \<lambda>y _ x. Inr x, t_to_vec2 = \<lambda>x. Inr [], t_of_u32s = \<lambda>x. Inr (map uint x),
     t_of_f32s = \<lambda>x. Inr [], t_scalar = \<lambda>_. Inr [], t_column = Inr, t_arange_f32 = \<lambda>n. Inr [int n], t_cos = Inr, t_sin = Inr,
     t_row = \<lambda>x i. Inr [x ! i], t_embed = \<lambda>q x. Inr (map ((*) q) x), t_rms_norm = \<lambda>q x. Inr x,
     t_causal_mask = \<lambda>s p. Inr (replicate s 1), q_embedding = \<lambda>q _. Inr q, q_rms_norm = \<lambda>q _. Inr q,
     q_matmul_weight = Inr, q_matmul = \<lambda>q x. Inr (map ((*) q) x),
     f32_add = (+), f32_div = \<lambda>a b. a, f32_powf = \<lambda>a b. a, f32_of_nat = of_nat\<rparr>"

definition example_source :: "(int list, int) gguf_source" where
  "example_source = \<lparr>source_metadata = map_of [(''llama.attention.head_count'', VU32 1),
       (''llama.attention.head_count_kv'', VU32 1), (''llama.block_count'', VU32 2),
       (''llama.embedding_length'', VU32 1), (''llama.rope.dimension_count'', VU32 2),
       (''llama.attention.layer_norm_rms_epsilon'', VU32 1)],
     source_tensor = \<lambda>_. Inr 2,
     value_u32 = \<lambda>v. case v of VU32 w \<Rightarrow> Inr (unat w) | _ \<Rightarrow> Inl (Candle ''type''),
     value_f32 = \<lambda>v. case v of VU32 w \<Rightarrow> Inr w | _ \<Rightarrow> Inl (Candle ''type'')\<rparr>"

lemma example_add_law: "add_law example_candle"
  by (auto simp: add_law_def example_candle_def split: if_splits)

definition example_layer_shape :: "int list layer_shape" where
  "example_layer_shape = \<lparr>shape_heads = 1, shape_kv_heads = 1, shape_embedding = 1, shape_experts = 0,
     shape_experts_used = 0, shape_eps = 1, shape_neox = False, shape_cos = [0], shape_sin = [0], shape_neg_inf = []\<rparr>"

definition example_layer :: "(int list, int) layer" where
  "example_layer = \<lparr>attention_wq = 2, attention_wk = 2, attention_wv = 2, attention_wo = 2, attention_norm = 2,
     mlp_or_moe = Mlp \<lparr>feed_forward_w1 = 2, feed_forward_w2 = 2, feed_forward_w3 = 2\<rparr>, ffn_norm = 2, n_head = 1,
     n_kv_head = 1, layer_head_dim = 1, rope_is_neox = False, layer_cos = [0], layer_sin = [0], neg_inf = [],
     kv_cache = None\<rparr>"

lemma example_shape: "read_shape example_candle example_source = Inr (example_layer_shape, 2)"
proof -
  have "[0..<2] = [0, 1 :: nat]" by (simp add: upt_rec)
  then show ?thesis
    by (simp add: read_shape_def md_u32_def md_f32_def md_get_def unwrap_or_def precomput_freqs_cis_def
        example_candle_def example_source_def example_layer_shape_def neox_archs_def Let_def)
qed

lemma example_load_layer: "load_layer example_candle example_source example_layer_shape i = Inr example_layer"
  by (simp add: load_layer_def load_mlp_or_moe_def load_mlp_def example_candle_def example_source_def
      example_layer_shape_def example_layer_def Let_def)

lemma example_load_layers:
  "load_layers example_candle example_source example_layer_shape i (Suc i) = Inr [example_layer]"
  by (simp add: load_layers_def example_load_layer)

lemma example_loads: "source_tensor example_source name = Inr 2" "q_embedding example_candle q k = Inr q"
  "q_rms_norm example_candle q eps = Inr q" "q_matmul_weight example_candle q = Inr q"
  by (simp_all add: example_candle_def example_source_def)

lemma example_chain: "\<exists>a b. load_chain example_candle example_source 0 ([1] @ [2]) = Inr [a, b]"
  using example_load_layers [of 0] example_load_layers [of 1]
  by (simp add: from_gguf_def example_shape load_head_def load_embedding_def example_loads numeral_2_eq_2)

theorem split_equivalence_witness:
  "\<exists>a b w. load_chain example_candle example_source 0 ([1] @ [2]) = Inr [a, b] \<and>
     from_gguf example_candle example_source 0 2 = Inr w \<and>
     replies (model_step example_candle) w [Forward [1, 2] 0, Forward [3] 2, ClearCache] =
     replies (chain_step example_candle) [a, b] [Forward [1, 2] 0, Forward [3] 2, ClearCache]"
proof -
  from example_chain obtain a b where ab: "load_chain example_candle example_source 0 ([1] @ [2]) = Inr [a, b]" by blast
  from split_equivalence [OF example_add_law example_shape ab] obtain w where
    "from_gguf example_candle example_source 0 2 = Inr w"
    "\<forall>ops. replies (model_step example_candle) w ops = replies (chain_step example_candle) [a, b] ops" by auto
  with ab show ?thesis by blast
qed

theorem loads_only_range_witness:
  "from_gguf example_candle (example_source\<lparr>source_tensor := \<lambda>name. if name = ''output.weight'' then Inr 7 else Inr 2\<rparr>) 0 1 =
   from_gguf example_candle example_source 0 1"
  by (rule loads_only_range [OF example_shape]) (simp add: needed_tensor_def example_source_def starts_with_def)

theorem mask_cache_transparent_witness:
  "masks_ok example_candle \<lparr>tok_embeddings = None, model_layers = [], model_head = None, masks = [(2, 5) \<mapsto> [1, 1]]\<rparr> \<and>
   fst (shard_mask example_candle \<lparr>tok_embeddings = None, model_layers = [], model_head = None, masks = [(2, 5) \<mapsto> [1, 1]]\<rparr> 2 3)
     = Inr [1, 1]"
proof -
  let ?m = "\<lparr>tok_embeddings = None, model_layers = [], model_head = None, masks = [(2, 5) \<mapsto> [1, 1]]\<rparr>"
  have ok: "masks_ok example_candle ?m"
    by (simp add: masks_ok_def example_candle_def numeral_2_eq_2)
  from mask_cache_transparent [OF ok, of 2 3] ok show ?thesis
    by (simp add: example_candle_def numeral_2_eq_2)
qed

lemma example_route:
  "route example_candle 2 1 [[1, 2], [3, 2]] = Inr ([[1], [0]], [[3], [2]])"
  by (simp add: route_def route_row_def ranking_def example_candle_def upt_rec f32_key_def Let_def eval_nat_numeral)

theorem routing_exact_witness:
  "route example_candle 2 1 [[1, 2], [3, 2]] = Inr ([[1], [0]], [[3], [2]]) \<and>
   [[1], [0]] ! 1 = map (of_nat :: nat \<Rightarrow> u32) (chosen_rows 1 [[1, 2], [3, 2]] 1)"
proof -
  have "(1::nat) < 2" by simp
  from routing_exact [OF example_route this] example_route show ?thesis by blast
qed

end
