(* ===== verification/Candle_Shard.thy ===== *)
theory Candle_Shard
  imports Llama Wire_Bytes
begin

text \<open>
  \<open>crates/lattice-engine/src/candle.rs\<close>: the engine behind the interface \<open>shard\<close>. A shard owns a
  model over a layer range, at most one session, and the counters its statistics are made of. The
  conversions between tensors and plain numbers are operations of the library, the record \<open>convert\<close>.
  The wall clock is the argument \<open>elapsed\<close>. The properties show that a session never sees another
  one's keys and values and that an activation survives its trip over the wire.
\<close>

section \<open>The code\<close>

record 't convert =
  ids_tensor :: "u32 list \<Rightarrow> fault + 't"
  f32s_tensor :: "f32 list \<Rightarrow> nat \<times> nat \<times> nat \<Rightarrow> fault + 't"
  tensor_flat :: "'t \<Rightarrow> fault + 't"
  tensor_f32s :: "'t \<Rightarrow> fault + f32 list"
  tensor_f16s :: "'t \<Rightarrow> fault + u16 list"
  tensor_logits :: "'t \<Rightarrow> fault + f32 list"
  f16_to_f32 :: "u16 \<Rightarrow> f32"

record ('t, 'q) candle_shard =
  model :: "('t, 'q) shard_model"
  shard_facts :: model_facts
  shard_spec_of :: shard_spec
  weight_bytes :: u64
  active :: "u64 option"
  decodes :: nat
  decode_time :: nat

fun engine :: "fault \<Rightarrow> engine_error" where
  "engine (Candle s) = Engine s"
| "engine Panic = Panicked"

definition in_range :: "string \<Rightarrow> nat \<Rightarrow> nat \<Rightarrow> bool" where
  "in_range name lo hi =
     (case map_option (split_first CHR ''.'') (strip_prefix ''blk.'' name) of
        None \<Rightarrow> False
      | Some index \<Rightarrow>
          (case parse_uint u32_max index of
             None \<Rightarrow> False
           | Some index \<Rightarrow> index \<ge> lo \<and> index < hi))"

text \<open>Element counts and byte counts are 64 bits wide.\<close>

definition elem_count :: "tensor_info \<Rightarrow> nat" where
  "elem_count t = unat (of_nat (prod_list (dims t)) :: u64)"

definition quantized :: "gguf_content \<Rightarrow> string \<Rightarrow> u64" where
  "quantized content name =
     (case map_of (tensor_infos content) name of
        None \<Rightarrow> 0
      | Some t \<Rightarrow> of_nat (elem_count t div block_size t * type_size t))"

definition shard_weight_bytes :: "gguf_content \<Rightarrow> shard_spec \<Rightarrow> nat \<Rightarrow> u64" where
  "shard_weight_bytes content spec ls =
     (let owns_head = (last_layer spec = ls);
          tied = (map_of (tensor_infos content) ''output.weight'' = None);
          blocks = sum_list (map (quantized content)
            (filter (\<lambda>name. in_range name (first_layer spec) (last_layer spec)) (map fst (tensor_infos content))));
          embedding =
            (if first_layer spec = 0 then
               (case map_of (tensor_infos content) ''token_embd.weight'' of
                  None \<Rightarrow> 0 | Some t \<Rightarrow> of_nat (elem_count t) * 4)
             else 0);
          head = (if \<not> owns_head then 0
            else if \<not> tied then quantized content ''output_norm.weight'' + quantized content ''output.weight''
            else quantized content ''output_norm.weight'' + quantized content ''token_embd.weight'')
      in blocks + embedding + head)"

definition candle_open ::
    "('t, 'q) candle \<Rightarrow> ('t, 'q) gguf_source \<Rightarrow> string \<Rightarrow> string + unit \<Rightarrow> fault + gguf_content \<Rightarrow> shard_spec \<Rightarrow>
       engine_error + ('t, 'q) candle_shard" where
  "candle_open c g path opened parsed spec =
     rbind (map_err (\<lambda>e. Engine (path @ '': '' @ e)) opened) (\<lambda>_.
     rbind (map_err engine parsed) (\<lambda>content.
     rbind (read_facts (gguf_metadata content)) (\<lambda>f.
     if arch f \<noteq> ''llama'' then Inl (UnsupportedArch (arch f))
     else if last_layer spec > layers f \<or> first_layer spec > last_layer spec
     then Inl (UnsupportedRange (first_layer spec, last_layer spec) (layers f))
     else
       rbind (map_err engine (from_gguf c (g\<lparr>source_metadata := gguf_metadata content\<rparr>)
                                (first_layer spec) (last_layer spec))) (\<lambda>m.
       Inr \<lparr>model = m, shard_facts = f, shard_spec_of = spec,
            weight_bytes = shard_weight_bytes content spec (layers f),
            active = None, decodes = 0, decode_time = 0\<rparr>))))"

definition owns_embedding :: "('t, 'q) candle_shard \<Rightarrow> bool" where
  "owns_embedding s \<longleftrightarrow> first_layer (shard_spec_of s) = 0"

definition owns_head :: "('t, 'q) candle_shard \<Rightarrow> bool" where
  "owns_head s \<longleftrightarrow> last_layer (shard_spec_of s) = layers (shard_facts s)"

text \<open>\<open>chunks_exact\<close> drops an incomplete last chunk.\<close>

fun chunks_exact :: "nat \<Rightarrow> 'a list \<Rightarrow> 'a list list" where
  "chunks_exact k xs =
     (if k = 0 \<or> length xs < k then [] else take k xs # chunks_exact k (drop k xs))"

declare chunks_exact.simps [simp del]

definition to_tensor :: "'t convert \<Rightarrow> activation \<Rightarrow> engine_error + 't" where
  "to_tensor v a =
     (let values =
        (case dtype a of
           F16 \<Rightarrow> map (\<lambda>ch. f16_to_f32 v (le_word ch)) (chunks_exact 2 (payload_data a))
         | F32 \<Rightarrow> map le_word (chunks_exact 4 (payload_data a)))
      in map_err engine (f32s_tensor v values (1, unat (n_tokens a), unat (activation.hidden_dim a))))"

definition from_tensor :: "('t, 'q) candle \<Rightarrow> 't convert \<Rightarrow> 't \<Rightarrow> wire_dtype \<Rightarrow> engine_error + activation" where
  "from_tensor c v out d =
     rbind (map_err engine (t_dims3 c out)) (\<lambda>(_, tokens, hidden).
     rbind (map_err engine (tensor_flat v out)) (\<lambda>flat.
     rbind (case d of
              F16 \<Rightarrow> rbind (map_err engine (tensor_f16s v flat)) (\<lambda>xs. Inr (concat (map (le_bytes 2) xs)))
            | F32 \<Rightarrow> rbind (map_err engine (tensor_f32s v flat)) (\<lambda>xs. Inr (concat (map (le_bytes 4) xs)))) (\<lambda>bs.
     activation_new (of_nat tokens) (of_nat hidden) d bs)))"

definition run ::
    "('t, 'q) candle \<Rightarrow> 't convert \<Rightarrow> ('t, 'q) candle_shard \<Rightarrow> payload \<Rightarrow> nat \<Rightarrow>
       (engine_error + payload) \<times> ('t, 'q) candle_shard" where
  "run c v s input pos =
     (let wrong = (\<lambda>got. WrongPayload (first_layer (shard_spec_of s), last_layer (shard_spec_of s)) got);
          x = (case (input, owns_embedding s) of
                 (Tokens ids, True) \<Rightarrow> map_err engine (ids_tensor v ids)
               | (Hidden a, False) \<Rightarrow> to_tensor v a
               | (other, _) \<Rightarrow> Inl (wrong (payload_kind other)))
      in case x of
           Inl e \<Rightarrow> (Inl e, s)
         | Inr x \<Rightarrow>
             (case forward c (model s) x pos of
                (out, m) \<Rightarrow>
                  (rbind (map_err engine out) (\<lambda>out.
                     if \<not> owns_head s
                     then rbind (from_tensor c v out (spec_wire_dtype (shard_spec_of s))) (\<lambda>a. Inr (Hidden a))
                     else map_err engine (rbind (tensor_logits v out) (\<lambda>l. Inr (Logits l)))),
                   s\<lparr>model := m\<rparr>)))"

definition prefill ::
    "('t, 'q) candle \<Rightarrow> 't convert \<Rightarrow> ('t, 'q) candle_shard \<Rightarrow> u64 \<Rightarrow> nat \<Rightarrow> payload \<Rightarrow>
       (engine_error + payload) \<times> ('t, 'q) candle_shard" where
  "prefill c v s session pos_start input =
     (let s = (if active s \<noteq> Some session \<or> pos_start = 0
               then s\<lparr>model := clear_kv_cache (model s), active := Some session\<rparr> else s)
      in run c v s input pos_start)"

definition decode ::
    "('t, 'q) candle \<Rightarrow> 't convert \<Rightarrow> nat \<Rightarrow> ('t, 'q) candle_shard \<Rightarrow> u64 \<Rightarrow> nat \<Rightarrow> payload \<Rightarrow>
       (engine_error + payload) \<times> ('t, 'q) candle_shard" where
  "decode c v elapsed s session pos input =
     (if active s \<noteq> Some session then (Inl (UnknownSession session), s)
      else case run c v s input pos of
        (Inl e, s) \<Rightarrow> (Inl e, s)
      | (Inr out, s) \<Rightarrow>
          (let n = decodes s + 1
           in (Inr out, s\<lparr>decodes := n, decode_time := (if n > 1 then decode_time s + elapsed else decode_time s)\<rparr>)))"

definition drop_session :: "('t, 'q) candle_shard \<Rightarrow> u64 \<Rightarrow> ('t, 'q) candle_shard" where
  "drop_session s session =
     (if active s = Some session then s\<lparr>model := clear_kv_cache (model s), active := None\<rparr> else s)"

text \<open>\<open>None\<close>: the division by the head count panics.\<close>

definition stats :: "('t, 'q) candle_shard \<Rightarrow> shard_stats option" where
  "stats s =
     Option.bind (kv_bytes (shard_facts s) (spec_layers (shard_spec_of s)) (max_context (shard_spec_of s))
                    (spec_kv_dtype (shard_spec_of s))) (\<lambda>kv.
     Some \<lparr>sessions = (if active s = None then 0 else 1), kv_bytes_held = kv,
           weight_bytes_held = unat (weight_bytes s),
           decode_micros = (if decodes s - 1 = 0 then 0 else decode_time s div (decodes s - 1))\<rparr>)"

section \<open>The engine satisfies its interface\<close>

lemma run_active [simp]: "active (snd (run c v s x p)) = active s"
  by (auto simp: run_def Let_def split: sum.split prod.split)

lemma decode_keeps_active: "active (snd (decode c v t s i p x)) = active s"
proof (cases "active s = Some i")
  case True
  obtain r s' where "run c v s x p = (r, s')" by (cases "run c v s x p")
  with run_active [of c v s x p] show ?thesis by (auto simp: decode_def Let_def split: sum.split)
qed (simp add: decode_def)

lemma decode_unknown_session: "active s \<noteq> Some i \<Longrightarrow> decode c v t s i p x = (Inl (UnknownSession i), s)"
  by (simp add: decode_def)

interpretation candle: shard "prefill c v" "decode c v elapsed" drop_session active
  for c :: "('t, 'q) candle" and v :: "'t convert" and elapsed :: nat
  by unfold_locales (auto simp: prefill_def decode_keeps_active drop_session_def decode_unknown_session Let_def)

section \<open>Sessions\<close>

text \<open>Two models with the same weights and caches; their mask caches may differ.\<close>

definition same_model :: "('t, 'q) candle \<Rightarrow> ('t, 'q) shard_model \<Rightarrow> ('t, 'q) shard_model \<Rightarrow> bool" where
  "same_model c m m' \<longleftrightarrow> tok_embeddings m = tok_embeddings m' \<and> model_head m = model_head m' \<and>
     model_layers m = model_layers m' \<and> masks_ok c m \<and> masks_ok c m'"

text \<open>The same weights only.\<close>

definition same_weights :: "('t, 'q) candle \<Rightarrow> ('t, 'q) shard_model \<Rightarrow> ('t, 'q) shard_model \<Rightarrow> bool" where
  "same_weights c m m' \<longleftrightarrow> same_model c (clear_kv_cache m) (clear_kv_cache m')"

definition same_shard :: "('t, 'q) candle \<Rightarrow> ('t, 'q) candle_shard \<Rightarrow> ('t, 'q) candle_shard \<Rightarrow> bool" where
  "same_shard c s s' \<longleftrightarrow> shard_facts s = shard_facts s' \<and> shard_spec_of s = shard_spec_of s' \<and>
     active s = active s' \<and> same_model c (model s) (model s')"

lemma forward_same_model:
  assumes "same_model c m m'"
  shows "fst (forward c m x p) = fst (forward c m' x p)" and "same_model c (snd (forward c m x p)) (snd (forward c m' x p))"
proof -
  have ok: "masks_ok c m" "masks_ok c m'" using assms by (simp_all add: same_model_def)
  have same: "tok_embeddings m = tok_embeddings m'" "model_head m = model_head m'" "model_layers m = model_layers m'"
    using assms by (simp_all add: same_model_def)
  have "forward_pure c m x p = forward_pure c m' x p" unfolding forward_pure_def same ..
  with forward_forward_pure [OF ok(1)] forward_forward_pure [OF ok(2)] assms
  show "fst (forward c m x p) = fst (forward c m' x p)" "same_model c (snd (forward c m x p)) (snd (forward c m' x p))"
    by (simp_all add: same_model_def)
qed

lemma layer_forward_weights: "(snd (layer_forward c mk p l x))\<lparr>kv_cache := None\<rparr> = l\<lparr>kv_cache := None\<rparr>"
  by (auto simp: layer_forward_def forward_attn_def split: sum.split prod.split)

lemma run_layers_weights:
  "run_layers c mk p ls x = (r, ls') \<Longrightarrow> map (\<lambda>l. l\<lparr>kv_cache := None\<rparr>) ls' = map (\<lambda>l. l\<lparr>kv_cache := None\<rparr>) ls"
proof (induction ls arbitrary: x r ls')
  case (Cons l ls)
  obtain r1 l1 where l1: "layer_forward c mk p l x = (r1, l1)" by (cases "layer_forward c mk p l x")
  with layer_forward_weights [of c mk p l x] have w: "l1\<lparr>kv_cache := None\<rparr> = l\<lparr>kv_cache := None\<rparr>" by simp
  show ?case
  proof (cases r1)
    case (Inl e)
    with Cons.prems l1 w show ?thesis by auto
  next
    case (Inr y)
    obtain r2 ls2 where r2: "run_layers c mk p ls y = (r2, ls2)" by (cases "run_layers c mk p ls y")
    with Cons.prems l1 Inr have "ls' = l1 # ls2" by simp
    with w Cons.IH [OF r2] show ?thesis by simp
  qed
qed simp

lemma forward_weights:
  assumes "masks_ok c m"
  shows "same_weights c (snd (forward c m x p)) m"
proof -
  have "map (\<lambda>l. l\<lparr>kv_cache := None\<rparr>) (snd (forward_pure c m x p)) = map (\<lambda>l. l\<lparr>kv_cache := None\<rparr>) (model_layers m)"
    by (auto simp: forward_pure_def split: sum.split prod.split dest: run_layers_weights)
  with forward_forward_pure [OF assms, of x p] assms masks_ok_clear [of c m] show ?thesis
    by (simp add: same_weights_def same_model_def) (simp add: clear_kv_cache_def)
qed

lemma same_weights_trans: "same_weights c m m' \<Longrightarrow> same_weights c m' m'' \<Longrightarrow> same_weights c m m''"
  by (simp add: same_weights_def same_model_def)

lemma same_weights_refl: "masks_ok c m \<Longrightarrow> same_weights c m m"
  by (simp add: same_weights_def same_model_def)

lemma same_weights_clear: "same_weights c m m' \<Longrightarrow> same_model c (clear_kv_cache m) (clear_kv_cache m')"
  by (simp add: same_weights_def)

lemma clear_same_weights: "same_weights c m m' \<Longrightarrow> same_weights c (clear_kv_cache m) m'"
proof -
  have "clear_kv_cache (clear_kv_cache m) = clear_kv_cache m" by (simp add: clear_kv_cache_def)
  then show "same_weights c m m' \<Longrightarrow> ?thesis" by (simp add: same_weights_def)
qed

text \<open>The operations of a shard, as the messages it answers.\<close>

datatype shard_op = Prefill u64 nat payload | Decode u64 nat payload nat | Drop u64

fun shard_step ::
    "('t, 'q) candle \<Rightarrow> 't convert \<Rightarrow> ('t, 'q) candle_shard \<Rightarrow> shard_op \<Rightarrow>
       (engine_error + payload) option \<times> ('t, 'q) candle_shard" where
  "shard_step c v s (Prefill i p x) = (case prefill c v s i p x of (r, s') \<Rightarrow> (Some r, s'))"
| "shard_step c v s (Decode i p x elapsed) = (case decode c v elapsed s i p x of (r, s') \<Rightarrow> (Some r, s'))"
| "shard_step c v s (Drop i) = (None, drop_session s i)"

fun after :: "('s \<Rightarrow> 'o \<Rightarrow> 'r \<times> 's) \<Rightarrow> 's \<Rightarrow> 'o list \<Rightarrow> 's" where
  "after step s [] = s"
| "after step s (i # is) = after step (snd (step s i)) is"

lemma run_same_shard:
  assumes "same_shard c s s'"
  shows "fst (run c v s x p) = fst (run c v s' x p)" and "same_shard c (snd (run c v s x p)) (snd (run c v s' x p))"
proof -
  have e: "owns_embedding s = owns_embedding s'" "owns_head s = owns_head s'" "shard_spec_of s = shard_spec_of s'"
    "shard_facts s = shard_facts s'" "active s = active s'" and m: "same_model c (model s) (model s')"
    using assms by (simp_all add: same_shard_def owns_embedding_def owns_head_def)
  define inp where "inp = (case (x, owns_embedding s') of
      (Tokens ids, True) \<Rightarrow> map_err engine (ids_tensor v ids)
    | (Hidden a, False) \<Rightarrow> to_tensor v a
    | (other, _) \<Rightarrow> Inl (WrongPayload (first_layer (shard_spec_of s'), last_layer (shard_spec_of s')) (payload_kind other)))"
  have "fst (run c v s x p) = fst (run c v s' x p) \<and> same_shard c (snd (run c v s x p)) (snd (run c v s' x p))"
  proof (cases inp)
    case (Inl err)
    then show ?thesis using assms unfolding run_def Let_def e inp_def by simp
  next
    case (Inr t)
    obtain r m1 r' m1' where f: "forward c (model s) t p = (r, m1)" "forward c (model s') t p = (r', m1')"
      by (meson surj_pair)
    with forward_same_model [OF m, of t p] have "r = r'" "same_model c m1 m1'" by simp_all
    with Inr f show ?thesis unfolding run_def Let_def e(1,2,3) inp_def by (simp add: same_shard_def e)
  qed
  then show "fst (run c v s x p) = fst (run c v s' x p)" "same_shard c (snd (run c v s x p)) (snd (run c v s' x p))"
    by blast+
qed

lemma run_weights:
  assumes "masks_ok c (model s)"
  shows "same_weights c (model (snd (run c v s x p))) (model s)"
    and "shard_facts (snd (run c v s x p)) = shard_facts s" and "shard_spec_of (snd (run c v s x p)) = shard_spec_of s"
proof -
  have "same_weights c m' (model s)" if "forward c (model s) t p = (r, m')" for t r m'
    using forward_weights [OF assms, of t p] that by simp
  with same_weights_refl [OF assms] show "same_weights c (model (snd (run c v s x p))) (model s)"
    by (simp add: run_def Let_def split: sum.split prod.split)
  show "shard_facts (snd (run c v s x p)) = shard_facts s" "shard_spec_of (snd (run c v s x p)) = shard_spec_of s"
    by (simp_all add: run_def Let_def split: sum.split prod.split)
qed

text \<open>What every operation keeps of a shard: its range, its facts and its weights.\<close>

definition same_origin :: "('t, 'q) candle \<Rightarrow> ('t, 'q) candle_shard \<Rightarrow> ('t, 'q) candle_shard \<Rightarrow> bool" where
  "same_origin c s s' \<longleftrightarrow> shard_facts s = shard_facts s' \<and> shard_spec_of s = shard_spec_of s' \<and>
     same_weights c (model s) (model s')"

lemma same_origin_masks: "same_origin c s s' \<Longrightarrow> masks_ok c (model s)"
  by (simp add: same_origin_def same_weights_def same_model_def)

lemma run_origin:
  assumes "same_origin c s s0"
  shows "same_origin c (snd (run c v s x p)) s0"
proof -
  note w = run_weights [OF same_origin_masks [OF assms], of v x p]
  have "same_weights c (model (snd (run c v s x p))) (model s0)"
    using same_weights_trans [OF w(1)] assms by (simp add: same_origin_def)
  with w(2,3) assms show ?thesis by (simp add: same_origin_def)
qed

lemma decode_origin:
  assumes "same_origin c s s0"
  shows "same_origin c (snd (decode c v t s i p x)) s0"
proof -
  obtain r s' where r: "run c v s x p = (r, s')" by (cases "run c v s x p")
  with run_origin [OF assms, of v x p] have "same_origin c s' s0" by simp
  with assms r show ?thesis by (auto simp: decode_def Let_def same_origin_def split: sum.split)
qed

lemma prefill_origin:
  assumes "same_origin c s s0"
  shows "same_origin c (snd (prefill c v s i p x)) s0"
proof -
  have "same_origin c (s\<lparr>model := clear_kv_cache (model s), active := Some i\<rparr>) s0"
    using assms by (simp add: same_origin_def clear_same_weights)
  with assms show ?thesis by (auto simp: prefill_def Let_def intro: run_origin)
qed

lemma step_origin:
  assumes "same_origin c s s0"
  shows "same_origin c (snd (shard_step c v s x)) s0"
proof (cases x)
  case (Prefill i p y)
  with prefill_origin [OF assms, of v i p y] show ?thesis by (simp add: prod.case_eq_if)
next
  case (Decode i p y t)
  with decode_origin [OF assms, of v t i p y] show ?thesis by (simp add: prod.case_eq_if)
next
  case (Drop i)
  with assms show ?thesis by (simp add: drop_session_def same_origin_def clear_same_weights)
qed

lemma after_origin: "same_origin c s s0 \<Longrightarrow> same_origin c (after (shard_step c v) s ops) s0"
  by (induction ops arbitrary: s) (simp_all add: step_origin)

lemma same_shard_clear:
  "same_shard c s s' \<Longrightarrow> same_shard c (s\<lparr>model := clear_kv_cache (model s), active := a\<rparr>) (s'\<lparr>model := clear_kv_cache (model s'), active := a\<rparr>)"
  by (simp add: same_shard_def same_model_def) (simp add: clear_kv_cache_def)

lemma step_same_shard:
  assumes "same_shard c s s'"
  shows "fst (shard_step c v s x) = fst (shard_step c v s' x) \<and> same_shard c (snd (shard_step c v s x)) (snd (shard_step c v s' x))"
proof (cases x)
  case (Prefill i p y)
  have a: "active s = active s'" using assms by (simp add: same_shard_def)
  note cl = same_shard_clear [OF assms, of "Some i"]
  from run_same_shard [OF assms, of v y p] run_same_shard [OF cl, of v y p] a show ?thesis
    by (auto simp: Prefill prefill_def Let_def split: prod.split)
next
  case (Decode i p y t)
  have a: "active s = active s'" using assms by (simp add: same_shard_def)
  obtain r s1 r' s1' where r: "run c v s y p = (r, s1)" "run c v s' y p = (r', s1')" by (meson surj_pair)
  with run_same_shard [OF assms, of v y p] have eq: "r = r'" and same: "same_shard c s1 s1'" by simp_all
  show ?thesis
  proof (cases "active s = Some i")
    case True
    with a r eq same show ?thesis by (cases r') (simp_all add: Decode decode_def Let_def same_shard_def)
  next
    case False
    with a assms show ?thesis by (simp add: Decode decode_def)
  qed
next
  case (Drop i)
  with assms same_shard_clear [OF assms, of None] show ?thesis
    by (auto simp: drop_session_def same_shard_def)
qed

lemma replies_same_shard:
  "same_shard c s s' \<Longrightarrow> replies (shard_step c v) s ops = replies (shard_step c v) s' ops"
proof (induction ops arbitrary: s s')
  case (Cons x ops)
  from step_same_shard [OF Cons.prems, of v x] Cons.IH show ?case by (simp add: prod.case_eq_if)
qed simp

lemma prefill_resets:
  assumes "same_origin c s s'" and "p = 0"
  shows "fst (prefill c v s i p x) = fst (prefill c v s' i p x) \<and>
    same_shard c (snd (prefill c v s i p x)) (snd (prefill c v s' i p x))"
proof -
  have "same_shard c (s\<lparr>model := clear_kv_cache (model s), active := Some i\<rparr>) (s'\<lparr>model := clear_kv_cache (model s'), active := Some i\<rparr>)"
    using assms(1) by (simp add: same_origin_def same_shard_def same_weights_clear)
  from run_same_shard [OF this] assms(2) show ?thesis by (simp add: prefill_def)
qed

lemma candle_open_Inr:
  assumes "candle_open c g path opened parsed spec = Inr s"
  shows "masks_ok c (model s)" and "active s = None" and "decodes s = 0" and "shard_spec_of s = spec"
    and "first_layer spec \<le> last_layer spec" and "last_layer spec \<le> layers (shard_facts s)"
  using assms by (auto simp: candle_open_def rbind_eq_Inr map_err_eq_Inr from_gguf_def masks_ok_def split: if_splits)

section \<open>The wire\<close>

lemma chunks_exact_concat:
  "0 < k \<Longrightarrow> \<forall>x \<in> set xs. length x = k \<Longrightarrow> chunks_exact k (concat xs) = xs"
proof (induction xs)
  case Nil
  then show ?case by (simp add: chunks_exact.simps [of k "[]"])
next
  case (Cons x xs)
  then show ?case by (simp add: chunks_exact.simps [of k "x @ concat xs"])
qed

lemma chunks_le:
  "map le_word (chunks_exact 4 (concat (map (le_bytes 4) xs))) = (xs :: f32 list)"
  "map f (map le_word (chunks_exact 2 (concat (map (le_bytes 2) ys)))) = map f (ys :: u16 list)"
  by (simp_all add: chunks_exact_concat comp_def le_word_le_bytes)

lemma from_tensor_to_tensor:
  assumes "from_tensor c v x d = Inr a" and "t_dims3 c x = Inr (1, n, h)" and "n \<le> u32_max" and "h \<le> u32_max"
  shows "\<exists>flat. tensor_flat v x = Inr flat \<and> n_tokens a = of_nat n \<and> activation.hidden_dim a = of_nat h \<and>
    (case d of
       F32 \<Rightarrow> \<exists>xs. tensor_f32s v flat = Inr xs \<and> to_tensor v a = map_err engine (f32s_tensor v xs (1, n, h))
     | F16 \<Rightarrow> \<exists>xs. tensor_f16s v flat = Inr xs \<and>
                to_tensor v a = map_err engine (f32s_tensor v (map (f16_to_f32 v) xs) (1, n, h)))"
proof -
  have nh: "unat (of_nat n :: u32) = n" "unat (of_nat h :: u32) = h"
    using assms(3,4) by (simp_all only: unat_of_nat_u32)
  have m2: "map (\<lambda>ch. f16_to_f32 v (le_word ch)) chs = map (f16_to_f32 v) (map le_word chs)" for chs by simp
  show ?thesis
  proof (cases d)
    case F16
    with assms(1,2) obtain flat xs where "tensor_flat v x = Inr flat" "tensor_f16s v flat = Inr xs"
      and a: "activation_new (of_nat n) (of_nat h) F16 (concat (map (le_bytes 2) xs)) = Inr a"
      by (auto simp: from_tensor_def rbind_eq_Inr map_err_eq_Inr)
    with F16 activation_new_Inr [OF a] nh show ?thesis by (simp add: to_tensor_def m2 chunks_le del: map_map)
  next
    case F32
    with assms(1,2) obtain flat xs where "tensor_flat v x = Inr flat" "tensor_f32s v flat = Inr xs"
      and a: "activation_new (of_nat n) (of_nat h) F32 (concat (map (le_bytes 4) xs)) = Inr a"
      by (auto simp: from_tensor_def rbind_eq_Inr map_err_eq_Inr)
    with F32 activation_new_Inr [OF a] nh show ?thesis by (simp add: to_tensor_def chunks_le)
  qed
qed

section \<open>What a shard weighs\<close>

lemma in_range_block:
  assumes "i \<le> u32_max"
  shows "in_range (''blk.'' @ show_nat i @ CHR ''.'' # rest) lo hi \<longleftrightarrow> lo \<le> i \<and> i < hi"
proof -
  have "CHR ''.'' \<notin> set (show_nat i)"
    using show_nat_digits [of i] by (auto simp: list_all_iff is_digit_def)
  then have "split_first CHR ''.'' (show_nat i @ CHR ''.'' # rest) = show_nat i" by simp
  then show ?thesis using strip_prefix_append [of "''blk.''"] parse_show_nat [OF assms]
    by (simp add: in_range_def del: append_Cons append.simps)
qed

lemma in_range_split: "lo \<le> mid \<Longrightarrow> mid \<le> hi \<Longrightarrow> in_range name lo hi \<longleftrightarrow> in_range name lo mid \<or> in_range name mid hi"
  and in_range_disjoint: "\<not> (in_range name lo mid \<and> in_range name mid hi)"
  by (auto simp: in_range_def split: option.split)

lemma sum_filter_split:
  fixes f :: "'a \<Rightarrow> 'b::comm_monoid_add"
  assumes "\<And>x. P x \<longleftrightarrow> Q x \<or> R x" and "\<And>x. \<not> (Q x \<and> R x)"
  shows "sum_list (map f (filter P xs)) = sum_list (map f (filter Q xs)) + sum_list (map f (filter R xs))"
  using assms by (induction xs) (auto simp: ac_simps)

section \<open>Properties\<close>

text \<open>C9: Sessions are isolated. Whatever a shard was asked before, once a session starts at position
  zero every later answer is the one a freshly opened shard would give: no keys or values of an
  earlier session are seen.\<close>

theorem session_isolation:
  assumes "candle_open c g path opened parsed spec = Inr s0"
  shows "replies (shard_step c v) (after (shard_step c v) s0 history) (Prefill i 0 x # ops) =
    replies (shard_step c v) s0 (Prefill i 0 x # ops)"
proof -
  have "same_origin c s0 s0"
    using candle_open_Inr(1) [OF assms] by (simp add: same_origin_def same_weights_refl)
  then have "same_origin c (after (shard_step c v) s0 history) s0" by (rule after_origin)
  from prefill_resets [OF this refl, of v i x] show ?thesis
    by (simp add: prod.case_eq_if replies_same_shard)
qed

text \<open>One cache holds one session. After a prefill for one session a decode for another is refused
  and leaves the shard as it was, and after a session is dropped it cannot be decoded.\<close>

theorem one_session:
  "i \<noteq> j \<Longrightarrow>
     fst (decode c v t (snd (prefill c v s i p x)) j q y) = Inl (UnknownSession j) \<and>
     snd (decode c v t (snd (prefill c v s i p x)) j q y) = snd (prefill c v s i p x) \<and>
     decode c v t (drop_session s i) i q y = (Inl (UnknownSession i), drop_session s i)"
  using candle.prefill_takes_over candle.decode_after_drop
  by (simp add: candle.decode_unknown candle.prefill_active)

text \<open>An activation survives the wire. What the receiving shard builds from the message is, for the
  32-bit format, the tensor of exactly the numbers the sender held, and for the 16-bit format the
  tensor of their 16-bit roundings, in the same shape.\<close>

theorem activation_round_trip:
  assumes "from_tensor c v x d = Inr a" and "t_dims3 c x = Inr (1, n, h)" and "n \<le> u32_max" and "h \<le> u32_max"
  shows "\<exists>flat. tensor_flat v x = Inr flat \<and> n_tokens a = of_nat n \<and> activation.hidden_dim a = of_nat h \<and>
    (case d of
       F32 \<Rightarrow> \<exists>xs. tensor_f32s v flat = Inr xs \<and> to_tensor v a = map_err engine (f32s_tensor v xs (1, n, h))
     | F16 \<Rightarrow> \<exists>xs. tensor_f16s v flat = Inr xs \<and>
                to_tensor v a = map_err engine (f32s_tensor v (map (f16_to_f32 v) xs) (1, n, h)))"
  by (rule from_tensor_to_tensor [OF assms])

text \<open>The memory estimate is additive: cutting a range strictly inside the model divides the bytes of
  the whole into the bytes of the two parts, with no tensor counted twice or not at all.\<close>

theorem weight_bytes_additive:
  assumes "0 < mid" and "mid < n" and "lo \<le> mid" and "mid \<le> hi"
  shows "shard_weight_bytes content (spec\<lparr>first_layer := lo, last_layer := mid\<rparr>) n +
      shard_weight_bytes content (spec\<lparr>first_layer := mid, last_layer := hi\<rparr>) n =
    shard_weight_bytes content (spec\<lparr>first_layer := lo, last_layer := hi\<rparr>) n"
proof -
  let ?names = "map fst (tensor_infos content)"
  have "sum_list (map (quantized content) (filter (\<lambda>name. in_range name lo hi) ?names)) =
      sum_list (map (quantized content) (filter (\<lambda>name. in_range name lo mid) ?names)) +
      sum_list (map (quantized content) (filter (\<lambda>name. in_range name mid hi) ?names))"
    using in_range_split [OF assms(3,4)] in_range_disjoint by (intro sum_filter_split)
  with assms(1,2) show ?thesis by (simp add: shard_weight_bytes_def Let_def ac_simps)
qed

text \<open>A layer tensor belongs to exactly the ranges that hold its layer, for every index the format
  can carry; names outside the blocks belong to none.\<close>

theorem in_range_exact:
  "(i \<le> u32_max \<longrightarrow> in_range (''blk.'' @ show_nat i @ CHR ''.'' # rest) lo hi = (lo \<le> i \<and> i < hi)) \<and>
   (\<not> starts_with ''blk.'' name \<longrightarrow> \<not> in_range name lo hi)"
  using in_range_block by (auto simp: in_range_def starts_with_def strip_prefix_def)

section \<open>An example\<close>

definition example_convert :: "int list convert" where
  "example_convert = \<lparr>ids_tensor = \<lambda>ids. Inr (map uint ids), f32s_tensor = \<lambda>xs _. Inr (map sint xs), tensor_flat = Inr,
     tensor_f32s = \<lambda>x. Inr (map of_int x), tensor_f16s = \<lambda>x. Inr (map of_int x), tensor_logits = \<lambda>x. Inr (map of_int x),
     f16_to_f32 = \<lambda>w. ucast w\<rparr>"

definition example_content :: gguf_content where
  "example_content = \<lparr>gguf_metadata = map_of [(''general.architecture'', VString ''llama''),
       (''llama.attention.head_count'', VU32 1), (''llama.attention.head_count_kv'', VU32 1),
       (''llama.block_count'', VU32 2), (''llama.embedding_length'', VU32 1), (''llama.context_length'', VU32 8),
       (''llama.rope.dimension_count'', VU32 2), (''llama.attention.layer_norm_rms_epsilon'', VU32 1)],
     tensor_infos = [(''blk.0.attn_q.weight'', \<lparr>dims = [32], block_size = 32, type_size = 34\<rparr>),
       (''blk.1.attn_q.weight'', \<lparr>dims = [64], block_size = 32, type_size = 34\<rparr>),
       (''token_embd.weight'', \<lparr>dims = [4], block_size = 1, type_size = 2\<rparr>)]\<rparr>"

definition example_spec :: shard_spec where
  "example_spec = \<lparr>model_hash = ''m'', first_layer = 0, last_layer = 1, max_context = 8, spec_kv_dtype = KvF16,
     spec_wire_dtype = F32\<rparr>"

definition example_shard :: "(int list, int) candle_shard" where
  "example_shard = \<lparr>model = \<lparr>tok_embeddings = Some 2, model_layers = [example_layer], model_head = None, masks = Map.empty\<rparr>,
     shard_facts = \<lparr>arch = ''llama'', layers = 2, hidden_dim = 1, heads = 1, kv_heads = 1, train_context = 8\<rparr>,
     shard_spec_of = example_spec, weight_bytes = 0, active = None, decodes = 0, decode_time = 0\<rparr>"

theorem one_session_witness:
  "fst (decode example_candle example_convert 5 (snd (prefill example_candle example_convert example_shard 1 0 (Tokens [3])))
     2 1 (Tokens [4])) = Inl (UnknownSession 2)"
proof -
  have "(1 :: u64) \<noteq> 2" by simp
  from one_session [OF this] show ?thesis by blast
qed

definition example_source' :: "(int list, int) gguf_source" where
  "example_source' = example_source\<lparr>source_metadata := gguf_metadata example_content\<rparr>"

lemma example_shape': "read_shape example_candle example_source' = Inr (example_layer_shape, 2)"
proof -
  have "[0..<2] = [0, 1 :: nat]" by (simp add: upt_rec)
  then show ?thesis
    by (simp add: read_shape_def md_u32_def md_f32_def md_get_def unwrap_or_def precomput_freqs_cis_def neox_archs_def
        example_candle_def example_source_def example_source'_def example_content_def example_layer_shape_def Let_def)
qed

lemma example_load_layer': "load_layer example_candle example_source' example_layer_shape i = Inr example_layer"
  by (simp add: load_layer_def load_mlp_or_moe_def load_mlp_def example_candle_def example_source_def example_source'_def
      example_layer_shape_def example_layer_def Let_def)

lemma example_open:
  "\<exists>s. candle_open example_candle example_source ''model.gguf'' (Inr ()) (Inr example_content) example_spec = Inr s"
proof -
  have "read_facts (gguf_metadata example_content) =
      Inr \<lparr>arch = ''llama'', layers = 2, hidden_dim = 1, heads = 1, kv_heads = 1, train_context = 8\<rparr>"
    by (simp add: example_content_def read_facts_def string_at_def u32_at_def Let_def)
  moreover have "\<exists>m. from_gguf example_candle example_source' 0 1 = Inr m"
    by (simp add: from_gguf_def example_shape' load_layers_def example_load_layer' load_head_def load_embedding_def example_loads)
      (simp add: example_source'_def example_loads)
  ultimately show ?thesis
    by (auto simp: candle_open_def example_spec_def example_source'_def)
qed

theorem session_isolation_witness:
  "\<exists>s. candle_open example_candle example_source ''model.gguf'' (Inr ()) (Inr example_content) example_spec = Inr s \<and>
     replies (shard_step example_candle example_convert) (after (shard_step example_candle example_convert) s [Prefill 1 0 (Tokens [3, 4])])
       [Prefill 2 0 (Tokens [5])] =
     replies (shard_step example_candle example_convert) s [Prefill 2 0 (Tokens [5])]"
proof -
  from example_open obtain s where
    s: "candle_open example_candle example_source ''model.gguf'' (Inr ()) (Inr example_content) example_spec = Inr s" by blast
  show ?thesis using s session_isolation [OF s, of example_convert "[Prefill 1 0 (Tokens [3, 4])]" 2 "Tokens [5]" "[]"] by blast
qed

theorem activation_round_trip_witness:
  "\<exists>a. from_tensor example_candle example_convert [7, 9] F32 = Inr a \<and> n_tokens a = 2 \<and> to_tensor example_convert a = Inr [7, 9]"
proof -
  let ?a = "\<lparr>n_tokens = 2, hidden_dim = 1, dtype = F32, payload_data = le_bytes 4 (7 :: f32) @ le_bytes 4 (9 :: f32)\<rparr>"
  have a: "from_tensor example_candle example_convert [7, 9] F32 = Inr ?a"
    by (simp add: from_tensor_def example_candle_def example_convert_def activation_new_def wanted_bytes_def)
  have d: "t_dims3 example_candle [7, 9] = Inr (1, 2, 1)" by (simp add: example_candle_def)
  from activation_round_trip [OF a d] have "to_tensor example_convert ?a = Inr [7, 9]"
    by (simp add: example_convert_def)
  with a show ?thesis by (intro exI [of _ ?a]) simp
qed

theorem weight_bytes_additive_witness:
  "shard_weight_bytes example_content (example_spec\<lparr>first_layer := 0, last_layer := 1\<rparr>) 2 +
   shard_weight_bytes example_content (example_spec\<lparr>first_layer := 1, last_layer := 2\<rparr>) 2 =
   shard_weight_bytes example_content (example_spec\<lparr>first_layer := 0, last_layer := 2\<rparr>) 2"
  using weight_bytes_additive [of 1 2 0 2 example_content example_spec] by simp

theorem in_range_exact_witness:
  "in_range (''blk.'' @ show_nat 11 @ CHR ''.'' # ''attn_q.weight'') 11 22"
  using in_range_exact [of 11 "''attn_q.weight''" 11 22 "[]"] by simp

end
