(* ===== verification/Transport.thy ===== *)
theory Transport
  imports Stream_Header Trust
begin

text \<open>
  \<open>crates/lattice-net/src/tls.rs\<close> and \<open>transport.rs\<close>: who a connection is with, and how its
  streams open. Certificates are byte strings; reading them (\<open>x509-parser\<close>) and hashing are
  arguments, and \<open>quinn\<close> contributes the connections and streams it hands out, each of which can
  fail. The wire between the two ends is given by the bytes each end has still to read. The
  properties show that a connection exists only with a device whose key the policy accepts, that two
  honest ends complete the handshake, and that the channel binding separates connections.
\<close>

section \<open>Certificates\<close>

text \<open>What the parser hands over of a certificate: whether the key is Ed25519, and its bytes.\<close>

record certificate_reader =
  parse_x509 :: "bytes \<Rightarrow> string + bool \<times> bytes"
  key_from_bytes :: "bytes \<Rightarrow> string + bytes"

definition peer_key_of :: "certificate_reader \<Rightarrow> bytes \<Rightarrow> net_error + bytes" where
  "peer_key_of x cert =
     rbind (map_err Certificate (parse_x509 x cert)) (\<lambda>(ed25519, bs).
       if \<not> ed25519 then Inl (Certificate ''peer key is not Ed25519'')
       else if length bs \<noteq> 32 then Inl (Certificate ''Ed25519 key is not 32 bytes'')
       else map_err Certificate (key_from_bytes x bs))"

definition CHANNEL_BINDING_CONTEXT :: bytes where
  "CHANNEL_BINDING_CONTEXT = map (\<lambda>c. of_char c) ''lattice-channel-binding-v1''"

definition channel_binding_of :: "(bytes \<Rightarrow> bytes) \<Rightarrow> bytes \<Rightarrow> bytes \<Rightarrow> bytes" where
  "channel_binding_of sha256 local_cert peer_cert =
     (let a = sha256 local_cert; b = sha256 peer_cert;
          (first, second) = (if a \<le> b then (a, b) else (b, a))
      in sha256 (CHANNEL_BINDING_CONTEXT @ first @ second))"

lemma channel_binding_comm: "channel_binding_of sha a b = channel_binding_of sha b a"
  by (auto simp: channel_binding_of_def Let_def)

text \<open>
  Without a collision among the strings that are hashed, equal bindings mean equal pairs of
  certificates, so a relay that shows its own certificate to both sides is noticed.
\<close>

definition binding_input :: "(bytes \<Rightarrow> bytes) \<Rightarrow> bytes \<Rightarrow> bytes \<Rightarrow> bytes" where
  "binding_input sha a b =
     CHANNEL_BINDING_CONTEXT @ (if sha a \<le> sha b then sha a @ sha b else sha b @ sha a)"

lemma channel_binding_input: "channel_binding_of sha a b = sha (binding_input sha a b)"
  by (simp add: channel_binding_of_def binding_input_def Let_def)

lemma channel_binding_separates:
  assumes len: "\<And>x. length (sha x) = 32"
    and inj: "inj_on sha {a, b, c, d, binding_input sha a b, binding_input sha c d}"
    and eq: "channel_binding_of sha a b = channel_binding_of sha c d"
  shows "{a, b} = {c, d}"
proof -
  have inp: "binding_input sha a b = binding_input sha c d"
    using inj_onD [OF inj eq [unfolded channel_binding_input]] by simp
  have pairs: "(sha a = sha c \<and> sha b = sha d) \<or> (sha a = sha d \<and> sha b = sha c)"
    using inp by (auto simp: binding_input_def len append_eq_append_conv split: if_splits)
  have "sha x = sha y \<Longrightarrow> x \<in> {a, b} \<Longrightarrow> y \<in> {c, d} \<Longrightarrow> x = y" for x y
    by (rule inj_onD [OF inj]) auto
  with pairs show ?thesis by blast
qed

section \<open>Connections\<close>

datatype role = Dialer | Listener

record connection =
  peer_key :: bytes
  channel_binding :: bytes
  conn_role :: role

definition peer_id :: "(bytes \<Rightarrow> bytes) \<Rightarrow> connection \<Rightarrow> device_id" where
  "peer_id sha256 c = from_public_key sha256 (peer_key c)"

text \<open>\<open>wrap\<close>: the peer's certificates as the TLS layer reports them, or none.\<close>

definition wrap ::
    "(bytes \<Rightarrow> bytes) \<Rightarrow> certificate_reader \<Rightarrow> bytes \<Rightarrow> bytes list option \<Rightarrow> role \<Rightarrow> net_error + connection" where
  "wrap sha256 x local_cert certs r =
     rbind (ok_or (Certificate ''peer presented no certificate'') certs) (\<lambda>certs.
     rbind (ok_or (Certificate ''peer certificate chain is empty'') (case certs of [] \<Rightarrow> None | c # _ \<Rightarrow> Some c)) (\<lambda>end_entity.
     rbind (peer_key_of x end_entity) (\<lambda>key.
     Inr \<lparr>peer_key = key, channel_binding = channel_binding_of sha256 local_cert end_entity, conn_role = r\<rparr>)))"

section \<open>Streams\<close>

text \<open>What \<open>quinn\<close> returns for a new stream.\<close>

type_synonym channel = "string + tx \<times> rx"

definition open_stream :: "channel \<Rightarrow> stream_header \<Rightarrow> net_error + tx \<times> rx" where
  "open_stream ch h =
     rbind (map_err (\<lambda>e. Stream (''opening a channel: '' @ e)) ch) (\<lambda>(send, recv).
       case write_all (encode_header h) send of
         (Inl e, _) \<Rightarrow> Inl (Stream (''writing a stream header: '' @ e))
       | (Inr _, send) \<Rightarrow> Inr (send, recv))"

definition accept_stream :: "channel \<Rightarrow> net_error + stream_header \<times> tx \<times> rx" where
  "accept_stream ch =
     rbind (map_err (\<lambda>e. Stream (''accepting a channel: '' @ e)) ch) (\<lambda>(send, recv).
     rbind (map_err (\<lambda>e. Stream (''reading a stream header: '' @ e)) (read_exact HEADER_LEN recv)) (\<lambda>(bs, recv).
     rbind (decode_header bs) (\<lambda>h. Inr (h, send, recv))))"

fun kind_name :: "stream_kind \<Rightarrow> string" where
  "kind_name Control = ''Control''"
| "kind_name Activation = ''Activation''"
| "kind_name Bulk = ''Bulk''"
| "kind_name ProbeKind = ''Probe''"
| "kind_name InferenceRpc = ''InferenceRpc''"

definition control_stream :: "role \<Rightarrow> channel \<Rightarrow> net_error + tx \<times> rx" where
  "control_stream r ch =
     (case r of
        Dialer \<Rightarrow> open_stream ch control_header
      | Listener \<Rightarrow>
          rbind (accept_stream ch) (\<lambda>(h, send, recv).
            if kind h \<noteq> Control
            then Inl (StreamHeaderError (''expected a control stream, got '' @ kind_name (kind h)))
            else Inr (send, recv)))"

definition HELLO :: bytes where "HELLO = map (\<lambda>c. of_char c) ''LTC1''"

text \<open>The confirmation; the sending half is returned to show what the peer will read.\<close>

definition confirm :: "role \<Rightarrow> channel \<Rightarrow> (net_error + unit) \<times> bytes" where
  "confirm r ch =
     (case control_stream r ch of
        Inl e \<Rightarrow> (Inl e, [])
      | Inr (send, recv) \<Rightarrow>
          (case write_all HELLO send of
             (Inl _, send) \<Rightarrow> (Inl Rejected, sent send)
           | (Inr _, send) \<Rightarrow>
               (case read_exact (length HELLO) recv of
                  Inl _ \<Rightarrow> (Inl Rejected, sent send)
                | Inr (greeting, _) \<Rightarrow> (if greeting \<noteq> HELLO then Inl Rejected else Inr (), sent send))))"

text \<open>
  \<open>connect\<close>: the dial, the peer's certificates once the handshake has finished, the confirmation,
  all within the time limit (\<open>in_time\<close>).
\<close>

definition connect ::
    "(bytes \<Rightarrow> bytes) \<Rightarrow> certificate_reader \<Rightarrow> bytes \<Rightarrow> string \<Rightarrow> net_error + unit \<Rightarrow> net_error + bytes list option \<Rightarrow>
       channel \<Rightarrow> bool \<Rightarrow> net_error + connection" where
  "connect sha256 x local_cert addr dial handshake ch in_time =
     rbind dial (\<lambda>_.
       if \<not> in_time then Inl (Stream (addr @ '' did not answer within 5s''))
       else rbind handshake (\<lambda>certs.
            rbind (wrap sha256 x local_cert certs Dialer) (\<lambda>c.
            rbind (fst (confirm Dialer ch)) (\<lambda>_. Inr c))))"

definition accept ::
    "(bytes \<Rightarrow> bytes) \<Rightarrow> certificate_reader \<Rightarrow> bytes \<Rightarrow> net_error + bytes list option \<Rightarrow> channel \<Rightarrow> net_error + connection" where
  "accept sha256 x local_cert handshake ch =
     rbind handshake (\<lambda>certs.
     rbind (wrap sha256 x local_cert certs Listener) (\<lambda>c.
     rbind (fst (confirm Listener ch)) (\<lambda>_. Inr c)))"

section \<open>The verifier\<close>

datatype tls_error = BadEncoding | ApplicationVerificationFailure | Tls12NotOffered | BadSignature

text \<open>The policy of the pairing endpoint.\<close>

definition accept_any_peer :: "bytes \<Rightarrow> bool" where
  "accept_any_peer key = True"

definition verifier_check :: "certificate_reader \<Rightarrow> (bytes \<Rightarrow> bool) \<Rightarrow> bytes \<Rightarrow> tls_error + unit" where
  "verifier_check x policy cert =
     rbind (map_err (\<lambda>_. BadEncoding) (peer_key_of x cert)) (\<lambda>key.
       if \<not> policy key then Inl ApplicationVerificationFailure else Inr ())"

definition verify_server_cert :: "certificate_reader \<Rightarrow> (bytes \<Rightarrow> bool) \<Rightarrow> bytes \<Rightarrow> tls_error + unit" where
  "verify_server_cert x policy end_entity = rbind (verifier_check x policy end_entity) (\<lambda>_. Inr ())"

definition verify_client_cert :: "certificate_reader \<Rightarrow> (bytes \<Rightarrow> bool) \<Rightarrow> bytes \<Rightarrow> tls_error + unit" where
  "verify_client_cert x policy end_entity = rbind (verifier_check x policy end_entity) (\<lambda>_. Inr ())"

definition verify_tls12_signature :: "bytes \<Rightarrow> bytes \<Rightarrow> bytes \<Rightarrow> tls_error + unit" where
  "verify_tls12_signature message cert dss = Inl Tls12NotOffered"

text \<open>The signature of a handshake is checked by the cryptography provider with the algorithms it has.\<close>

record provider =
  algorithms :: "nat list"
  check_signature :: "nat list \<Rightarrow> bytes \<Rightarrow> bytes \<Rightarrow> bytes \<Rightarrow> tls_error + unit"

definition verify_signature :: "provider \<Rightarrow> bytes \<Rightarrow> bytes \<Rightarrow> bytes \<Rightarrow> tls_error + unit" where
  "verify_signature pr message cert dss = check_signature pr (algorithms pr) message cert dss"

definition verify_tls13_signature :: "provider \<Rightarrow> bytes \<Rightarrow> bytes \<Rightarrow> bytes \<Rightarrow> tls_error + unit" where
  "verify_tls13_signature pr message cert dss = verify_signature pr message cert dss"

text \<open>
  What is relied on of the TLS layer: it reports a peer's certificates only after the verifier has
  accepted the first of them.
\<close>

definition tls_law :: "certificate_reader \<Rightarrow> (bytes \<Rightarrow> bool) \<Rightarrow> net_error + bytes list option \<Rightarrow> bool" where
  "tls_law x policy handshake \<longleftrightarrow>
     (case handshake of
        Inr (Some (c # _)) \<Rightarrow> verify_server_cert x policy c = Inr () \<and> verify_client_cert x policy c = Inr ()
      | _ \<Rightarrow> True)"

section \<open>Opening and accepting agree\<close>

lemma accept_opened:
  assumes "open_stream (Inr (send, recv)) h = Inr (send', recv')" and "sent send = []"
    and "pending recv2 = sent send' @ rest"
  shows "accept_stream (Inr (send2, recv2)) = Inr (h, send2, recv2\<lparr>pending := rest\<rparr>)"
proof -
  from assms(1) have "write_all (encode_header h) send = (Inr (), send')"
    by (auto simp: open_stream_def rbind_eq_Inr split: prod.splits sum.splits)
  from write_all_ok [OF this] assms(2,3) have "pending recv2 = encode_header h @ rest" by simp
  then have "read_exact HEADER_LEN recv2 = Inr (encode_header h, recv2\<lparr>pending := rest\<rparr>)" by simp
  then show ?thesis by (simp add: accept_stream_def decode_encode_header)
qed

lemma length_HELLO [simp]: "length HELLO = 4"
  by (simp add: HELLO_def)

lemma write_unlimited: "limit s = None \<Longrightarrow> \<not> finished s \<Longrightarrow> write_all bs s = (Inr (), s\<lparr>sent := sent s @ bs\<rparr>)"
  by (simp add: write_all_def accepts_def)

lemma read_HELLO:
  "(case read_exact 4 r of Inl _ \<Rightarrow> (Inl Rejected, b)
    | Inr (greeting, _) \<Rightarrow> (if greeting \<noteq> HELLO then Inl Rejected else Inr (), b)) =
   ((if take 4 (pending r) = HELLO then Inr () else Inl Rejected) :: net_error + unit, b)"
proof (cases "4 \<le> length (pending r)")
  case False
  then have "length (take 4 (pending r)) \<noteq> length HELLO" by simp
  then have "take 4 (pending r) \<noteq> HELLO" by metis
  with False show ?thesis by (simp add: read_exact_def)
qed (simp add: read_exact_def)

lemma confirm_dialer:
  assumes "limit s = None" and "\<not> finished s" and "sent s = []"
  shows "confirm Dialer (Inr (s, r)) =
    (if take 4 (pending r) = HELLO then Inr () else Inl Rejected, encode_header control_header @ HELLO)"
proof -
  have "control_stream Dialer (Inr (s, r)) = Inr (s\<lparr>sent := encode_header control_header\<rparr>, r)"
    using assms by (simp add: control_stream_def open_stream_def write_unlimited)
  moreover have "write_all HELLO (s\<lparr>sent := encode_header control_header\<rparr>) =
      (Inr (), s\<lparr>sent := encode_header control_header @ HELLO\<rparr>)"
    using assms by (simp add: write_unlimited)
  ultimately show ?thesis by (simp add: confirm_def read_HELLO)
qed

lemma confirm_listener:
  assumes "limit s = None" and "\<not> finished s" and "sent s = []"
  shows "fst (confirm Listener (Inr (s, r))) = Inr () \<longleftrightarrow>
    (\<exists>h rest. pending r = encode_header h @ HELLO @ rest \<and> kind h = Control)"
    and "fst (confirm Listener (Inr (s, r))) = Inr () \<Longrightarrow> snd (confirm Listener (Inr (s, r))) = HELLO"
proof -
  have w: "write_all HELLO s = (Inr (), s\<lparr>sent := HELLO\<rparr>)" using assms by (simp add: write_unlimited)
  have ok: "confirm Listener (Inr (s, r)) = (if take 4 rest = HELLO then Inr () else Inl Rejected, HELLO)"
    if "pending r = encode_header h @ rest" "kind h = Control" for h rest
  proof -
    have "read_exact HEADER_LEN r = Inr (encode_header h, r\<lparr>pending := rest\<rparr>)" using that(1) by simp
    then have "control_stream Listener (Inr (s, r)) = Inr (s, r\<lparr>pending := rest\<rparr>)"
      using that(2) by (simp add: control_stream_def accept_stream_def decode_encode_header)
    with w show ?thesis by (simp add: confirm_def read_HELLO)
  qed
  have no: "\<exists>h rest. pending r = encode_header h @ rest \<and> kind h = Control"
    if "fst (confirm Listener (Inr (s, r))) = Inr ()"
  proof -
    have "\<exists>x. control_stream Listener (Inr (s, r)) = Inr x"
      using that by (cases "control_stream Listener (Inr (s, r))") (auto simp: confirm_def)
    then obtain bs h r' where rd: "read_exact HEADER_LEN r = Inr (bs, r')" "decode_header bs = Inr h" "kind h = Control"
      by (auto simp: control_stream_def accept_stream_def rbind_eq_Inr map_err_eq_Inr split: if_splits)
    from rd(1) have "length bs = HEADER_LEN" "pending r = bs @ pending r'" by (simp_all add: read_exact_Inr)
    with decode_header_Inr rd show ?thesis by blast
  qed
  show "fst (confirm Listener (Inr (s, r))) = Inr () \<longleftrightarrow>
    (\<exists>h rest. pending r = encode_header h @ HELLO @ rest \<and> kind h = Control)"
  proof
    assume a: "fst (confirm Listener (Inr (s, r))) = Inr ()"
    from no [OF a] obtain h rest where h: "pending r = encode_header h @ rest" "kind h = Control" by blast
    with ok a have "take 4 rest = HELLO" by (auto split: if_splits)
    then have "rest = HELLO @ drop 4 rest" by (metis append_take_drop_id)
    with h show "\<exists>h rest. pending r = encode_header h @ HELLO @ rest \<and> kind h = Control" by metis
  next
    assume "\<exists>h rest. pending r = encode_header h @ HELLO @ rest \<and> kind h = Control"
    then show "fst (confirm Listener (Inr (s, r))) = Inr ()" by (auto simp: ok)
  qed
  show "snd (confirm Listener (Inr (s, r))) = HELLO" if a: "fst (confirm Listener (Inr (s, r))) = Inr ()"
    using no [OF a] ok by fastforce
qed

lemma established:
  assumes "connect sha x lc addr dial handshake ch t = Inr c \<or> accept sha x lc handshake ch = Inr c"
    and "tls_law x policy handshake"
  shows "policy (peer_key c)" and "\<exists>cert. peer_key_of x cert = Inr (peer_key c) \<and>
    channel_binding c = channel_binding_of sha lc cert"
proof -
  from assms(1) obtain certs r where h: "handshake = Inr certs" "wrap sha x lc certs r = Inr c"
    by (auto simp: connect_def accept_def rbind_eq_Inr split: if_splits)
  from h(2) obtain cert rest where w: "certs = Some (cert # rest)" "peer_key_of x cert = Inr (peer_key c)"
    "channel_binding c = channel_binding_of sha lc cert"
    by (cases certs; cases "the certs") (auto simp: wrap_def rbind_eq_Inr ok_or_eq_Inr)
  with assms(2) h(1) show "policy (peer_key c)"
    by (auto simp: tls_law_def verify_client_cert_def verifier_check_def rbind_eq_Inr map_err_eq_Inr split: if_splits)
  from w show "\<exists>cert. peer_key_of x cert = Inr (peer_key c) \<and> channel_binding c = channel_binding_of sha lc cert"
    by blast
qed

section \<open>Properties\<close>

text \<open>C14: A served connection is with a paired device. When the endpoint's policy is the trust store,
  every connection dialled or accepted has a peer whose exact public key is on record under the
  device id the connection reports.\<close>

theorem connection_trusted:
  assumes "connect sha x lc addr dial handshake ch t = Inr c \<or> accept sha x lc handshake ch = Inr c"
    and "tls_law x (trusted_peers_accept sha lock) handshake"
  shows "\<exists>store p. lock = Some store \<and> trust_get store (peer_id sha c) = Some p \<and> public_key p = peer_key c"
proof -
  from established(1) [OF assms] show ?thesis
    by (auto simp: trusted_peers_accept_def is_trusted_def trust_get_def peer_id_def split: option.splits)
qed

text \<open>The opening exchange. On a stream that takes what is written to it, the listener confirms
  exactly when the dialer's bytes start with a control header and the greeting, and the dialer exactly
  when the listener's start with the greeting; two ends that run this code confirm each other.\<close>

theorem confirm_exact:
  assumes "limit s = None \<and> \<not> finished s \<and> sent s = []" and "limit s' = None \<and> \<not> finished s' \<and> sent s' = []"
  shows "(fst (confirm Dialer (Inr (s, r))) = Inr ()) = (take 4 (pending r) = HELLO) \<and>
    (fst (confirm Listener (Inr (s', r'))) = Inr ()) =
      (\<exists>h rest. pending r' = encode_header h @ HELLO @ rest \<and> kind h = Control) \<and>
    (pending r' = snd (confirm Dialer (Inr (s, r))) \<and> pending r = snd (confirm Listener (Inr (s', r'))) \<longrightarrow>
      fst (confirm Dialer (Inr (s, r))) = Inr () \<and> fst (confirm Listener (Inr (s', r'))) = Inr ())"
proof (intro conjI impI)
  have d: "confirm Dialer (Inr (s, r)) =
      (if take 4 (pending r) = HELLO then Inr () else Inl Rejected, encode_header control_header @ HELLO)"
    using confirm_dialer [of s r] assms(1) by simp
  have l: "(fst (confirm Listener (Inr (s', r'))) = Inr ()) =
      (\<exists>h rest. pending r' = encode_header h @ HELLO @ rest \<and> kind h = Control)"
    using confirm_listener(1) [of s' r'] assms(2) by simp
  show "(fst (confirm Dialer (Inr (s, r))) = Inr ()) = (take 4 (pending r) = HELLO)" by (simp add: d)
  show "(fst (confirm Listener (Inr (s', r'))) = Inr ()) =
      (\<exists>h rest. pending r' = encode_header h @ HELLO @ rest \<and> kind h = Control)" by (rule l)
  assume h: "pending r' = snd (confirm Dialer (Inr (s, r))) \<and> pending r = snd (confirm Listener (Inr (s', r')))"
  have c: "kind control_header = Control" by (simp add: control_header_def)
  have "pending r' = encode_header control_header @ HELLO @ []" using h by (simp add: d)
  with c show li: "fst (confirm Listener (Inr (s', r'))) = Inr ()" unfolding l by blast
  have "pending r = HELLO" using h confirm_listener(2) [of s' r'] li assms(2) by simp
  then show "fst (confirm Dialer (Inr (s, r))) = Inr ()" by (simp add: d HELLO_def)
qed

text \<open>The channel binding names the connection. Both ends compute the same value, and as long as
  the hash has no collision among the strings involved, two connections have the same value only when
  they are between the same two certificates, so a relay in the middle is noticed.\<close>

theorem channel_binding_exact:
  assumes "\<And>z. length (sha z) = 32" and "inj_on sha {a, b, c, d, binding_input sha a b, binding_input sha c d}"
  shows "(channel_binding_of sha a b = channel_binding_of sha c d) = ({a, b} = {c, d})"
proof
  assume "{a, b} = {c, d}"
  then have "(a = c \<and> b = d) \<or> (a = d \<and> b = c)" by (auto simp: doubleton_eq_iff)
  then show "channel_binding_of sha a b = channel_binding_of sha c d" using channel_binding_comm by metis
qed (rule channel_binding_separates [OF assms])

section \<open>Examples\<close>

definition example_sha :: "bytes \<Rightarrow> bytes" where
  "example_sha bs = take 32 (bs @ replicate 32 0)"

definition example_reader :: certificate_reader where
  "example_reader = \<lparr>parse_x509 = \<lambda>cert. Inr (True, cert), key_from_bytes = Inr\<rparr>"

definition example_key :: bytes where "example_key = replicate 32 7"

definition fresh_tx :: tx where
  "fresh_tx = \<lparr>sent = [], limit = None, finished = False, tx_fault = []\<rparr>"

definition example_store :: trust_store where
  "example_store = [(from_public_key example_sha example_key, new_peer example_sha 0 example_key ''box'' ''linux'')]"

theorem connection_trusted_witness:
  "\<exists>c. accept example_sha example_reader [1] (Inr (Some [example_key]))
      (Inr (fresh_tx, \<lparr>pending = encode_header control_header @ HELLO, rx_fault = []\<rparr>)) = Inr c \<and>
    peer_key c = example_key \<and> trust_get example_store (peer_id example_sha c) \<noteq> None"
proof -
  let ?ch = "Inr (fresh_tx, \<lparr>pending = encode_header control_header @ HELLO, rx_fault = []\<rparr>) :: channel"
  have key: "peer_key_of example_reader example_key = Inr example_key"
    by (simp add: peer_key_of_def example_reader_def example_key_def)
  have conf: "fst (confirm Listener ?ch) = Inr ()"
  proof -
    have "\<exists>h rest. pending \<lparr>pending = encode_header control_header @ HELLO, rx_fault = []\<rparr> = encode_header h @ HELLO @ rest \<and> kind h = Control"
      by (intro exI [of _ control_header] exI [of _ "[]"]) (simp add: control_header_def)
    then show ?thesis using confirm_listener(1) [of fresh_tx] by (simp add: fresh_tx_def)
  qed
  let ?c = "\<lparr>peer_key = example_key, channel_binding = channel_binding_of example_sha [1] example_key, conn_role = Listener\<rparr>"
  have acc: "accept example_sha example_reader [1] (Inr (Some [example_key])) ?ch = Inr ?c"
    using conf key by (simp add: accept_def wrap_def)
  have "trusted_peers_accept example_sha (Some example_store) example_key"
    by (simp add: trusted_peers_accept_def is_trusted_def example_store_def bt_get_def new_peer_def)
  then have law: "tls_law example_reader (trusted_peers_accept example_sha (Some example_store)) (Inr (Some [example_key]))"
    using key by (simp add: tls_law_def verify_server_cert_def verify_client_cert_def verifier_check_def)
  from connection_trusted [OF disjI2 [OF acc] law] acc show ?thesis by auto
qed

theorem confirm_exact_witness:
  "fst (confirm Dialer (Inr (fresh_tx, \<lparr>pending = HELLO, rx_fault = []\<rparr>))) = Inr ()"
proof -
  have f: "limit fresh_tx = None \<and> \<not> finished fresh_tx \<and> sent fresh_tx = []" by (simp add: fresh_tx_def)
  from confirm_exact [OF f f, of "\<lparr>pending = HELLO, rx_fault = []\<rparr>"] show ?thesis by simp
qed

theorem channel_binding_exact_witness:
  "channel_binding_of example_sha [1] [2] = channel_binding_of example_sha [2] [1]"
proof -
  have len: "length (example_sha z) = 32" for z by (simp add: example_sha_def)
  have swap: "binding_input example_sha [1] [2] = binding_input example_sha [2] [1]"
    by (auto simp: binding_input_def)
  have ctx: "take 1 (example_sha (binding_input example_sha [2] [1])) = [108]"
    by (simp add: example_sha_def binding_input_def CHANNEL_BINDING_CONTEXT_def)
  have one: "take 1 (example_sha [x]) = [x]" for x by (simp add: example_sha_def)
  have "example_sha [1] \<noteq> example_sha [2]" using one [of 1] one [of 2] by force
  moreover have "example_sha (binding_input example_sha [2] [1]) \<noteq> example_sha [1]"
    "example_sha (binding_input example_sha [2] [1]) \<noteq> example_sha [2]"
    using ctx one [of 1] one [of 2] by force+
  ultimately have inj: "inj_on example_sha {[1], [2], [2], [1], binding_input example_sha [1] [2], binding_input example_sha [2] [1]}"
    unfolding swap by (auto simp: inj_on_def)
  from channel_binding_exact [OF len inj] show ?thesis by (simp add: insert_commute)
qed

end
