(* ===== verification/Mesh.thy ===== *)
theory Mesh
  imports Transport
begin

text \<open>
  \<open>crates/lattice-net/src/mesh.rs\<close>: one registered connection for each peer. A connection is given by
  its identity (both ends hold the same one), the peer at its other end and which side dialled;
  \<open>closed\<close> is the set of connections that have a close reason, which grows at any time because
  connections also end by themselves. The steps of a registry are an inductive relation; the
  invariant says that every live connection the registry was ever given is the registered one of
  its peer. \<open>simultaneous_open\<close> shows that two devices that dial each other at the same time
  keep the same connection.
\<close>

section \<open>The code\<close>

record link =
  link_id :: nat
  link_peer :: device_id
  link_role :: role

record mesh =
  local_id :: device_id
  registry :: "device_id \<rightharpoonup> link"
  closed :: "nat set"

definition new_mesh :: "device_id \<Rightarrow> mesh" where
  "new_mesh i = \<lparr>local_id = i, registry = Map.empty, closed = {}\<rparr>"

definition is_live :: "mesh \<Rightarrow> link \<Rightarrow> bool" where
  "is_live m c \<longleftrightarrow> link_id c \<notin> closed m"

definition should_dial :: "mesh \<Rightarrow> device_id \<Rightarrow> bool" where
  "should_dial m peer \<longleftrightarrow> local_id m < peer"

definition mesh_get :: "mesh \<Rightarrow> device_id \<Rightarrow> link option" where
  "mesh_get m peer = (case registry m peer of Some c \<Rightarrow> (if is_live m c then Some c else None) | None \<Rightarrow> None)"

definition connected :: "mesh \<Rightarrow> device_id set" where
  "connected m = {i. case registry m i of Some c \<Rightarrow> is_live m c | None \<Rightarrow> False}"

definition dialer_of :: "mesh \<Rightarrow> link \<Rightarrow> device_id" where
  "dialer_of m c = (case link_role c of Dialer \<Rightarrow> local_id m | Listener \<Rightarrow> link_peer c)"

definition close_link :: "link \<Rightarrow> mesh \<Rightarrow> mesh" where
  "close_link c m = m\<lparr>closed := insert (link_id c) (closed m)\<rparr>"

definition adopt :: "link \<Rightarrow> mesh \<Rightarrow> link \<times> mesh" where
  "adopt c m =
     (let peer = link_peer c;
          register = (\<lambda>m. (c, m\<lparr>registry := (registry m)(peer \<mapsto> c)\<rparr>))
      in case mesh_get m peer of
           None \<Rightarrow> register m
         | Some existing \<Rightarrow>
             if dialer_of m existing \<le> dialer_of m c then (existing, close_link c m)
             else register (close_link existing m))"

definition forget :: "device_id \<Rightarrow> mesh \<Rightarrow> mesh" where
  "forget peer m =
     (case registry m peer of
        None \<Rightarrow> m
      | Some c \<Rightarrow> close_link c (m\<lparr>registry := (registry m)(peer := None)\<rparr>))"

text \<open>The dial of each address in turn; \<open>dial\<close> is what the endpoint returns for it.\<close>

fun try_addrs ::
    "(device_id \<Rightarrow> string) \<Rightarrow> (string \<Rightarrow> net_error + link) \<Rightarrow> device_id \<Rightarrow> string list \<Rightarrow> net_error option \<Rightarrow> mesh \<Rightarrow>
       (net_error + link) \<times> mesh" where
  "try_addrs show_dev dial peer [] failed m =
     (Inl (case failed of Some e \<Rightarrow> e | None \<Rightarrow> Stream (''no address known for '' @ show_dev peer)), m)"
| "try_addrs show_dev dial peer (a # as) failed m =
     (case dial a of
        Inr c \<Rightarrow>
          if link_peer c = peer then (case adopt c m of (c, m) \<Rightarrow> (Inr c, m))
          else try_addrs show_dev dial peer as
                 (Some (Stream (a @ '' answered as '' @ show_dev (link_peer c) @ '', expected '' @ show_dev peer))) m
      | Inl e \<Rightarrow> try_addrs show_dev dial peer as (Some e) m)"

definition mesh_connect ::
    "(device_id \<Rightarrow> string) \<Rightarrow> (string \<Rightarrow> net_error + link) \<Rightarrow> device_id \<Rightarrow> string list \<Rightarrow> mesh \<Rightarrow> (net_error + link) \<times> mesh" where
  "mesh_connect show_dev dial peer addrs m =
     (case mesh_get m peer of
        Some live \<Rightarrow> (Inr live, m)
      | None \<Rightarrow> try_addrs show_dev dial peer addrs None m)"

definition mesh_accept :: "(net_error + link) option \<Rightarrow> mesh \<Rightarrow> (net_error + link) option \<times> mesh" where
  "mesh_accept incoming m =
     (case incoming of
        None \<Rightarrow> (None, m)
      | Some (Inl e) \<Rightarrow> (Some (Inl e), m)
      | Some (Inr c) \<Rightarrow> (case adopt c m of (c, m) \<Rightarrow> (Some (Inr c), m)))"

section \<open>The steps of a registry\<close>

text \<open>\<open>seen\<close> collects the connections the registry was given; each has its own identity.\<close>

inductive mesh_step :: "mesh \<times> link set \<Rightarrow> mesh \<times> link set \<Rightarrow> bool" where
  adopt_step: "(\<forall>d \<in> seen. link_id d \<noteq> link_id c) \<Longrightarrow> mesh_step (m, seen) (snd (adopt c m), insert c seen)"
| forget_step: "mesh_step (m, seen) (forget peer m, seen)"
| remote_close: "mesh_step (m, seen) (m\<lparr>closed := insert k (closed m)\<rparr>, seen)"

inductive mesh_reachable :: "device_id \<Rightarrow> mesh \<times> link set \<Rightarrow> bool" for i where
  start: "mesh_reachable i (new_mesh i, {})"
| step: "mesh_reachable i s \<Longrightarrow> mesh_step s t \<Longrightarrow> mesh_reachable i t"

definition registry_ok :: "mesh \<Rightarrow> link set \<Rightarrow> bool" where
  "registry_ok m seen \<longleftrightarrow> (\<forall>p c. registry m p = Some c \<longrightarrow> link_peer c = p \<and> c \<in> seen)"

definition live_ok :: "mesh \<Rightarrow> link set \<Rightarrow> bool" where
  "live_ok m seen \<longleftrightarrow> (\<forall>c \<in> seen. is_live m c \<longrightarrow> registry m (link_peer c) = Some c)"

definition mesh_inv :: "device_id \<Rightarrow> mesh \<times> link set \<Rightarrow> bool" where
  "mesh_inv i s \<longleftrightarrow> local_id (fst s) = i \<and> registry_ok (fst s) (snd s) \<and> live_ok (fst s) (snd s) \<and>
     inj_on link_id (snd s)"

lemma adopt_cases:
  obtains (fresh) "mesh_get m (link_peer c) = None" "adopt c m = (c, m\<lparr>registry := (registry m)(link_peer c \<mapsto> c)\<rparr>)"
  | (kept) e where "mesh_get m (link_peer c) = Some e" "dialer_of m e \<le> dialer_of m c" "adopt c m = (e, close_link c m)"
  | (replaced) e where "mesh_get m (link_peer c) = Some e" "dialer_of m c < dialer_of m e"
      "adopt c m = (c, (close_link e m)\<lparr>registry := (registry m)(link_peer c \<mapsto> c)\<rparr>)"
proof (cases "mesh_get m (link_peer c)")
  case None
  then show thesis using fresh by (simp add: adopt_def)
next
  case (Some e)
  then show thesis using kept [of e] replaced [of e]
    by (cases "dialer_of m e \<le> dialer_of m c") (auto simp: adopt_def close_link_def not_le)
qed

lemma mesh_get_Some: "mesh_get m p = Some c \<longleftrightarrow> registry m p = Some c \<and> is_live m c"
  by (auto simp: mesh_get_def split: option.splits if_splits)

lemma mesh_inv_adopt:
  assumes "mesh_inv i (m, seen)" and new: "\<forall>d \<in> seen. link_id d \<noteq> link_id c"
  shows "mesh_inv i (snd (adopt c m), insert c seen)"
proof -
  have inv: "local_id m = i" "registry_ok m seen" "live_ok m seen" "inj_on link_id seen"
    using assms(1) by (simp_all add: mesh_inv_def)
  have inj: "inj_on link_id (insert c seen)" using inv(4) new by (auto simp: inj_on_def)
  have other: "d \<in> seen \<Longrightarrow> is_live m d \<Longrightarrow> registry m (link_peer d) = Some d" for d
    using inv(3) by (auto simp: live_ok_def)
  show ?thesis
  proof (cases rule: adopt_cases [of m c])
    case fresh
    have "d \<in> seen \<Longrightarrow> is_live m d \<Longrightarrow> link_peer d \<noteq> link_peer c" for d
      using other [of d] fresh(1) by (auto simp: mesh_get_def split: option.splits if_splits)
    then have "live_ok (snd (adopt c m)) (insert c seen)"
      using other by (auto simp: fresh(2) live_ok_def is_live_def)
    moreover have "registry_ok (snd (adopt c m)) (insert c seen)"
      using inv(2) by (auto simp: fresh(2) registry_ok_def)
    ultimately show ?thesis using inv(1) inj by (simp add: mesh_inv_def fresh(2))
  next
    case (kept e)
    have "live_ok (snd (adopt c m)) (insert c seen)"
      using other by (auto simp: kept(3) live_ok_def is_live_def close_link_def)
    moreover have "registry_ok (snd (adopt c m)) (insert c seen)"
      using inv(2) by (auto simp: kept(3) registry_ok_def close_link_def)
    ultimately show ?thesis using inv(1) inj by (simp add: mesh_inv_def kept(3) close_link_def)
  next
    case (replaced e)
    then have e: "registry m (link_peer c) = Some e" by (simp add: mesh_get_Some)
    have "d \<in> seen \<Longrightarrow> is_live m d \<Longrightarrow> link_id d \<noteq> link_id e \<Longrightarrow> link_peer d \<noteq> link_peer c" for d
      using other [of d] e by auto
    then have "live_ok (snd (adopt c m)) (insert c seen)"
      using other by (auto simp: replaced(3) live_ok_def is_live_def close_link_def)
    moreover have "registry_ok (snd (adopt c m)) (insert c seen)"
      using inv(2) by (auto simp: replaced(3) registry_ok_def close_link_def)
    ultimately show ?thesis using inv(1) inj by (simp add: mesh_inv_def replaced(3) close_link_def)
  qed
qed

lemma mesh_inv_forget:
  assumes "mesh_inv i (m, seen)"
  shows "mesh_inv i (forget peer m, seen)"
proof (cases "registry m peer")
  case None
  with assms show ?thesis by (simp add: forget_def)
next
  case (Some e)
  have inv: "local_id m = i" "registry_ok m seen" "live_ok m seen" "inj_on link_id seen"
    using assms by (simp_all add: mesh_inv_def)
  have "d \<in> seen \<Longrightarrow> is_live m d \<Longrightarrow> link_id d \<noteq> link_id e \<Longrightarrow> link_peer d \<noteq> peer \<and> registry m (link_peer d) = Some d" for d
    using inv(3) Some by (auto simp: live_ok_def)
  then have "live_ok (forget peer m) seen"
    by (auto simp: Some forget_def live_ok_def is_live_def close_link_def)
  moreover have "registry_ok (forget peer m) seen"
    using inv(2) by (auto simp: Some forget_def registry_ok_def close_link_def)
  ultimately show ?thesis using inv by (simp add: mesh_inv_def Some forget_def close_link_def)
qed

lemma mesh_inv_step: "mesh_step s t \<Longrightarrow> mesh_inv i s \<Longrightarrow> mesh_inv i t"
proof (induction rule: mesh_step.induct)
  case (adopt_step seen c m)
  then show ?case by (simp add: mesh_inv_adopt)
next
  case (forget_step m seen peer)
  then show ?case by (rule mesh_inv_forget)
next
  case (remote_close m seen k)
  then show ?case by (auto simp: mesh_inv_def registry_ok_def live_ok_def is_live_def)
qed

lemma mesh_inv_reachable: "mesh_reachable i s \<Longrightarrow> mesh_inv i s"
proof (induction rule: mesh_reachable.induct)
  case start
  then show ?case by (simp add: mesh_inv_def new_mesh_def registry_ok_def live_ok_def)
qed (rule mesh_inv_step)

section \<open>Two devices\<close>

text \<open>The two ends of the connection \<open>k\<close> that \<open>dialer\<close> opened to \<open>listener\<close>.\<close>

definition dialer_end :: "nat \<Rightarrow> device_id \<Rightarrow> link" where
  "dialer_end k listener = \<lparr>link_id = k, link_peer = listener, link_role = Dialer\<rparr>"

definition listener_end :: "nat \<Rightarrow> device_id \<Rightarrow> link" where
  "listener_end k dialer = \<lparr>link_id = k, link_peer = dialer, link_role = Listener\<rparr>"

definition adopt_both :: "bool \<Rightarrow> link \<Rightarrow> link \<Rightarrow> mesh \<Rightarrow> mesh" where
  "adopt_both swapped c d m = (if swapped then snd (adopt c (snd (adopt d m))) else snd (adopt d (snd (adopt c m))))"

lemma adopt_both_result:
  assumes "local_id m = a" and "a \<noteq> b" and "mesh_get m b = None" and "k \<noteq> l" and "k \<notin> closed m" and "l \<notin> closed m"
  shows "registry (adopt_both swapped (dialer_end k b) (listener_end l b) m) b =
      Some (if a < b then dialer_end k b else listener_end l b)"
    and "closed (adopt_both swapped (dialer_end k b) (listener_end l b) m) = insert (if a < b then l else k) (closed m)"
proof -
  have "b < a" if "\<not> a < b" using assms(2) that by auto
  with assms show "registry (adopt_both swapped (dialer_end k b) (listener_end l b) m) b =
      Some (if a < b then dialer_end k b else listener_end l b)"
    "closed (adopt_both swapped (dialer_end k b) (listener_end l b) m) = insert (if a < b then l else k) (closed m)"
    by (auto simp: adopt_both_def adopt_def Let_def dialer_end_def listener_end_def dialer_of_def mesh_get_def is_live_def
        close_link_def not_le not_less)
qed

section \<open>Properties\<close>

text \<open>C8: The registry loses no connection. Through any sequence of adoptions, forgets and closes, every
  live connection it was given is the registered connection of its peer, so there is never more than
  one live connection to a peer and never a live one that nothing refers to.\<close>

theorem mesh_no_stray:
  assumes "mesh_reachable i (m, seen)" and "c \<in> seen" and "is_live m c"
  shows "registry m (link_peer c) = Some c \<and> (\<forall>d \<in> seen. is_live m d \<and> link_peer d = link_peer c \<longrightarrow> d = c)"
proof -
  have live: "live_ok m seen" using mesh_inv_reachable [OF assms(1)] by (simp add: mesh_inv_def)
  then have "registry m (link_peer c) = Some c" using assms(2,3) by (simp add: live_ok_def)
  moreover have "d = c" if "d \<in> seen" "is_live m d" "link_peer d = link_peer c" for d
  proof -
    have "registry m (link_peer d) = Some d" using live that(1,2) unfolding live_ok_def by blast
    with that(3) calculation show ?thesis by simp
  qed
  ultimately show ?thesis by blast
qed

text \<open>C16: A simultaneous open is settled without talking. When two devices have dialled each other, and
  each registers the two connections in whichever order they arrive, both keep the one the lower
  device id dialled and both close the other.\<close>

theorem simultaneous_open:
  assumes "local_id ma = a" and "local_id mb = b" and "a < b" and "k \<noteq> l"
    and "mesh_get ma b = None" and "mesh_get mb a = None"
    and "{k, l} \<inter> closed ma = {}" and "{k, l} \<inter> closed mb = {}"
  shows "registry (adopt_both swapped_a (dialer_end k b) (listener_end l b) ma) b = Some (dialer_end k b) \<and>
    registry (adopt_both swapped_b (dialer_end l a) (listener_end k a) mb) a = Some (listener_end k a) \<and>
    closed (adopt_both swapped_a (dialer_end k b) (listener_end l b) ma) = insert l (closed ma) \<and>
    closed (adopt_both swapped_b (dialer_end l a) (listener_end k a) mb) = insert l (closed mb)"
  using adopt_both_result [of ma a b k l swapped_a] adopt_both_result [of mb b a l k swapped_b] assms
  by auto

lemma try_addrs_Inr:
  "try_addrs show_dev dial peer as failed m = (Inr c, m') \<Longrightarrow>
    (\<forall>p c. registry m p = Some c \<longrightarrow> link_peer c = p) \<Longrightarrow> link_peer c = peer \<and> registry m' peer = Some c"
proof (induction as arbitrary: failed)
  case (Cons a as)
  show ?case
  proof (cases "dial a")
    case (Inl e)
    with Cons show ?thesis by simp
  next
    case (Inr d)
    show ?thesis
    proof (cases "link_peer d = peer")
      case True
      with Inr Cons.prems(1) have ad: "adopt d m = (c, m')" by (simp split: prod.splits)
      show ?thesis using ad True Cons.prems(2)
        by (cases rule: adopt_cases [of m d]) (auto simp: mesh_get_Some close_link_def)
    next
      case False
      with Inr Cons show ?thesis by simp
    qed
  qed
qed simp

text \<open>A connection obtained for a peer is with that peer: whoever answers at a stale address, what
  \<open>connect\<close> returns and registers has the peer that was asked for, and is the registered one.\<close>

theorem connect_right_peer:
  assumes "mesh_reachable i (m, seen)" and "mesh_connect show_dev dial peer addrs m = (Inr c, m')"
  shows "link_peer c = peer \<and> registry m' peer = Some c"
proof -
  have reg: "\<forall>p c. registry m p = Some c \<longrightarrow> link_peer c = p"
    using mesh_inv_reachable [OF assms(1)] by (simp add: mesh_inv_def registry_ok_def)
  show ?thesis
  proof (cases "mesh_get m peer")
    case None
    with assms(2) try_addrs_Inr [OF _ reg] show ?thesis by (simp add: mesh_connect_def)
  next
    case (Some d)
    with assms(2) reg show ?thesis by (auto simp: mesh_connect_def mesh_get_Some)
  qed
qed

section \<open>Examples\<close>

definition example_a :: device_id where "example_a = DeviceId (replicate 8 1)"
definition example_b :: device_id where "example_b = DeviceId (replicate 8 2)"

lemma example_less: "example_a < example_b"
  by (simp add: example_a_def example_b_def less_device_id_def numeral_eq_Suc)

lemma example_run: "mesh_reachable example_a (snd (adopt (dialer_end 1 example_b) (new_mesh example_a)), {dialer_end 1 example_b})"
  using mesh_reachable.step [OF mesh_reachable.start mesh_step.adopt_step [of "{}" "dialer_end 1 example_b"]] by simp

theorem mesh_no_stray_witness:
  "registry (snd (adopt (dialer_end 1 example_b) (new_mesh example_a))) example_b = Some (dialer_end 1 example_b)"
proof -
  have "is_live (snd (adopt (dialer_end 1 example_b) (new_mesh example_a))) (dialer_end 1 example_b)"
    by (simp add: adopt_def mesh_get_def new_mesh_def is_live_def)
  from mesh_no_stray [OF example_run _ this] show ?thesis by (simp add: dialer_end_def)
qed

theorem simultaneous_open_witness:
  "registry (adopt_both True (dialer_end 1 example_b) (listener_end 2 example_b) (new_mesh example_a)) example_b =
     Some (dialer_end 1 example_b)"
  using simultaneous_open [of "new_mesh example_a" example_a "new_mesh example_b" example_b 1 2 True True] example_less
  by (simp add: new_mesh_def mesh_get_def)

theorem connect_right_peer_witness:
  "\<exists>c m. mesh_connect (\<lambda>_. []) (\<lambda>a. Inr (dialer_end 7 example_b)) example_b [''addr'']
      (snd (adopt (dialer_end 1 example_b) (new_mesh example_a))) = (Inr c, m) \<and> link_peer c = example_b"
proof -
  let ?m = "snd (adopt (dialer_end 1 example_b) (new_mesh example_a))"
  have c: "mesh_connect (\<lambda>_. []) (\<lambda>a. Inr (dialer_end 7 example_b)) example_b [''addr''] ?m = (Inr (dialer_end 1 example_b), ?m)"
    by (simp add: mesh_connect_def adopt_def mesh_get_def new_mesh_def is_live_def dialer_end_def)
  from connect_right_peer [OF example_run c] c show ?thesis by blast
qed

end
