(* ===== verification/Runtime.thy ===== *)
theory Runtime
  imports Identity Gpu_Device
begin

text \<open>
  \<open>crates/latticed/src/runtime.rs\<close>: the inference engine of a worker, a child process that serves one
  master at a time. The child's fate, the sockets and the files are what the operating system
  reports, given as arguments. A connection attempt takes several steps, between which the registered
  master may change and the child may exit; the system of all attempts is an inductive relation over
  the atomic sections of the code. The invariant says that one attempt at most holds the permit and
  that the only child running belongs to the registered master.
\<close>

section \<open>Locating the engine\<close>

definition ENGINE_REVISION :: string where
  "ENGINE_REVISION = ''85d5703a3b1b47243213a39059a6e3076c92733a''"

definition engine_cli :: "string \<Rightarrow> string" where "engine_cli dir = dir @ ''/bin/llama-cli''"
definition engine_rpc_server :: "string \<Rightarrow> string" where "engine_rpc_server dir = dir @ ''/bin/ggml-rpc-server''"
definition engine_info :: "string \<Rightarrow> string" where "engine_info dir = dir @ ''/bin/lattice-engine-info''"

definition locate ::
    "string option \<Rightarrow> string option \<Rightarrow> string option \<Rightarrow> (string \<Rightarrow> string option) \<Rightarrow> (string \<Rightarrow> bool) \<Rightarrow> string + string" where
  "locate dir env_dir env_home read_text is_file =
     rbind (case dir of
              Some d \<Rightarrow> Inr d
            | None \<Rightarrow>
                (case env_dir of
                   Some d \<Rightarrow> Inr d
                 | None \<Rightarrow> rbind (ok_or ''HOME is unset; use --engine-dir'' env_home)
                             (\<lambda>h. Inr (h @ ''/.local/share/lattice/engine'')))) (\<lambda>d.
     rbind (ok_or ''inference engine missing; run ./scripts/setup-engine.sh'' (read_text (d @ ''/engine-revision''))) (\<lambda>r.
     if trim r \<noteq> ENGINE_REVISION then Inl ''inference engine revision mismatch; rerun ./scripts/setup-engine.sh''
     else case find (\<lambda>p. \<not> is_file p) [engine_cli d, engine_rpc_server d, engine_info d] of
            Some p \<Rightarrow> Inl (''missing '' @ p @ ''; rerun ./scripts/setup-engine.sh'')
          | None \<Rightarrow> Inr d))"

section \<open>Bounded output\<close>

definition MAX_OUTPUT :: nat where "MAX_OUTPUT = 1048576"

text \<open>The helper's output is read to the end but only its first mebibyte is kept.\<close>

fun drain :: "bytes \<Rightarrow> (string + bytes) list \<Rightarrow> string + bytes" where
  "drain out [] = Inr out"
| "drain out (r # rs) =
     rbind r (\<lambda>buffer.
       if buffer = [] then Inr out
       else drain (out @ take (min (length buffer) (MAX_OUTPUT - length out)) buffer) rs)"

text \<open>The log of the child: it starts over rather than growing past a mebibyte.\<close>

fun log_loop :: "bytes \<Rightarrow> (string + bytes) list \<Rightarrow> bytes" where
  "log_loop log [] = log"
| "log_loop log (Inl _ # rs) = log"
| "log_loop log (Inr buffer # rs) =
     (if buffer = [] then log
      else if length log + length buffer > MAX_OUTPUT then log_loop buffer rs
      else log_loop (log @ buffer) rs)"

text \<open>The helper is polled until it exits or the deadline has passed; \<open>None\<close> is the latter.\<close>

fun wait_child :: "(string + 'status option) list \<Rightarrow> string + 'status option" where
  "wait_child [] = Inr None"
| "wait_child (Inl e # ps) = Inl e"
| "wait_child (Inr (Some s) # ps) = Inr (Some s)"
| "wait_child (Inr None # ps) = wait_child ps"

definition devices ::
    "(bytes \<Rightarrow> string + gpu_device list) \<Rightarrow> string + unit \<Rightarrow> (string + bool option) list \<Rightarrow> (string + bytes) list \<Rightarrow>
       (string + bytes) list \<Rightarrow> string + gpu_device list" where
  "devices from_json spawned polls stdout stderr =
     rbind (map_err (\<lambda>_. ''detecting inference GPUs'') spawned) (\<lambda>_.
     rbind (wait_child polls) (\<lambda>status.
     rbind (drain [] stdout) (\<lambda>out.
     rbind (drain [] stderr) (\<lambda>err.
     rbind (ok_or ''GPU discovery timed out; check the GPU driver installation'' status) (\<lambda>success.
     if \<not> success then Inl (''GPU detection failed: '' @ map (\<lambda>b. char_of (unat b)) err)
     else map_err (\<lambda>_. ''invalid GPU discovery output'') (from_json out))))))"

lemma drain_prefix:
  "length out \<le> MAX_OUTPUT \<Longrightarrow> \<forall>c \<in> set cs. c \<noteq> [] \<Longrightarrow>
     drain out (map Inr cs @ Inr [] # rs) = Inr (take MAX_OUTPUT (out @ concat cs))"
proof (induction cs arbitrary: out)
  case (Cons c cs)
  let ?out = "out @ take (min (length c) (MAX_OUTPUT - length out)) c"
  have "length ?out \<le> MAX_OUTPUT" using Cons.prems(1) by simp
  moreover have "take MAX_OUTPUT (?out @ concat cs) = take MAX_OUTPUT (out @ c @ concat cs)"
  proof (cases "length c \<le> MAX_OUTPUT - length out")
    case False
    then show ?thesis using Cons.prems(1) by (simp add: min_def)
  qed (simp add: min_def)
  ultimately show ?case using Cons.IH [of ?out] Cons.prems(2) by simp
qed simp

lemma log_bounded:
  "length log \<le> MAX_OUTPUT \<Longrightarrow> \<forall>b. Inr b \<in> set rs \<longrightarrow> length b \<le> 8192 \<Longrightarrow> length (log_loop log rs) \<le> MAX_OUTPUT"
proof (induction log rs rule: log_loop.induct)
  case (3 log buffer rs)
  moreover have "length buffer \<le> MAX_OUTPUT"
  proof -
    have "length buffer \<le> 8192" using 3(4) by simp
    then show ?thesis by (simp add: MAX_OUTPUT_def)
  qed
  ultimately show ?case by simp
qed simp_all

section \<open>The worker\<close>

record worker =
  engine_dir :: string
  own_device :: gpu_device
  worker_dir :: string

definition rpc_log :: "worker \<Rightarrow> string" where "rpc_log k = worker_dir k @ ''/rpc-server.log''"
definition rpc_cache :: "worker \<Rightarrow> string" where "rpc_cache k = worker_dir k @ ''/rpc-cache''"

text \<open>The command line of the inference process: it listens on the loopback interface, on a port that was free.\<close>

record command =
  cmd_program :: string
  cmd_args :: "string list"
  cmd_env :: "(string \<times> string) list"

definition rpc_command :: "worker \<Rightarrow> nat \<Rightarrow> command" where
  "rpc_command k port =
     \<lparr>cmd_program = engine_rpc_server (engine_dir k),
      cmd_args = [''--host'', ''127.0.0.1'', ''--port'', show_nat port, ''--device'', gpu_name (own_device k), ''--cache''],
      cmd_env = [(''LLAMA_CACHE'', rpc_cache k), (''GGML_RPC_NO_RDMA'', ''1'')]\<rparr>"

record server =
  child :: nat
  address :: nat

record runtime =
  master :: "device_id option"
  gpu_server :: "server option"
  running :: "nat set"
  next_child :: nat

definition new_runtime :: runtime where
  "new_runtime = \<lparr>master = None, gpu_server = None, running = {}, next_child = 0\<rparr>"

text \<open>\<open>made\<close> is the result of creating the cache directory.\<close>

definition runtime_new :: "(string \<Rightarrow> string + unit) \<Rightarrow> string \<Rightarrow> gpu_device \<Rightarrow> string \<Rightarrow> string + worker \<times> runtime" where
  "runtime_new made dir dev_found data_dir =
     (let k = \<lparr>engine_dir = dir, own_device = dev_found, worker_dir = data_dir\<rparr> in
      rbind (made (rpc_cache k)) (\<lambda>_. Inr (k, new_runtime)))"

text \<open>Dropping a server kills its process and waits for it.\<close>

definition stop_server :: "runtime \<Rightarrow> runtime" where
  "stop_server rt =
     (case gpu_server rt of
        None \<Rightarrow> rt
      | Some s \<Rightarrow> rt\<lparr>gpu_server := None, running := running rt - {child s}\<rparr>)"

definition authorize :: "device_id option \<Rightarrow> runtime \<Rightarrow> runtime" where
  "authorize m rt = (if master rt \<noteq> m then (stop_server rt)\<lparr>master := m\<rparr> else rt)"

definition check_master :: "runtime \<Rightarrow> device_id \<Rightarrow> string + unit" where
  "check_master rt dev =
     (if master rt \<noteq> Some dev then Inl ''inference is restricted to the registered master'' else Inr ())"

text \<open>\<open>try_wait\<close> of a child: an error, or its status when it has exited.\<close>

type_synonym waiter = "nat \<Rightarrow> string + string option"

definition check_health :: "string \<Rightarrow> waiter \<Rightarrow> device_id \<Rightarrow> runtime \<Rightarrow> (string + unit) \<times> runtime" where
  "check_health log_path try_wait dev rt =
     (case check_master rt dev of
        Inl e \<Rightarrow> (Inl e, rt)
      | Inr _ \<Rightarrow>
          (case gpu_server rt of
             None \<Rightarrow> (Inr (), rt)
           | Some s \<Rightarrow>
               (case try_wait (child s) of
                  Inl e \<Rightarrow> (Inl e, rt)
                | Inr None \<Rightarrow> (Inr (), rt)
                | Inr (Some status) \<Rightarrow>
                    (Inl (''GPU RPC server exited ('' @ status @ ''); inspect '' @ log_path), stop_server rt))))"

text \<open>\<open>bound\<close> and \<open>log\<close> are the results of binding a port and of creating the log, \<open>spawn\<close> that of starting
  the process.\<close>

definition server_address ::
    "worker \<Rightarrow> waiter \<Rightarrow> string + nat \<Rightarrow> string + unit \<Rightarrow> (command \<Rightarrow> string + unit) \<Rightarrow> device_id \<Rightarrow> runtime \<Rightarrow>
       (string + nat) \<times> runtime" where
  "server_address k try_wait bound log spawn dev rt =
     (let start = (\<lambda>rt.
        case bound of
          Inl e \<Rightarrow> (Inl e, rt)
        | Inr port \<Rightarrow>
            (case rbind log (\<lambda>_. map_err (\<lambda>_. ''starting GPU RPC server'') (spawn (rpc_command k port))) of
               Inl e \<Rightarrow> (Inl e, rt)
             | Inr _ \<Rightarrow>
                 (Inr port, rt\<lparr>gpu_server := Some \<lparr>child = next_child rt, address = port\<rparr>,
                    running := insert (next_child rt) (running rt), next_child := next_child rt + 1\<rparr>)))
      in case check_master rt dev of
           Inl e \<Rightarrow> (Inl e, rt)
         | Inr _ \<Rightarrow>
             (case gpu_server rt of
                None \<Rightarrow> start rt
              | Some s \<Rightarrow>
                  (case try_wait (child s) of
                     Inl e \<Rightarrow> (Inl e, rt)
                   | Inr None \<Rightarrow> (Inr (address s), rt)
                   | Inr (Some _) \<Rightarrow> start (stop_server rt))))"

text \<open>
  The capabilities: the permit is tried for, and held while the devices are probed; the master and
  the child are checked before and after (\<open>between\<close> is what other threads did meanwhile).
\<close>

definition capabilities ::
    "string \<Rightarrow> waiter \<Rightarrow> waiter \<Rightarrow> bool \<Rightarrow> gpu_device \<Rightarrow> string + gpu_device list \<Rightarrow> (select_error \<Rightarrow> string) \<Rightarrow>
       (runtime \<Rightarrow> runtime) \<Rightarrow> device_id \<Rightarrow> runtime \<Rightarrow> (string + engine_capabilities) \<times> runtime" where
  "capabilities log_path w1 w2 permit own probed show_err between dev rt =
     (case check_health log_path w1 dev rt of
        (Inl e, rt) \<Rightarrow> (Inl e, rt)
      | (Inr _, rt) \<Rightarrow>
          (case (if permit then rbind probed (\<lambda>ds. map_err show_err (select_device ds (Some (gpu_name own)))) else Inr own) of
             Inl e \<Rightarrow> (Inl e, between rt)
           | Inr d \<Rightarrow>
               (case check_health log_path w2 dev (between rt) of
                  (Inl e, rt) \<Rightarrow> (Inl e, rt)
                | (Inr _, rt) \<Rightarrow>
                    (Inr \<lparr>revision = ENGINE_REVISION, device = d, busy = \<not> permit\<rparr>, rt))))"

section \<open>Connection attempts\<close>

text \<open>
  Where an attempt of \<open>connect\<close> stands: before \<open>acquire\<close>, waiting for the permit, holding it
  but not yet rechecked, about to ask for the address, before a turn of the polling loop, dialling the
  port, serving, or over. A capability query stands before it tries for the permit, or has looked: with
  the permit it runs the GPU helper.
\<close>

datatype phase =
    Checking | Waiting | Rechecking | Addressing | Polling nat | Dialling nat | Serving nat | Over "string option"

record attempt =
  who :: device_id
  phase :: phase

datatype inquiry = Asked device_id | Looked device_id bool

datatype holder = AttemptHolds nat | QueryHolds nat

record system =
  rt :: runtime
  attempts :: "nat \<rightharpoonup> attempt"
  queries :: "nat \<rightharpoonup> inquiry"
  permit_holder :: "holder option"
  started_for :: "nat \<Rightarrow> device_id option"

definition new_system :: system where
  "new_system = \<lparr>rt = new_runtime, attempts = Map.empty, queries = Map.empty, permit_holder = None, started_for = (\<lambda>_. None)\<rparr>"

definition goto :: "nat \<Rightarrow> phase \<Rightarrow> system \<Rightarrow> system" where
  "goto i p s =
     (case attempts s i of None \<Rightarrow> s | Some a \<Rightarrow> s\<lparr>attempts := (attempts s)(i \<mapsto> a\<lparr>phase := p\<rparr>)\<rparr>)"

text \<open>An attempt that ends drops its permit when it holds it.\<close>

definition end_attempt :: "nat \<Rightarrow> string option \<Rightarrow> system \<Rightarrow> system" where
  "end_attempt i why s =
     (let s = goto i (Over why) s in if permit_holder s = Some (AttemptHolds i) then s\<lparr>permit_holder := None\<rparr> else s)"

text \<open>A check that the attempt survives, or that ends it.\<close>

definition checked :: "string \<Rightarrow> waiter \<Rightarrow> nat \<Rightarrow> device_id \<Rightarrow> phase \<Rightarrow> system \<Rightarrow> system" where
  "checked log_path w i dev p s =
     (case check_health log_path w dev (rt s) of
        (Inl e, rt') \<Rightarrow> end_attempt i (Some e) (s\<lparr>rt := rt'\<rparr>)
      | (Inr _, rt') \<Rightarrow> goto i p (s\<lparr>rt := rt'\<rparr>))"

definition addressed ::
    "worker \<Rightarrow> waiter \<Rightarrow> string + nat \<Rightarrow> string + unit \<Rightarrow> (command \<Rightarrow> string + unit) \<Rightarrow> nat \<Rightarrow> device_id \<Rightarrow> system \<Rightarrow> system" where
  "addressed k w bound log spawn i dev s =
     (case server_address k w bound log spawn dev (rt s) of
        (Inl e, rt') \<Rightarrow> end_attempt i (Some e) (s\<lparr>rt := rt'\<rparr>)
      | (Inr port, rt') \<Rightarrow>
          goto i (Polling port)
            (s\<lparr>rt := rt', started_for := (\<lambda>c. if c < next_child rt' \<and> next_child (rt s) \<le> c then Some dev else started_for s c)\<rparr>))"

text \<open>A capability query: its first check, its try for the permit, and its end, which drops the permit.\<close>

definition query_check :: "string \<Rightarrow> waiter \<Rightarrow> nat \<Rightarrow> device_id \<Rightarrow> system \<Rightarrow> system" where
  "query_check log_path w q dev s =
     (case check_health log_path w dev (rt s) of
        (Inl e, rt') \<Rightarrow> s\<lparr>rt := rt'\<rparr>
      | (Inr _, rt') \<Rightarrow> s\<lparr>rt := rt', queries := (queries s)(q \<mapsto> Asked dev)\<rparr>)"

definition query_look :: "nat \<Rightarrow> device_id \<Rightarrow> system \<Rightarrow> system" where
  "query_look q dev s =
     (let free = (permit_holder s = None) in
      s\<lparr>queries := (queries s)(q \<mapsto> Looked dev free),
        permit_holder := if free then Some (QueryHolds q) else permit_holder s\<rparr>)"

definition query_end :: "nat \<Rightarrow> runtime \<Rightarrow> system \<Rightarrow> system" where
  "query_end q r s =
     s\<lparr>rt := r, queries := (queries s)(q := None),
       permit_holder := if permit_holder s = Some (QueryHolds q) then None else permit_holder s\<rparr>"

text \<open>The caller of an attempt gives it two minutes; an attempt that awaits something is then dropped (\<open>cancel\<close>).\<close>

definition awaits :: "phase \<Rightarrow> bool" where
  "awaits p = (case p of Waiting \<Rightarrow> True | Polling _ \<Rightarrow> True | Dialling _ \<Rightarrow> True | _ \<Rightarrow> False)"

inductive worker_step :: "worker \<Rightarrow> system \<Rightarrow> system \<Rightarrow> bool" for k where
  reauthorize: "worker_step k s (s\<lparr>rt := authorize m (rt s)\<rparr>)"
| query: "queries s q = None \<Longrightarrow> worker_step k s (query_check (rpc_log k) w q dev s)"
| look: "queries s q = Some (Asked dev) \<Longrightarrow> worker_step k s (query_look q dev s)"
| answer: "queries s q = Some (Looked dev free) \<Longrightarrow>
    worker_step k s (query_end q (snd (check_health (rpc_log k) w dev (rt s))) s)"
| helper_failed: "queries s q = Some (Looked dev True) \<Longrightarrow> worker_step k s (query_end q (rt s) s)"
| arrive: "attempts s i = None \<Longrightarrow>
    worker_step k s (s\<lparr>attempts := (attempts s)(i \<mapsto> \<lparr>who = dev, phase = Checking\<rparr>)\<rparr>)"
| check: "attempts s i = Some \<lparr>who = dev, phase = Checking\<rparr> \<Longrightarrow> worker_step k s (checked (rpc_log k) w i dev Waiting s)"
| acquire: "attempts s i = Some \<lparr>who = dev, phase = Waiting\<rparr> \<Longrightarrow> permit_holder s = None \<Longrightarrow>
    worker_step k s (goto i Rechecking (s\<lparr>permit_holder := Some (AttemptHolds i)\<rparr>))"
| busy: "attempts s i = Some \<lparr>who = dev, phase = Waiting\<rparr> \<Longrightarrow>
    worker_step k s (end_attempt i (Some ''GPU worker is busy'') s)"
| recheck: "attempts s i = Some \<lparr>who = dev, phase = Rechecking\<rparr> \<Longrightarrow>
    worker_step k s (checked (rpc_log k) w i dev Addressing s)"
| address: "attempts s i = Some \<lparr>who = dev, phase = Addressing\<rparr> \<Longrightarrow>
    worker_step k s (addressed k w bound log spawn i dev s)"
| poll: "attempts s i = Some \<lparr>who = dev, phase = Polling port\<rparr> \<Longrightarrow>
    worker_step k s (checked (rpc_log k) w i dev (Dialling port) s)"
| not_ready: "attempts s i = Some \<lparr>who = dev, phase = Dialling port\<rparr> \<Longrightarrow> worker_step k s (goto i (Polling port) s)"
| ready: "attempts s i = Some \<lparr>who = dev, phase = Dialling port\<rparr> \<Longrightarrow>
    worker_step k s (checked (rpc_log k) w i dev (Serving port) s)"
| give_up: "attempts s i = Some \<lparr>who = dev, phase = Dialling port\<rparr> \<Longrightarrow>
    worker_step k s (end_attempt i (Some (''GPU RPC server did not become ready: '' @ why @ ''; inspect '' @ rpc_log k)) s)"
| cancel: "attempts s i = Some a \<Longrightarrow> awaits (phase a) \<Longrightarrow> worker_step k s (end_attempt i None s)"
| session_end: "attempts s i = Some \<lparr>who = dev, phase = Serving port\<rparr> \<Longrightarrow>
    worker_step k s (end_attempt i None s)"

inductive worker_reachable :: "worker \<Rightarrow> system \<Rightarrow> bool" for k where
  start: "worker_reachable k new_system"
| step: "worker_reachable k s \<Longrightarrow> worker_step k s t \<Longrightarrow> worker_reachable k t"

definition holds_permit :: "phase \<Rightarrow> bool" where
  "holds_permit p = (case p of Rechecking \<Rightarrow> True | Addressing \<Rightarrow> True | Polling _ \<Rightarrow> True | Dialling _ \<Rightarrow> True
     | Serving _ \<Rightarrow> True | _ \<Rightarrow> False)"

text \<open>The running process is the registered server's, started for the registered master.\<close>

definition runtime_ok :: "(nat \<Rightarrow> device_id option) \<Rightarrow> runtime \<Rightarrow> bool" where
  "runtime_ok owner r \<longleftrightarrow>
     (case gpu_server r of
        None \<Rightarrow> running r = {}
      | Some s \<Rightarrow> running r \<subseteq> {child s} \<and> child s < next_child r \<and> master r \<noteq> None \<and> owner (child s) = master r)"

text \<open>Who uses the GPU, and so should hold the permit.\<close>

definition uses :: "system \<Rightarrow> holder \<Rightarrow> bool" where
  "uses s h =
     (case h of
        AttemptHolds i \<Rightarrow> (case attempts s i of None \<Rightarrow> False | Some a \<Rightarrow> holds_permit (phase a))
      | QueryHolds q \<Rightarrow> (case queries s q of Some (Looked dev free) \<Rightarrow> free | _ \<Rightarrow> False))"

definition permit_ok :: "system \<Rightarrow> bool" where
  "permit_ok s \<longleftrightarrow> (\<forall>h. uses s h = (permit_holder s = Some h))"

definition system_ok :: "system \<Rightarrow> bool" where
  "system_ok s \<longleftrightarrow> runtime_ok (started_for s) (rt s) \<and> permit_ok s"

lemma runtime_ok_stop: "runtime_ok o' r \<Longrightarrow> runtime_ok o' (stop_server r)"
  by (auto simp: runtime_ok_def stop_server_def split: option.splits)

lemma runtime_ok_authorize: "runtime_ok o' r \<Longrightarrow> runtime_ok o' (authorize m r)"
  by (auto simp: authorize_def runtime_ok_def stop_server_def split: option.splits)

lemma runtime_ok_check: "runtime_ok o' r \<Longrightarrow> runtime_ok o' (snd (check_health p w dev r))"
  by (auto simp: check_health_def runtime_ok_stop split: option.split sum.split)

lemma check_health_master: "check_health p w dev r = (Inr u, r') \<Longrightarrow> master r = Some dev \<and> r' = r"
  by (auto simp: check_health_def check_master_def split: option.splits sum.splits if_splits)

lemma stop_server_fields [simp]: "gpu_server (stop_server r) = None" "master (stop_server r) = master r"
  "next_child (stop_server r) = next_child r"
  by (auto simp: stop_server_def split: option.split)

lemma runtime_ok_stopped: "runtime_ok o' r \<Longrightarrow> running (stop_server r) = {}"
  by (auto simp: runtime_ok_def stop_server_def split: option.splits)

lemma runtime_ok_address:
  assumes "runtime_ok o' r" and "server_address k w bound log spawn dev r = (res, r')"
    and "owner = (\<lambda>c. if c < next_child r' \<and> next_child r \<le> c then Some dev else o' c)"
  shows "runtime_ok owner r'"
proof -
  have started: "runtime_ok owner r'"
    if "rr = r \<and> gpu_server r = None \<or> rr = stop_server r" "master r = Some dev"
      "(case bound of Inl e \<Rightarrow> (Inl e, rr) | Inr port \<Rightarrow>
          (case rbind log (\<lambda>_. map_err (\<lambda>_. ''starting GPU RPC server'') (spawn (rpc_command k port))) of Inl e \<Rightarrow> (Inl e, rr)
           | Inr _ \<Rightarrow> (Inr port, rr\<lparr>gpu_server := Some \<lparr>child = next_child rr, address = port\<rparr>,
                running := insert (next_child rr) (running rr), next_child := next_child rr + 1\<rparr>))) = (res, r')" for rr
  proof -
    have rr: "gpu_server rr = None" "running rr = {}" "next_child rr = next_child r" "master rr = Some dev"
      using that(1,2) assms(1) runtime_ok_stopped [OF assms(1)] by (auto simp: runtime_ok_def)
    then show ?thesis using that(3) assms(3)
      by (auto simp: runtime_ok_def split: sum.splits)
  qed
  have same: "runtime_ok owner r" if "r' = r"
  proof -
    have "owner = o'" using assms(3) that by (auto simp: fun_eq_iff)
    with assms(1) show ?thesis by simp
  qed
  show ?thesis
  proof (cases "master r = Some dev")
    case False
    then show ?thesis using assms(2) same by (auto simp: server_address_def check_master_def Let_def)
  next
    case True
    show ?thesis
    proof (cases "gpu_server r")
      case None
      then show ?thesis using started [of r] True assms(2)
        by (simp add: server_address_def check_master_def Let_def)
    next
      case (Some s)
      then show ?thesis using started [of "stop_server r"] same True assms(2)
        by (auto simp: server_address_def check_master_def Let_def split: sum.splits option.splits)
    qed
  qed
qed

lemma uses_same [simp]: "uses (s\<lparr>rt := r\<rparr>) = uses s" "uses (s\<lparr>rt := r, started_for := f\<rparr>) = uses s"
  "uses (s\<lparr>permit_holder := p\<rparr>) = uses s"
  by (intro ext, simp add: uses_def split: holder.split)+

lemma uses_attempt: "uses (s\<lparr>attempts := (attempts s)(i \<mapsto> a)\<rparr>) h = (if h = AttemptHolds i then holds_permit (phase a) else uses s h)"
  by (simp add: uses_def split: holder.split)

lemma uses_inquiry: "uses (s\<lparr>queries := (queries s)(q := x)\<rparr>) h =
    (if h = QueryHolds q then (case x of Some (Looked dev free) \<Rightarrow> free | _ \<Rightarrow> False) else uses s h)"
  by (simp add: uses_def split: holder.split)

lemma uses_goto: "attempts s i = Some a \<Longrightarrow> uses (goto i p s) h = (if h = AttemptHolds i then holds_permit p else uses s h)"
  by (simp add: goto_def uses_attempt)

lemma permit_ok_goto:
  assumes "permit_ok s" and "attempts s i = Some a" and "holds_permit p = (permit_holder s = Some (AttemptHolds i))"
  shows "permit_ok (goto i p s)"
  using assms by (simp add: permit_ok_def uses_goto) (simp add: goto_def)

lemma permit_ok_end:
  assumes "permit_ok s" and "attempts s i = Some a"
  shows "permit_ok (end_attempt i why s)"
  using assms uses_goto [OF assms(2), of "Over why"]
  by (auto simp: permit_ok_def end_attempt_def Let_def holds_permit_def) (simp_all add: goto_def)

lemma permit_ok_rt: "permit_ok (s\<lparr>rt := r\<rparr>) = permit_ok s" "permit_ok (s\<lparr>rt := r, started_for := f\<rparr>) = permit_ok s"
  by (simp_all add: permit_ok_def)

lemma goto_fields [simp]: "rt (goto i p s) = rt s" "started_for (goto i p s) = started_for s"
    "permit_holder (goto i p s) = permit_holder s"
  and end_fields [simp]: "rt (end_attempt i why s) = rt s" "started_for (end_attempt i why s) = started_for s"
  by (auto simp: goto_def end_attempt_def Let_def split: option.split)

lemma system_ok_checked:
  assumes "system_ok s" and "attempts s i = Some a" and "holds_permit p = (permit_holder s = Some (AttemptHolds i))"
  shows "system_ok (checked log_path w i dev p s)"
proof -
  obtain r rt' where c: "check_health log_path w dev (rt s) = (r, rt')" by (cases "check_health log_path w dev (rt s)")
  with runtime_ok_check [of "started_for s" "rt s" log_path w dev] assms(1)
  have "runtime_ok (started_for s) rt'" by (simp add: system_ok_def)
  moreover have "permit_ok (s\<lparr>rt := rt'\<rparr>)" using assms(1) by (simp add: system_ok_def permit_ok_rt)
  ultimately show ?thesis
    using c assms(2,3) permit_ok_end [of "s\<lparr>rt := rt'\<rparr>" i a] permit_ok_goto [of "s\<lparr>rt := rt'\<rparr>" i a p]
    by (cases r) (simp_all add: checked_def system_ok_def)
qed

lemma system_ok_addressed:
  assumes "system_ok s" and "attempts s i = Some a" and "permit_holder s = Some (AttemptHolds i)"
  shows "system_ok (addressed k w bound log spawn i dev s)"
proof -
  obtain r rt' where c: "server_address k w bound log spawn dev (rt s) = (r, rt')"
    by (cases "server_address k w bound log spawn dev (rt s)")
  define owner where "owner = (\<lambda>c. if c < next_child rt' \<and> next_child (rt s) \<le> c then Some dev else started_for s c)"
  have ro: "runtime_ok owner rt'"
    using runtime_ok_address [OF _ c owner_def] assms(1) by (simp add: system_ok_def)
  show ?thesis
  proof (cases r)
    case (Inl e)
    then have "next_child rt' = next_child (rt s)"
      using c by (auto simp: server_address_def check_master_def Let_def split: sum.splits option.splits if_splits)
    then have "owner = started_for s" by (auto simp: owner_def fun_eq_iff)
    with ro c Inl assms permit_ok_end [of "s\<lparr>rt := rt'\<rparr>" i a] show ?thesis
      by (simp add: addressed_def system_ok_def permit_ok_rt)
  next
    case (Inr port)
    with ro c assms permit_ok_goto [of "s\<lparr>rt := rt', started_for := owner\<rparr>" i a "Polling port"] show ?thesis
      by (simp add: addressed_def system_ok_def permit_ok_rt holds_permit_def owner_def)
  qed
qed

lemma permit_of':
  assumes "system_ok s" and "attempts s i = Some a"
  shows "holds_permit (phase a) = (permit_holder s = Some (AttemptHolds i))"
proof -
  from assms(1) have "uses s (AttemptHolds i) = (permit_holder s = Some (AttemptHolds i))"
    unfolding system_ok_def permit_ok_def by blast
  with assms(2) show ?thesis by (simp add: uses_def)
qed

lemma permit_of:
  "system_ok s \<Longrightarrow> attempts s i = Some \<lparr>who = dev, phase = p\<rparr> \<Longrightarrow> holds_permit p = (permit_holder s = Some (AttemptHolds i))"
  using permit_of' [of s i "\<lparr>who = dev, phase = p\<rparr>"] by simp

lemma query_attempts [simp]: "attempts (query_check p w q dev s) = attempts s" "attempts (query_look q dev s) = attempts s"
  "attempts (query_end q r s) = attempts s"
  by (auto simp: query_check_def query_look_def query_end_def Let_def split: sum.split prod.split)

lemma permit_ok_inquiry:
  assumes "permit_ok s" and "\<not> uses s (QueryHolds q)" and "\<And>dev. x \<noteq> Some (Looked dev True)"
  shows "permit_ok (s\<lparr>queries := (queries s)(q := x)\<rparr>)"
  using assms by (auto simp: permit_ok_def uses_inquiry split: option.split inquiry.split)

lemma system_ok_query:
  assumes "system_ok s" and "queries s q = None"
  shows "system_ok (query_check log_path w q dev s)"
proof -
  obtain r rt' where c: "check_health log_path w dev (rt s) = (r, rt')" by (cases "check_health log_path w dev (rt s)")
  with runtime_ok_check [of "started_for s" "rt s" log_path w dev] assms(1) have r: "runtime_ok (started_for s) rt'"
    by (simp add: system_ok_def)
  have "permit_ok (s\<lparr>rt := rt'\<rparr>)" using assms(1) by (simp add: system_ok_def permit_ok_rt)
  then have "permit_ok ((s\<lparr>rt := rt'\<rparr>)\<lparr>queries := (queries (s\<lparr>rt := rt'\<rparr>))(q := Some (Asked dev))\<rparr>)"
    by (rule permit_ok_inquiry) (simp_all add: uses_def assms(2))
  with assms c r show ?thesis by (cases r) (simp_all add: query_check_def system_ok_def permit_ok_rt)
qed

lemma system_ok_look:
  assumes "system_ok s" and "queries s q = Some (Asked dev)"
  shows "system_ok (query_look q dev s)"
proof -
  have "\<not> uses s (QueryHolds q)" using assms(2) by (simp add: uses_def)
  with assms(1) show ?thesis
    by (auto simp: system_ok_def permit_ok_def query_look_def Let_def uses_inquiry)
qed

lemma system_ok_query_end:
  assumes "system_ok s" and "runtime_ok (started_for s) r"
  shows "system_ok (query_end q r s)"
proof -
  have u: "uses (query_end q r s) h = (h \<noteq> QueryHolds q \<and> uses s h)" for h
    by (simp add: query_end_def uses_def split: holder.split)
  have e: "uses s h = (permit_holder s = Some h)" for h using assms(1) by (simp add: system_ok_def permit_ok_def)
  have "uses (query_end q r s) h = (permit_holder (query_end q r s) = Some h)" for h
    unfolding u e by (auto simp: query_end_def)
  moreover have "rt (query_end q r s) = r" "started_for (query_end q r s) = started_for s" by (simp_all add: query_end_def)
  ultimately show ?thesis using assms(2) by (simp add: system_ok_def permit_ok_def)
qed

lemma system_ok_step: "worker_step k s t \<Longrightarrow> system_ok s \<Longrightarrow> system_ok t"
proof (induction rule: worker_step.induct)
  case (reauthorize s m)
  then show ?case by (simp add: system_ok_def permit_ok_rt runtime_ok_authorize)
next
  case (query s q w dev)
  then show ?case by (intro system_ok_query)
next
  case (look s q dev)
  then show ?case by (intro system_ok_look)
next
  case (answer s q dev free w)
  then show ?case by (intro system_ok_query_end) (simp_all add: system_ok_def runtime_ok_check)
next
  case (helper_failed s q dev)
  then show ?case by (intro system_ok_query_end) (simp_all add: system_ok_def)
next
  case (arrive s i dev)
  then have "\<not> uses s (AttemptHolds i)" by (simp add: uses_def)
  with arrive show ?case by (auto simp: system_ok_def permit_ok_def uses_attempt holds_permit_def)
next
  case (check s i dev w)
  with permit_of [OF check(2,1)] show ?case by (intro system_ok_checked) (simp_all add: holds_permit_def)
next
  case (acquire s i dev)
  then show ?case
    by (auto simp: system_ok_def permit_ok_def holds_permit_def uses_goto)
next
  case (busy s i dev)
  then show ?case by (simp add: system_ok_def permit_ok_end)
next
  case (recheck s i dev w)
  with permit_of [OF recheck(2,1)] show ?case by (intro system_ok_checked) (simp_all add: holds_permit_def)
next
  case (address s i dev w bound log spawn)
  with permit_of [OF address(2,1)] show ?case by (intro system_ok_addressed) (simp_all add: holds_permit_def)
next
  case (poll s i dev port w)
  with permit_of [OF poll(2,1)] show ?case by (intro system_ok_checked) (simp_all add: holds_permit_def)
next
  case (not_ready s i dev port)
  with permit_of [OF not_ready(2,1)] show ?case by (simp add: system_ok_def permit_ok_goto holds_permit_def)
next
  case (ready s i dev port w)
  with permit_of [OF ready(2,1)] show ?case by (intro system_ok_checked) (simp_all add: holds_permit_def)
next
  case (give_up s i dev port why)
  then show ?case by (simp add: system_ok_def permit_ok_end)
next
  case (cancel s i a)
  then show ?case by (simp add: system_ok_def permit_ok_end)
next
  case (session_end s i dev port)
  then show ?case by (simp add: system_ok_def permit_ok_end)
qed

lemma system_ok_reachable: "worker_reachable k s \<Longrightarrow> system_ok s"
proof (induction rule: worker_reachable.induct)
  case start
  then show ?case by (simp add: system_ok_def new_system_def new_runtime_def runtime_ok_def permit_ok_def uses_def split: holder.split)
qed (rule system_ok_step)


lemma became_serving:
  assumes "worker_step k s t" and "attempts t i = Some a" and "phase a = Serving port"
    and "attempts s i \<noteq> Some a"
  shows "master (rt s) = Some (who a) \<and> rt t = rt s"
  using assms
proof (induction rule: worker_step.induct)
  case (ready s j dev port' w)
  then show ?case
    by (cases "check_health (rpc_log k) w dev (rt s)")
      (auto simp: checked_def goto_def end_attempt_def Let_def split: sum.splits if_splits
        dest!: check_health_master)
qed (auto simp: checked_def addressed_def goto_def end_attempt_def Let_def holds_permit_def
      split: if_splits sum.splits prod.splits)

lemma worker_steps: "worker_reachable k s \<Longrightarrow> worker_step k s t \<Longrightarrow> t = u \<Longrightarrow> worker_reachable k u"
  by (auto intro: worker_reachable.step)

section \<open>A run\<close>

text \<open>One device is named master, connects and is served; the states of the run from the moment its port is dialled.\<close>

definition run_worker :: worker where
  "run_worker = \<lparr>engine_dir = ''/e'', own_device = \<lparr>gpu_name = ''gpu'', description = ''gpu'', gpu_kind = ''gpu'',
     total_memory = 8, free_memory = 8\<rparr>, worker_dir = ''/d''\<rparr>"

definition run_dialling :: system where
  "run_dialling = \<lparr>rt = \<lparr>master = Some (DeviceId [1]), gpu_server = Some \<lparr>child = 0, address = 5000\<rparr>, running = {0}, next_child = 1\<rparr>,
     attempts = [0 \<mapsto> \<lparr>who = DeviceId [1], phase = Dialling 5000\<rparr>], queries = Map.empty, permit_holder = Some (AttemptHolds 0),
     started_for = (\<lambda>c. if c = 0 then Some (DeviceId [1]) else None)\<rparr>"

definition run_serving :: system where
  "run_serving = run_dialling\<lparr>attempts := [0 \<mapsto> \<lparr>who = DeviceId [1], phase = Serving 5000\<rparr>]\<rparr>"

lemma run_dialling_reachable: "worker_reachable run_worker run_dialling"
proof -
  let ?d = "DeviceId [1]" and ?w = "(\<lambda>_. Inr None) :: waiter"
  let ?rt = "\<lparr>master = Some ?d, gpu_server = None, running = {}, next_child = 0\<rparr>"
  let ?s = "\<lambda>p h. \<lparr>rt = ?rt, attempts = [0 \<mapsto> \<lparr>who = ?d, phase = p\<rparr>], queries = Map.empty, permit_holder = h, started_for = (\<lambda>_. None)\<rparr>"
  note eval = new_system_def new_runtime_def authorize_def stop_server_def check_health_def check_master_def
    checked_def goto_def addressed_def server_address_def run_dialling_def fun_eq_iff
  have "worker_reachable run_worker (new_system\<lparr>rt := ?rt\<rparr>)"
    by (rule worker_steps [OF worker_reachable.start worker_step.reauthorize [where m = "Some ?d"]]) (simp add: eval)
  then have "worker_reachable run_worker (?s Checking None)"
    by (rule worker_steps [OF _ worker_step.arrive [where i = 0 and dev = ?d]]) (simp_all add: eval)
  then have "worker_reachable run_worker (?s Waiting None)"
    by (rule worker_steps [OF _ worker_step.check [where i = 0 and dev = ?d and w = ?w]]) (simp_all add: eval)
  then have "worker_reachable run_worker (?s Rechecking (Some (AttemptHolds 0)))"
    by (rule worker_steps [OF _ worker_step.acquire [where i = 0 and dev = ?d]]) (simp_all add: eval)
  then have "worker_reachable run_worker (?s Addressing (Some (AttemptHolds 0)))"
    by (rule worker_steps [OF _ worker_step.recheck [where i = 0 and dev = ?d and w = ?w]]) (simp_all add: eval)
  then have "worker_reachable run_worker (run_dialling\<lparr>attempts := [0 \<mapsto> \<lparr>who = ?d, phase = Polling 5000\<rparr>]\<rparr>)"
    by (rule worker_steps [OF _ worker_step.address [where i = 0 and dev = ?d and w = ?w and bound = "Inr 5000"
        and log = "Inr ()" and spawn = "\<lambda>_. Inr ()"]]) (simp_all add: eval)
  then show ?thesis
    by (rule worker_steps [OF _ worker_step.poll [where i = 0 and dev = ?d and w = ?w and port = 5000]]) (simp_all add: eval)
qed

lemma run_serving_step: "worker_step run_worker run_dialling run_serving"
proof -
  have "checked (rpc_log run_worker) (\<lambda>_. Inr None) 0 (DeviceId [1]) (Serving 5000) run_dialling = run_serving"
    by (simp add: run_dialling_def run_serving_def checked_def check_health_def check_master_def goto_def)
  then show ?thesis
    using worker_step.ready [of run_dialling 0 "DeviceId [1]" 5000 run_worker "\<lambda>_. Inr None"] by (simp add: run_dialling_def)
qed

lemma run_serving_reachable: "worker_reachable run_worker run_serving"
  using run_dialling_reachable run_serving_step by (rule worker_reachable.step)

section \<open>Properties\<close>

text \<open>C2: In every reachable state of the worker, whatever connection attempts, capability queries and
  changes of master have happened in whatever order, at most one inference process is running; when one
  is, it is the recorded server's and it was started for the device that is the registered master now.\<close>

theorem child_belongs_to_master:
  assumes "worker_reachable k s"
  shows "running (rt s) = {} \<or>
    (\<exists>srv m. gpu_server (rt s) = Some srv \<and> running (rt s) = {child srv} \<and> master (rt s) = Some m \<and>
      started_for s (child srv) = Some m)"
  using system_ok_reachable [OF assms] by (auto simp: system_ok_def runtime_ok_def split: option.splits)

lemma child_belongs_to_master_witness:
  "running (rt run_serving) = {} \<or>
    (\<exists>srv m. gpu_server (rt run_serving) = Some srv \<and> running (rt run_serving) = {child srv} \<and>
      master (rt run_serving) = Some m \<and> started_for run_serving (child srv) = Some m)"
  by (rule child_belongs_to_master [OF run_serving_reachable])

text \<open>C38: The GPU has one user at a time and the permit is never lost. In every reachable state the users
  of the GPU (attempts past the permit: rechecking the master, starting the process, polling or dialling its
  port, serving; and queries that run the GPU helper) are exactly the holder of the permit: none when
  the permit is free, one when it is held.\<close>

theorem one_permit:
  assumes "worker_reachable k s"
  shows "{AttemptHolds i | i a. attempts s i = Some a \<and> holds_permit (phase a)} \<union>
    {QueryHolds q | q dev. queries s q = Some (Looked dev True)} = set_option (permit_holder s)"
proof -
  have "h \<in> {AttemptHolds i | i a. attempts s i = Some a \<and> holds_permit (phase a)} \<union>
      {QueryHolds q | q dev. queries s q = Some (Looked dev True)} \<longleftrightarrow> uses s h" for h
    by (cases h) (auto simp: uses_def split: option.split inquiry.split)
  moreover have "uses s h = (permit_holder s = Some h)" for h
    using system_ok_reachable [OF assms] by (simp add: system_ok_def permit_ok_def)
  ultimately show ?thesis by (intro set_eqI) (simp only: elem_set)
qed

lemma one_permit_witness:
  "{AttemptHolds i | i a. attempts run_serving i = Some a \<and> holds_permit (phase a)} \<union>
    {QueryHolds q | q dev. queries run_serving q = Some (Looked dev True)} = {AttemptHolds 0}"
  using one_permit [OF run_serving_reachable] by (simp add: run_serving_def run_dialling_def)

text \<open>C19: A session begins only for the device that is the registered master at that moment, on a live
  or absent process, and while its attempt holds the permit.\<close>

theorem serves_only_master:
  assumes "worker_reachable k s" and "worker_step k s t" and "attempts t i = Some a"
    and "phase a = Serving port" and "attempts s i \<noteq> Some a"
  shows "master (rt t) = Some (who a) \<and> permit_holder t = Some (AttemptHolds i)"
proof -
  have "master (rt t) = Some (who a)" using became_serving [OF assms(2-5)] by simp
  moreover have "system_ok t" using assms(1,2) by (blast intro: system_ok_reachable worker_reachable.step)
  moreover have "holds_permit (phase a)" using assms(4) by (simp add: holds_permit_def)
  ultimately show ?thesis using permit_of' assms(3) by blast
qed

lemma serves_only_master_witness:
  "master (rt run_serving) = Some (DeviceId [1]) \<and> permit_holder run_serving = Some (AttemptHolds 0)"
  using serves_only_master [OF run_dialling_reachable run_serving_step, of 0 "\<lparr>who = DeviceId [1], phase = Serving 5000\<rparr>" 5000]
  by (simp add: run_serving_def run_dialling_def)

text \<open>Naming another master, or none, ends the old one's process at once: right after the change no
  inference process runs and no server is recorded, and naming the same master again changes nothing.\<close>

theorem reauthorize_kills:
  assumes "worker_reachable k s"
  shows "if m = master (rt s) then authorize m (rt s) = rt s
    else running (authorize m (rt s)) = {} \<and> gpu_server (authorize m (rt s)) = None \<and> master (authorize m (rt s)) = m"
  using system_ok_reachable [OF assms] by (auto simp: authorize_def system_ok_def runtime_ok_stopped)

lemma reauthorize_kills_witness:
  "running (authorize None (rt run_serving)) = {} \<and> gpu_server (authorize None (rt run_serving)) = None \<and>
    master (authorize None (rt run_serving)) = None"
  using reauthorize_kills [OF run_serving_reachable, of None] by (simp add: run_serving_def run_dialling_def)

text \<open>What the GPU helper prints is bounded and not reordered: when its output ends, the first
  mebibyte of it, and nothing else, has been kept, in whatever chunks it arrived.\<close>

theorem drain_keeps_prefix:
  assumes "\<forall>c \<in> set cs. c \<noteq> []"
  shows "drain [] (map Inr cs @ Inr [] # rs) = Inr (take MAX_OUTPUT (concat cs)) \<and>
    drain [] (map Inr cs @ Inl e # rs) = Inl e"
proof -
  have "drain out (map Inr cs @ Inl e # rs) = Inl e" for out
    using assms by (induction cs arbitrary: out) simp_all
  with drain_prefix [of "[]" cs] assms show ?thesis by simp
qed

lemma drain_keeps_prefix_witness:
  "drain [] [Inr [1, 2], Inr [3], Inr []] = Inr [1, 2, 3] \<and>
     drain [] [Inr [1, 2], Inr [3], Inl ''closed''] = Inl ''closed''"
  using drain_keeps_prefix [of "[[1, 2], [3]]" "[]" "''closed''"] by (simp add: MAX_OUTPUT_def)

end
