(* ===== verification/Activation_Stream.thy ===== *)
theory Activation_Stream
  imports Transport Abi
begin

text \<open>
  \<open>crates/lattice-net/src/activation.rs\<close>: one session's steps across a shard boundary. The
  serialisation (\<open>postcard\<close>) is a pair of functions; what the code relies on is that decoding
  inverts encoding (\<open>postcard_law\<close>). The shard behind the stream is any \<open>executor\<close>; the
  interface asks that dropping a session twice is dropping it once, because the stream drops its
  session when it ends however it ends. \<open>remote_transparent\<close> shows that a conversation over the
  stream gives the answers the executor gives when it is called directly.
\<close>

section \<open>Serialisation\<close>

record 'm postcard =
  to_bytes :: "'m \<Rightarrow> string + bytes"
  of_bytes :: "bytes \<Rightarrow> string + 'm"

definition postcard_law :: "'m postcard \<Rightarrow> bool" where
  "postcard_law k \<longleftrightarrow> (\<forall>m bs. to_bytes k m = Inr bs \<longrightarrow> of_bytes k bs = Inr m)"

definition encode_msg :: "'m postcard \<Rightarrow> 'm \<Rightarrow> net_error + bytes" where
  "encode_msg k m = map_err Postcard (to_bytes k m)"

definition decode_msg :: "'m postcard \<Rightarrow> bytes \<Rightarrow> net_error + 'm" where
  "decode_msg k bs = map_err Postcard (of_bytes k bs)"

section \<open>The messages and the executor\<close>

definition MAX_ACTIVATION_FRAME :: nat where "MAX_ACTIVATION_FRAME = 536870912"

datatype step = PrefillStep nat payload | DecodeStep nat payload | Done

datatype step_result = Output payload | Failed string

locale executor =
  fixes exec :: "'x \<Rightarrow> u64 \<Rightarrow> step \<Rightarrow> (string + payload) \<times> 'x"
    and discard :: "'x \<Rightarrow> u64 \<Rightarrow> 'x"
  assumes discard_idem: "discard (discard x i) i = discard x i"

text \<open>A device that holds no layers.\<close>

definition no_shards_run :: "unit \<Rightarrow> u64 \<Rightarrow> step \<Rightarrow> (string + payload) \<times> unit" where
  "no_shards_run x sid s = (Inl ''this device holds no shards'', x)"

definition no_shards_drop :: "unit \<Rightarrow> u64 \<Rightarrow> unit" where
  "no_shards_drop x sid = x"

interpretation no_shards: executor no_shards_run no_shards_drop
  by unfold_locales (simp add: no_shards_drop_def)

section \<open>The master's end\<close>

record remote_shard =
  remote_send :: tx
  remote_recv :: rx

definition activation_header :: "u64 \<Rightarrow> u32 \<Rightarrow> stream_header" where
  "activation_header i g = \<lparr>kind = Activation, session = i, generation = g\<rparr>"

definition remote_open :: "channel \<Rightarrow> u64 \<Rightarrow> u32 \<Rightarrow> net_error + remote_shard" where
  "remote_open ch i g =
     rbind (open_stream ch (activation_header i g)) (\<lambda>(send, recv). Inr \<lparr>remote_send = send, remote_recv = recv\<rparr>)"

fun shard_reply :: "step_result \<Rightarrow> net_error + payload" where
  "shard_reply (Output p) = Inr p"
| "shard_reply (Failed why) = Inl (Stream (''remote shard: '' @ why))"

definition remote_step ::
    "step postcard \<Rightarrow> step_result postcard \<Rightarrow> remote_shard \<Rightarrow> step \<Rightarrow> (net_error + payload) \<times> remote_shard" where
  "remote_step ks kr r s =
     (case encode_msg ks s of
        Inl e \<Rightarrow> (Inl e, r)
      | Inr bs \<Rightarrow>
          (case write_frame bs (remote_send r) of
             (Inl e, send) \<Rightarrow> (Inl e, r\<lparr>remote_send := send\<rparr>)
           | (Inr _, send) \<Rightarrow>
               (case read_frame MAX_ACTIVATION_FRAME (remote_recv r) of
                  Inl e \<Rightarrow> (Inl e, r\<lparr>remote_send := send\<rparr>)
                | Inr (bs, recv) \<Rightarrow>
                    (rbind (decode_msg kr bs) shard_reply, \<lparr>remote_send = send, remote_recv = recv\<rparr>))))"

text \<open>The message that ends a session is sent if it can be; the result is ignored.\<close>

definition remote_finish :: "step postcard \<Rightarrow> remote_shard \<Rightarrow> tx" where
  "remote_finish ks r =
     (let send = (case to_bytes ks Done of Inr bs \<Rightarrow> snd (write_frame bs (remote_send r)) | Inl _ \<Rightarrow> remote_send r)
      in snd (finish send))"

section \<open>The worker's end\<close>

definition reply :: "step_result postcard \<Rightarrow> step_result \<Rightarrow> tx \<Rightarrow> (net_error + unit) \<times> tx" where
  "reply kr r send =
     (case encode_msg kr r of Inl e \<Rightarrow> (Inl e, send) | Inr bs \<Rightarrow> write_frame bs send)"

definition result_of :: "string + payload \<Rightarrow> step_result" where
  "result_of r = (case r of Inr p \<Rightarrow> Output p | Inl why \<Rightarrow> Failed why)"

text \<open>Each turn of the loop takes a frame, at least four bytes, off the stream.\<close>

lemma read_frame_shorter: "read_frame n r = Inr (p, r') \<Longrightarrow> length (pending r') < length (pending r)"
  using read_frame_Inr [of n r p r'] by simp

function serve_loop ::
    "step postcard \<Rightarrow> step_result postcard \<Rightarrow> ('x \<Rightarrow> u64 \<Rightarrow> step \<Rightarrow> (string + payload) \<times> 'x) \<Rightarrow>
       u64 \<Rightarrow> 'x \<Rightarrow> tx \<Rightarrow> rx \<Rightarrow> 'x \<times> tx" where
  "serve_loop ks kr ex sid x send recv =
     (case read_frame MAX_ACTIVATION_FRAME recv of
        Inl _ \<Rightarrow> (x, send)
      | Inr (bs, recv) \<Rightarrow>
          (case of_bytes ks bs of
             Inl e \<Rightarrow> (x, snd (reply kr (Failed (''unintelligible: '' @ e)) send))
           | Inr s \<Rightarrow>
               if s = Done then (x, send)
               else (case ex x sid s of
                       (r, x) \<Rightarrow>
                         (case reply kr (result_of r) send of
                            (Inl _, send) \<Rightarrow> (x, send)
                          | (Inr _, send) \<Rightarrow> serve_loop ks kr ex sid x send recv))))"
  by pat_completeness auto
termination
  by (relation "measure (\<lambda>(ks, kr, ex, sid, x, send, recv). length (pending recv))")
    (auto dest: read_frame_shorter [OF sym] read_frame_shorter)

declare serve_loop.simps [simp del]

definition serve_stream ::
    "step postcard \<Rightarrow> step_result postcard \<Rightarrow> ('x \<Rightarrow> u64 \<Rightarrow> step \<Rightarrow> (string + payload) \<times> 'x) \<Rightarrow>
       ('x \<Rightarrow> u64 \<Rightarrow> 'x) \<Rightarrow> u64 \<Rightarrow> 'x \<Rightarrow> tx \<Rightarrow> rx \<Rightarrow> 'x \<times> tx" where
  "serve_stream ks kr ex dropper sid x send recv =
     (case serve_loop ks kr ex sid x send recv of (x, send) \<Rightarrow> (dropper x sid, send))"

context executor begin

lemma serve_drops:
  "discard (fst (serve_stream ks kr exec discard sid x send recv)) sid =
     fst (serve_stream ks kr exec discard sid x send recv)"
  by (simp add: serve_stream_def discard_idem split: prod.split)

end

section \<open>A conversation\<close>

text \<open>The answers of an executor called directly, and its state afterwards.\<close>

fun direct :: "('x \<Rightarrow> u64 \<Rightarrow> step \<Rightarrow> (string + payload) \<times> 'x) \<Rightarrow> u64 \<Rightarrow> 'x \<Rightarrow> step list \<Rightarrow> (string + payload) list \<times> 'x" where
  "direct ex sid x [] = ([], x)"
| "direct ex sid x (s # ss) =
     (case ex x sid s of (r, x) \<Rightarrow> case direct ex sid x ss of (rs, x) \<Rightarrow> (r # rs, x))"

fun remote_steps ::
    "step postcard \<Rightarrow> step_result postcard \<Rightarrow> remote_shard \<Rightarrow> step list \<Rightarrow> (net_error + payload) list \<times> remote_shard" where
  "remote_steps ks kr r [] = ([], r)"
| "remote_steps ks kr r (s # ss) =
     (case remote_step ks kr r s of (a, r) \<Rightarrow> case remote_steps ks kr r ss of (as, r) \<Rightarrow> (a # as, r))"

text \<open>A message that can be sent: it encodes, into a frame below the ceiling.\<close>

definition sendable :: "'m postcard \<Rightarrow> 'm \<Rightarrow> bool" where
  "sendable k m \<longleftrightarrow> (case to_bytes k m of Inl _ \<Rightarrow> False | Inr bs \<Rightarrow> length bs \<le> MAX_ACTIVATION_FRAME)"

definition msg_frame :: "'m postcard \<Rightarrow> 'm \<Rightarrow> bytes" where
  "msg_frame k m = (case to_bytes k m of Inr bs \<Rightarrow> frame bs | Inl _ \<Rightarrow> [])"

text \<open>A sending half the peer never stops taking bytes from.\<close>

definition open_tx :: "tx \<Rightarrow> bool" where
  "open_tx s \<longleftrightarrow> limit s = None \<and> \<not> finished s"

lemma write_sendable:
  assumes "sendable k m" and "open_tx s"
  obtains bs where "to_bytes k m = Inr bs" "length bs \<le> u32_max" "length bs \<le> MAX_ACTIVATION_FRAME"
    "write_frame bs s = (Inr (), s\<lparr>sent := sent s @ msg_frame k m\<rparr>)"
proof -
  from assms(1) obtain bs where bs: "to_bytes k m = Inr bs" "length bs \<le> MAX_ACTIVATION_FRAME"
    by (auto simp: sendable_def split: sum.splits)
  moreover have "length bs \<le> u32_max" using bs(2) by (simp add: MAX_ACTIVATION_FRAME_def)
  moreover have "accepts s (length (frame bs))" using assms(2) by (simp add: open_tx_def accepts_def)
  ultimately show thesis using that write_frame_sent by (simp add: msg_frame_def)
qed

lemma open_tx_sent [simp]: "open_tx (s\<lparr>sent := bs\<rparr>) = open_tx s"
  by (simp add: open_tx_def)

lemma read_msg_frame:
  assumes "postcard_law k" and "sendable k m" and "pending r = msg_frame k m @ rest"
  obtains bs where "read_frame MAX_ACTIVATION_FRAME r = Inr (bs, r\<lparr>pending := rest\<rparr>)" "of_bytes k bs = Inr m"
proof -
  from assms(2) obtain bs where bs: "to_bytes k m = Inr bs" "length bs \<le> MAX_ACTIVATION_FRAME"
    by (auto simp: sendable_def split: sum.splits)
  then have "read_frame MAX_ACTIVATION_FRAME r = Inr (bs, r\<lparr>pending := rest\<rparr>)"
    using assms(3) by (intro read_frame_frame) (simp_all add: msg_frame_def MAX_ACTIVATION_FRAME_def)
  with bs assms(1) show thesis using that by (simp add: postcard_law_def)
qed

lemma serve_loop_conversation:
  assumes "postcard_law ks" and "sendable ks Done"
  shows "\<forall>s \<in> set ss. s \<noteq> Done \<and> sendable ks s \<Longrightarrow> direct ex sid x ss = (rs, x') \<Longrightarrow>
    \<forall>r \<in> set rs. sendable kr (result_of r) \<Longrightarrow> open_tx send \<Longrightarrow>
    pending recv = concat (map (msg_frame ks) ss) @ msg_frame ks Done @ rest \<Longrightarrow>
    serve_loop ks kr ex sid x send recv =
      (x', send\<lparr>sent := sent send @ concat (map (\<lambda>r. msg_frame kr (result_of r)) rs)\<rparr>)"
proof (induction ss arbitrary: x rs send recv)
  case Nil
  from Nil.prems(5) have "pending recv = msg_frame ks Done @ rest" by simp
  from read_msg_frame [OF assms this] obtain bs where
    "read_frame MAX_ACTIVATION_FRAME recv = Inr (bs, recv\<lparr>pending := rest\<rparr>)" "of_bytes ks bs = Inr Done" .
  moreover have "rs = []" "x' = x" using Nil.prems(2) by simp_all
  ultimately show ?case by (simp add: serve_loop.simps [of ks kr ex sid x send recv])
next
  case (Cons s ss)
  obtain r x1 where r: "ex x sid s = (r, x1)" by (cases "ex x sid s")
  obtain rs1 where rs: "direct ex sid x1 ss = (rs1, x')" "rs = r # rs1"
    using Cons.prems(2) r by (auto split: prod.splits)
  define recv1 where "recv1 = recv\<lparr>pending := concat (map (msg_frame ks) ss) @ msg_frame ks Done @ rest\<rparr>"
  have p: "pending recv = msg_frame ks s @ (concat (map (msg_frame ks) ss) @ msg_frame ks Done @ rest)"
    using Cons.prems(5) by simp
  have s: "sendable ks s" "s \<noteq> Done" using Cons.prems(1) by simp_all
  from read_msg_frame [OF assms(1) s(1) p] obtain bs where
    bs: "read_frame MAX_ACTIVATION_FRAME recv = Inr (bs, recv1)" "of_bytes ks bs = Inr s"
    by (auto simp: recv1_def)
  have "sendable kr (result_of r)" using Cons.prems(3) rs(2) by simp
  from write_sendable [OF this Cons.prems(4)] obtain rb where
    "to_bytes kr (result_of r) = Inr rb"
    "write_frame rb send = (Inr (), send\<lparr>sent := sent send @ msg_frame kr (result_of r)\<rparr>)" .
  then have reply: "reply kr (result_of r) send = (Inr (), send\<lparr>sent := sent send @ msg_frame kr (result_of r)\<rparr>)"
    by (simp add: reply_def encode_msg_def)
  have "serve_loop ks kr ex sid x1 (send\<lparr>sent := sent send @ msg_frame kr (result_of r)\<rparr>) recv1 =
      (x', send\<lparr>sent := sent send @ concat (map (\<lambda>r. msg_frame kr (result_of r)) rs)\<rparr>)"
    using Cons.IH [OF _ rs(1), of "send\<lparr>sent := sent send @ msg_frame kr (result_of r)\<rparr>" recv1] Cons.prems(1,3,4) rs(2)
    by (simp add: recv1_def)
  with bs s(2) r reply show ?case
    by (simp add: serve_loop.simps [of ks kr ex sid x send recv])
qed

lemma remote_step_sent:
  assumes "sendable ks s" and "open_tx (remote_send r)"
  shows "remote_send (snd (remote_step ks kr r s)) = (remote_send r)\<lparr>sent := sent (remote_send r) @ msg_frame ks s\<rparr>"
proof -
  from write_sendable [OF assms] obtain bs where "to_bytes ks s = Inr bs"
    "write_frame bs (remote_send r) = (Inr (), (remote_send r)\<lparr>sent := sent (remote_send r) @ msg_frame ks s\<rparr>)" .
  then show ?thesis by (simp add: remote_step_def encode_msg_def split: sum.split prod.split)
qed

lemma remote_steps_sent:
  "\<forall>s \<in> set ss. sendable ks s \<Longrightarrow> open_tx (remote_send r) \<Longrightarrow>
   remote_send (snd (remote_steps ks kr r ss)) =
     (remote_send r)\<lparr>sent := sent (remote_send r) @ concat (map (msg_frame ks) ss)\<rparr>"
proof (induction ss arbitrary: r)
  case (Cons s ss)
  obtain a r1 where a: "remote_step ks kr r s = (a, r1)" by (cases "remote_step ks kr r s")
  with remote_step_sent [of ks s r kr] Cons.prems
  have r1: "remote_send r1 = (remote_send r)\<lparr>sent := sent (remote_send r) @ msg_frame ks s\<rparr>" by simp
  with Cons.IH [of r1] Cons.prems a show ?case by (simp add: prod.case_eq_if)
qed simp

text \<open>Everything the master writes after the header: its steps, and that the session is over.\<close>

lemma remote_finish_sent:
  assumes "\<forall>s \<in> set ss. sendable ks s" and "sendable ks Done" and "open_tx (remote_send r)"
  shows "sent (remote_finish ks (snd (remote_steps ks kr r ss))) =
    sent (remote_send r) @ concat (map (msg_frame ks) ss) @ msg_frame ks Done"
proof -
  let ?r = "snd (remote_steps ks kr r ss)"
  have s: "remote_send ?r = (remote_send r)\<lparr>sent := sent (remote_send r) @ concat (map (msg_frame ks) ss)\<rparr>"
    by (rule remote_steps_sent [OF assms(1,3)])
  then have "open_tx (remote_send ?r)" using assms(3) by simp
  from write_sendable [OF assms(2) this] obtain bs where "to_bytes ks Done = Inr bs"
    "write_frame bs (remote_send ?r) = (Inr (), (remote_send ?r)\<lparr>sent := sent (remote_send ?r) @ msg_frame ks Done\<rparr>)" .
  with assms(3) s show ?thesis by (simp add: remote_finish_def finish_def open_tx_def)
qed

lemma remote_steps_answers:
  assumes "postcard_law kr"
  shows "\<forall>s \<in> set ss. sendable ks s \<Longrightarrow> open_tx (remote_send r) \<Longrightarrow> length rs = length ss \<Longrightarrow>
   \<forall>r \<in> set rs. sendable kr (result_of r) \<Longrightarrow>
   pending (remote_recv r) = concat (map (\<lambda>r. msg_frame kr (result_of r)) rs) @ rest \<Longrightarrow>
   fst (remote_steps ks kr r ss) = map (\<lambda>r. shard_reply (result_of r)) rs"
proof (induction ss arbitrary: r rs)
  case (Cons s ss)
  from Cons.prems(3) obtain a rs1 where rs: "rs = a # rs1" "length rs1 = length ss" by (cases rs) auto
  define recv1 where "recv1 = (remote_recv r)\<lparr>pending := concat (map (\<lambda>r. msg_frame kr (result_of r)) rs1) @ rest\<rparr>"
  have "sendable ks s" using Cons.prems(1) by simp
  from write_sendable [OF this Cons.prems(2)] obtain bs where w: "to_bytes ks s = Inr bs"
    "write_frame bs (remote_send r) = (Inr (), (remote_send r)\<lparr>sent := sent (remote_send r) @ msg_frame ks s\<rparr>)" .
  have "pending (remote_recv r) = msg_frame kr (result_of a) @ (concat (map (\<lambda>r. msg_frame kr (result_of r)) rs1) @ rest)"
    and sa: "sendable kr (result_of a)"
    using Cons.prems(4,5) rs(1) by simp_all
  from read_msg_frame [OF assms sa this(1)] obtain rb where
    rb: "read_frame MAX_ACTIVATION_FRAME (remote_recv r) = Inr (rb, recv1)" "of_bytes kr rb = Inr (result_of a)"
    by (auto simp: recv1_def)
  let ?r1 = "\<lparr>remote_send = (remote_send r)\<lparr>sent := sent (remote_send r) @ msg_frame ks s\<rparr>, remote_recv = recv1\<rparr>"
  have "remote_step ks kr r s = (shard_reply (result_of a), ?r1)"
    using w rb by (simp add: remote_step_def encode_msg_def decode_msg_def)
  with Cons.IH [of ?r1 rs1] Cons.prems rs show ?case by (simp add: recv1_def prod.case_eq_if)
qed simp

lemma direct_length: "direct ex sid x ss = (rs, x') \<Longrightarrow> length rs = length ss"
  by (induction ss arbitrary: x rs) (auto split: prod.splits)

section \<open>Properties\<close>

text \<open>Executing remotely is executing locally. When the worker serves exactly the bytes the master
  writes, and the master reads exactly the bytes the worker writes, the master sees for every step
  what the executor answers when it is called directly (a failure as an error naming the remote
  shard), in order, and the session is dropped at the end.\<close>

theorem remote_transparent:
  assumes "postcard_law ks" and "postcard_law kr" and "sendable ks Done"
    and "\<forall>s \<in> set ss. s \<noteq> Done \<and> sendable ks s" and "direct ex sid x ss = (rs, x')"
    and "\<forall>r \<in> set rs. sendable kr (result_of r)"
    and "open_tx (remote_send r)" and "sent (remote_send r) = []" and "open_tx send" and "sent send = []"
    and "pending recv = sent (remote_finish ks (snd (remote_steps ks kr r ss)))"
    and "pending (remote_recv r) = sent (snd (serve_stream ks kr ex discard sid x send recv))"
  shows "fst (remote_steps ks kr r ss) = map (\<lambda>r. shard_reply (result_of r)) rs \<and>
    fst (serve_stream ks kr ex discard sid x send recv) = discard x' sid"
proof -
  have "pending recv = concat (map (msg_frame ks) ss) @ msg_frame ks Done @ []"
    using remote_finish_sent [OF _ assms(3,7), of ss kr] assms(4,8,11) by simp
  from serve_loop_conversation [OF assms(1,3,4,5,6,9) this] assms(10,12)
  have "pending (remote_recv r) = concat (map (\<lambda>r. msg_frame kr (result_of r)) rs) @ []"
    and fin: "fst (serve_stream ks kr ex discard sid x send recv) = discard x' sid"
    by (simp_all add: serve_stream_def)
  with remote_steps_answers [OF assms(2), of ss ks r rs "[]"] assms(4,6,7) direct_length [OF assms(5)] show ?thesis by simp
qed

definition example_steps :: "step postcard" where
  "example_steps = \<lparr>to_bytes = \<lambda>s. if s = PrefillStep 0 (Tokens []) then Inr [0] else if s = Done then Inr [1] else Inl ''size'',
     of_bytes = \<lambda>bs. if bs = [0] then Inr (PrefillStep 0 (Tokens [])) else if bs = [1] then Inr Done else Inl ''bad''\<rparr>"

definition example_results :: "step_result postcard" where
  "example_results = \<lparr>to_bytes = \<lambda>s. if s = Output (Logits []) then Inr [0] else Inl ''size'',
     of_bytes = \<lambda>bs. if bs = [0] then Inr (Output (Logits [])) else Inl ''bad''\<rparr>"

definition example_tx :: tx where
  "example_tx = \<lparr>sent = [], limit = None, finished = False, tx_fault = []\<rparr>"

lemma example_codecs: "postcard_law example_steps" "postcard_law example_results"
  by (auto simp: postcard_law_def example_steps_def example_results_def split: if_splits)

theorem remote_transparent_witness:
  "fst (remote_steps example_steps example_results
     \<lparr>remote_send = example_tx, remote_recv = \<lparr>pending = frame [0], rx_fault = []\<rparr>\<rparr> [PrefillStep 0 (Tokens [])]) =
   [Inr (Logits [])]"
proof -
  let ?ex = "\<lambda>(x :: nat) (i :: u64) (s :: step). (Inr (Logits []) :: string + payload, x + 1)"
  let ?r = "\<lparr>remote_send = example_tx, remote_recv = \<lparr>pending = frame [0], rx_fault = []\<rparr>\<rparr>"
  let ?ss = "[PrefillStep 0 (Tokens [])]"
  let ?recv = "\<lparr>pending = frame [0] @ frame [1], rx_fault = []\<rparr>"
  have ok: "sendable example_steps Done" "\<forall>s \<in> set ?ss. s \<noteq> Done \<and> sendable example_steps s"
    "\<forall>r \<in> set [Inr (Logits [])]. sendable example_results (result_of r)"
    by (simp_all add: sendable_def example_steps_def example_results_def result_of_def MAX_ACTIVATION_FRAME_def)
  have tx: "open_tx example_tx" "sent example_tx = []" by (simp_all add: open_tx_def example_tx_def)
  have fr: "msg_frame example_steps (PrefillStep 0 (Tokens [])) = frame [0]" "msg_frame example_steps Done = frame [1]"
    "msg_frame example_results (Output (Logits [])) = frame [0]"
    by (simp_all add: msg_frame_def example_steps_def example_results_def)
  have d: "direct ?ex 1 0 ?ss = ([Inr (Logits [])], 1)" by simp
  have s: "sent (remote_finish example_steps (snd (remote_steps example_steps example_results ?r ?ss))) = frame [0] @ frame [1]"
    using remote_finish_sent [OF _ ok(1), of ?ss ?r example_results] ok(2) tx fr by simp
  have "pending ?recv = concat (map (msg_frame example_steps) ?ss) @ msg_frame example_steps Done @ []" using fr by simp
  from serve_loop_conversation [OF example_codecs(1) ok(1) ok(2) d ok(3) tx(1) this]
  have w: "sent (snd (serve_stream example_steps example_results ?ex (\<lambda>x i. 0) 1 0 example_tx ?recv)) = frame [0]"
    using tx fr by (simp add: serve_stream_def result_of_def)
  from remote_transparent [OF example_codecs ok(1) ok(2) d ok(3), of ?r example_tx ?recv "\<lambda>x i. 0"] tx s w show ?thesis
    by (simp add: result_of_def)
qed

end
