(* ===== verification/Control.thy ===== *)
theory Control
  imports Activation_Stream Transport Trust Gpu_Device
begin

text \<open>
  \<open>crates/lattice-net/src/control.rs\<close>: requests and responses, each exchange on a stream of its
  own. The handler is any \<open>control_handler\<close>; the interface asks that a greeting changes nothing,
  since \<open>Hello\<close> is the liveness check. A handler that panics is a \<open>None\<close>. The lemmas follow one
  exchange through both ends.
\<close>

definition MAX_CONTROL_FRAME :: nat where "MAX_CONTROL_FRAME = 65536"

section \<open>Messages\<close>

record introduction =
  intro_key :: bytes
  intro_name :: string
  intro_platform :: string

datatype request =
    Hello
  | Provision "introduction list"
  | LoadShard shard_spec
  | RegisterWorker nat
  | InferenceInfo

datatype response =
    IdentityIs device_id string string
  | Provisioned nat nat
  | ShardLoaded nat nat
  | Refused string
  | WorkerRegistered
  | InferenceInfoIs engine_capabilities

definition introduction_of :: "paired_peer \<Rightarrow> introduction" where
  "introduction_of p = \<lparr>intro_key = public_key p, intro_name = name p, intro_platform = platform p\<rparr>"

text \<open>\<open>valid_key\<close> is the point check of \<open>ed25519-dalek\<close>: it returns the same bytes or an error.\<close>

definition into_peer ::
    "(bytes \<Rightarrow> bytes) \<Rightarrow> nat \<Rightarrow> (bytes \<Rightarrow> string + bytes) \<Rightarrow> introduction \<Rightarrow> device_id \<Rightarrow> net_error + paired_peer" where
  "into_peer sha256 now valid_key i by_id =
     rbind (map_err (\<lambda>e. Certificate (''introduced key is unusable: '' @ e)) (valid_key (intro_key i))) (\<lambda>key.
     Inr (introduced_peer sha256 now key (intro_name i) (intro_platform i) by_id))"

section \<open>The two ends of an exchange\<close>

text \<open>The requester; the bytes it sent are returned beside its result.\<close>

definition control_request ::
    "request postcard \<Rightarrow> response postcard \<Rightarrow> channel \<Rightarrow> request \<Rightarrow> (net_error + response) \<times> bytes" where
  "control_request kq kr ch q =
     (case open_stream ch control_header of
        Inl e \<Rightarrow> (Inl e, [])
      | Inr (send, recv) \<Rightarrow>
          (case encode_msg kq q of
             Inl e \<Rightarrow> (Inl e, sent send)
           | Inr bs \<Rightarrow>
               (case write_frame bs send of
                  (Inl e, send) \<Rightarrow> (Inl e, sent send)
                | (Inr _, send) \<Rightarrow>
                    (case finish send of
                       (Inl e, send) \<Rightarrow> (Inl (Stream (''finishing a control request: '' @ e)), sent send)
                     | (Inr _, send) \<Rightarrow>
                         (rbind (read_frame MAX_CONTROL_FRAME recv) (\<lambda>(bs, _). decode_msg kr bs), sent send)))))"

type_synonym 'h handler = "'h \<Rightarrow> device_id \<Rightarrow> request \<Rightarrow> response option \<times> 'h"

definition control_answer ::
    "request postcard \<Rightarrow> response postcard \<Rightarrow> 'h handler \<Rightarrow> device_id \<Rightarrow> 'h \<Rightarrow> tx \<Rightarrow> rx \<Rightarrow>
       (net_error + unit) \<times> 'h \<times> tx" where
  "control_answer kq kr handle dev h send recv =
     (case read_frame MAX_CONTROL_FRAME recv of
        Inl e \<Rightarrow> (Inl e, h, send)
      | Inr (bs, _) \<Rightarrow>
          (case (case of_bytes kq bs of
                   Inr q \<Rightarrow> handle h dev q
                 | Inl e \<Rightarrow> (Some (Refused (''unintelligible request: '' @ e)), h)) of
             (None, h) \<Rightarrow> (Inl (Stream ''control handler failed: task panicked''), h, send)
           | (Some r, h) \<Rightarrow>
               (case encode_msg kr r of
                  Inl e \<Rightarrow> (Inl e, h, send)
                | Inr bs \<Rightarrow>
                    (case write_frame bs send of
                       (Inl e, send) \<Rightarrow> (Inl e, h, send)
                     | (Inr _, send) \<Rightarrow>
                         (case finish send of
                            (r, send) \<Rightarrow> (map_err (\<lambda>e. Stream (''finishing a control response: '' @ e)) r, h, send))))))"

text \<open>The handler of an endpoint that takes no instructions.\<close>

definition refuse_control :: "unit handler" where
  "refuse_control h dev q = (Some (Refused ''this device takes no control requests''), h)"

section \<open>The interface of a handler\<close>

locale control_handler =
  fixes handle :: "'h handler"
  assumes hello_answered: "fst (handle h dev Hello) \<noteq> None"
    and hello_pure: "snd (handle h dev Hello) = h"
begin

text \<open>A liveness check and a message nobody can read leave the device as it was, whatever happens
  to the stream.\<close>

lemma answer_pure:
  assumes "read_frame MAX_CONTROL_FRAME recv = Inr (bs, recv')"
    and "of_bytes kq bs = Inr Hello \<or> of_bytes kq bs = Inl e"
  shows "fst (snd (control_answer kq kr handle dev h send recv)) = h"
proof -
  obtain r where "handle h dev Hello = (Some r, h)"
    using hello_answered [of h dev] hello_pure [of h dev] by (cases "handle h dev Hello") auto
  with assms show ?thesis by (auto simp: control_answer_def prod.case_eq_if split: sum.split)
qed

end

interpretation refusing: control_handler refuse_control
  by unfold_locales (simp_all add: refuse_control_def)

section \<open>One exchange\<close>

definition fits :: "'m postcard \<Rightarrow> 'm \<Rightarrow> bool" where
  "fits k m \<longleftrightarrow> (case to_bytes k m of Inl _ \<Rightarrow> False | Inr bs \<Rightarrow> length bs \<le> MAX_CONTROL_FRAME)"

lemma fits_sendable: "fits k m \<Longrightarrow> sendable k m"
  by (auto simp: fits_def sendable_def MAX_CONTROL_FRAME_def MAX_ACTIVATION_FRAME_def split: sum.splits)

lemma write_fitting:
  assumes "fits k m" and "open_tx s"
  obtains bs where "to_bytes k m = Inr bs"
    "write_frame bs s = (Inr (), s\<lparr>sent := sent s @ msg_frame k m\<rparr>)"
  using write_sendable [OF fits_sendable [OF assms(1)] assms(2)] by blast

lemma read_fitting:
  assumes "postcard_law k" and "fits k m" and "pending r = msg_frame k m @ rest"
  obtains bs where "read_frame MAX_CONTROL_FRAME r = Inr (bs, r\<lparr>pending := rest\<rparr>)" "of_bytes k bs = Inr m"
proof -
  from assms(2) obtain bs where bs: "to_bytes k m = Inr bs" "length bs \<le> MAX_CONTROL_FRAME"
    by (auto simp: fits_def split: sum.splits)
  then have "read_frame MAX_CONTROL_FRAME r = Inr (bs, r\<lparr>pending := rest\<rparr>)"
    using assms(3) by (intro read_frame_frame) (simp_all add: msg_frame_def MAX_CONTROL_FRAME_def)
  with bs assms(1) show thesis using that by (simp add: postcard_law_def)
qed

lemma open_stream_ok:
  "open_tx s \<Longrightarrow> open_stream (Inr (s, r)) h = Inr (s\<lparr>sent := sent s @ encode_header h\<rparr>, r)"
  by (simp add: open_stream_def write_all_accepted accepts_def open_tx_def)

lemma request_sends:
  assumes "fits kq q" and "open_tx s"
  shows "snd (control_request kq kr (Inr (s, r)) q) = sent s @ encode_header control_header @ msg_frame kq q"
proof -
  let ?s = "s\<lparr>sent := sent s @ encode_header control_header\<rparr>"
  have o: "open_tx ?s" using assms(2) by simp
  from write_fitting [OF assms(1) o] obtain bs where
    "to_bytes kq q = Inr bs" "write_frame bs ?s = (Inr (), ?s\<lparr>sent := sent ?s @ msg_frame kq q\<rparr>)" .
  with o show ?thesis using assms(2)
    by (simp add: control_request_def open_stream_ok encode_msg_def finish_def open_tx_def)
qed

lemma request_receives:
  assumes "postcard_law kr" and "fits kq q" and "fits kr a" and "open_tx s" and "pending r = msg_frame kr a @ rest"
  shows "fst (control_request kq kr (Inr (s, r)) q) = Inr a"
proof -
  let ?s = "s\<lparr>sent := sent s @ encode_header control_header\<rparr>"
  have o: "open_tx ?s" using assms(4) by simp
  from write_fitting [OF assms(2) o] obtain bs where
    "to_bytes kq q = Inr bs" "write_frame bs ?s = (Inr (), ?s\<lparr>sent := sent ?s @ msg_frame kq q\<rparr>)" .
  moreover from read_fitting [OF assms(1,3,5)] obtain rb where
    "read_frame MAX_CONTROL_FRAME r = Inr (rb, r\<lparr>pending := rest\<rparr>)" "of_bytes kr rb = Inr a" .
  ultimately show ?thesis using o assms(4)
    by (simp add: control_request_def open_stream_ok encode_msg_def decode_msg_def finish_def open_tx_def)
qed

lemma answer_sends:
  assumes "postcard_law kq" and "fits kq q" and "handle h dev q = (Some a, h')" and "fits kr a"
    and "open_tx s" and "pending r = msg_frame kq q @ rest"
  shows "control_answer kq kr handle dev h s r =
    (Inr (), h', s\<lparr>sent := sent s @ msg_frame kr a, finished := True\<rparr>)"
proof -
  from read_fitting [OF assms(1,2,6)] obtain qb where
    "read_frame MAX_CONTROL_FRAME r = Inr (qb, r\<lparr>pending := rest\<rparr>)" "of_bytes kq qb = Inr q" .
  moreover from write_fitting [OF assms(4,5)] obtain bs where
    "to_bytes kr a = Inr bs" "write_frame bs s = (Inr (), s\<lparr>sent := sent s @ msg_frame kr a\<rparr>)" .
  ultimately show ?thesis using assms(3,5)
    by (simp add: control_answer_def encode_msg_def finish_def open_tx_def)
qed

text \<open>A handler that panics sends nothing: the requester's read of the reply fails.\<close>

lemma answer_panic:
  assumes "postcard_law kq" and "fits kq q" and "handle h dev q = (None, h')" and "pending r = msg_frame kq q @ rest"
  shows "snd (snd (control_answer kq kr handle dev h s r)) = s"
proof -
  from read_fitting [OF assms(1,2,4)] obtain qb where
    "read_frame MAX_CONTROL_FRAME r = Inr (qb, r\<lparr>pending := rest\<rparr>)" "of_bytes kq qb = Inr q" .
  with assms(3) show ?thesis by (simp add: control_answer_def)
qed

section \<open>Properties\<close>

text \<open>Introducing a device hands over what identifies it. The peer recorded from an introduction has
  the key, name and platform of the peer it was made from, the id that is the hash of that key, and
  names the introducer; a key the curve check refuses is refused.\<close>

theorem introduction_round_trip:
  assumes "\<forall>k k'. valid_key k = Inr k' \<longrightarrow> k' = k"
  shows "case into_peer sha256 now valid_key (introduction_of p) by_id of
      Inl e \<Rightarrow> (\<exists>why. valid_key (public_key p) = Inl why \<and> e = Certificate (''introduced key is unusable: '' @ why))
    | Inr q \<Rightarrow> public_key q = public_key p \<and> name q = name p \<and> platform q = platform p \<and>
        device_id q = from_public_key sha256 (public_key p) \<and> introduced_by q = Some by_id"
  using assms
  by (cases "valid_key (public_key p)") (auto simp: into_peer_def introduction_of_def introduced_peer_def new_peer_def)

lemma introduction_round_trip_witness:
  "case into_peer (\<lambda>_. [1]) 0 Inr (introduction_of (new_peer (\<lambda>_. [1]) 5 [7] ''gpu'' ''linux'')) (DeviceId [2]) of
      Inl e \<Rightarrow> False | Inr q \<Rightarrow> public_key q = [7] \<and> introduced_by q = Some (DeviceId [2])"
  using introduction_round_trip [of Inr "new_peer (\<lambda>_. [1]) 5 [7] ''gpu'' ''linux''" "\<lambda>_. [1]" "DeviceId [2]" 0]
  by (simp add: into_peer_def introduction_of_def introduced_peer_def new_peer_def)

end
