(* ===== verification/Rpc.thy ===== *)
theory Rpc
  imports Control
begin

text \<open>
  \<open>crates/lattice-net/src/rpc.rs\<close>: the tunnel of a master's inference engine to a worker's GPU
  process. Admission is one acknowledgement frame; afterwards bytes are copied both ways. What a read of
  the local socket or of the stream returns is a list of chunks, an empty chunk being the end; where a
  failing direction cuts the other is an argument.
\<close>

definition MAX_ACK :: nat where "MAX_ACK = 4096"

definition rpc_header :: stream_header where
  "rpc_header = \<lparr>kind = InferenceRpc, session = 0, generation = 0\<rparr>"

text \<open>An acknowledgement: a refusal and its reason, or admission.\<close>

type_synonym ack = "string + unit"

definition deny_rpc :: "device_id \<Rightarrow> string + 'p" where
  "deny_rpc dev = Inl ''inference RPC is unavailable on this device''"

section \<open>Copying\<close>

text \<open>\<open>tokio::io::copy\<close>: every chunk is written before the next is read.\<close>

fun copy :: "(string + bytes) list \<Rightarrow> tx \<Rightarrow> (string + unit) \<times> tx" where
  "copy [] s = (Inr (), s)"
| "copy (Inl e # rs) s = (Inl e, s)"
| "copy (Inr c # rs) s =
     (if c = [] then (Inr (), s)
      else (case write_all c s of (Inl e, s) \<Rightarrow> (Inl e, s) | (Inr _, s) \<Rightarrow> copy rs s))"

record tunnel_streams =
  tun_send :: tx
  tun_writer :: tx
  was_reset :: bool

definition outbound :: "(string + bytes) list \<Rightarrow> tx \<Rightarrow> (net_error + unit) \<times> tx" where
  "outbound from_tcp send =
     (case copy from_tcp send of
        (Inl e, send) \<Rightarrow> (Inl (Io e), send)
      | (Inr _, send) \<Rightarrow> (case finish send of (r, send) \<Rightarrow> (map_err Stream r, send)))"

definition inbound :: "(string + bytes) list \<Rightarrow> tx \<Rightarrow> (net_error + unit) \<times> tx" where
  "inbound from_peer writer =
     (case copy from_peer writer of
        (Inl e, writer) \<Rightarrow> (Inl (Io e), writer)
      | (Inr _, writer) \<Rightarrow> (case finish writer of (r, writer) \<Rightarrow> (map_err Io r, writer)))"

text \<open>
  Both directions run to their end, or the first failure ends the tunnel: the other direction has then
  read \<open>halt\<close> chunks, or had ended before. When both would fail, \<open>out_first\<close> tells which does.
\<close>

definition cut :: "((string + bytes) list \<Rightarrow> tx \<Rightarrow> (net_error + unit) \<times> tx) \<Rightarrow> nat \<Rightarrow> (string + bytes) list \<Rightarrow> tx \<Rightarrow> tx" where
  "cut way halt rs s = (if halt < length rs then snd (copy (take halt rs) s) else snd (way rs s))"

text \<open>Dropping the streams of a tunnel that did not complete resets them.\<close>

definition drop_streams :: "bool \<Rightarrow> tunnel_streams \<Rightarrow> tunnel_streams" where
  "drop_streams completed t = (if completed then t else t\<lparr>was_reset := True\<rparr>)"

definition tunnel ::
    "nat \<Rightarrow> bool \<Rightarrow> (string + bytes) list \<Rightarrow> (string + bytes) list \<Rightarrow> tx \<Rightarrow> tx \<Rightarrow> (net_error + unit) \<times> tunnel_streams" where
  "tunnel halt out_first from_tcp from_peer send writer =
     (case (outbound from_tcp send, inbound from_peer writer) of
        ((Inr _, send'), (Inr _, writer')) \<Rightarrow>
          (Inr (), drop_streams True \<lparr>tun_send = send', tun_writer = writer', was_reset = False\<rparr>)
      | ((Inl e, send'), (Inr _, _)) \<Rightarrow>
          (Inl e, drop_streams False \<lparr>tun_send = send', tun_writer = cut inbound halt from_peer writer, was_reset = False\<rparr>)
      | ((Inr _, _), (Inl e, writer')) \<Rightarrow>
          (Inl e, drop_streams False \<lparr>tun_send = cut outbound halt from_tcp send, tun_writer = writer', was_reset = False\<rparr>)
      | ((Inl e, send'), (Inl e', writer')) \<Rightarrow>
          (if out_first
           then (Inl e, drop_streams False \<lparr>tun_send = send', tun_writer = cut inbound halt from_peer writer, was_reset = False\<rparr>)
           else (Inl e', drop_streams False \<lparr>tun_send = cut outbound halt from_tcp send, tun_writer = writer', was_reset = False\<rparr>)))"

section \<open>Admission\<close>

text \<open>The master's end, within the time limit: the stream after the acknowledgement, or why not.\<close>

definition proxy_handshake :: "ack postcard \<Rightarrow> bool \<Rightarrow> channel \<Rightarrow> net_error + tx \<times> rx" where
  "proxy_handshake ka in_time ch =
     (if \<not> in_time then Inl (Stream ''inference RPC handshake timed out'')
      else rbind (open_stream ch rpc_header) (\<lambda>(send, recv).
           rbind (read_frame MAX_ACK recv) (\<lambda>(bs, recv).
           rbind (decode_msg ka bs) (\<lambda>ack.
           rbind (map_err Stream ack) (\<lambda>_. Inr (send, recv))))))"

definition proxy ::
    "ack postcard \<Rightarrow> bool \<Rightarrow> channel \<Rightarrow> nat \<Rightarrow> bool \<Rightarrow> (string + bytes) list \<Rightarrow> (rx \<Rightarrow> (string + bytes) list) \<Rightarrow> tx \<Rightarrow>
       (net_error + unit) \<times> tunnel_streams option" where
  "proxy ka in_time ch halt out_first from_tcp reads writer =
     (case proxy_handshake ka in_time ch of
        Inl e \<Rightarrow> (Inl e, None)
      | Inr (send, recv) \<Rightarrow>
          (case tunnel halt out_first from_tcp (reads recv) send writer of (r, t) \<Rightarrow> (r, Some t)))"

definition ack_of :: "string + 'p \<Rightarrow> ack" where
  "ack_of outcome = map_err (take 512) (rbind outcome (\<lambda>_. Inr ()))"

text \<open>
  The worker's end. \<open>outcome\<close> is what the handler's \<open>connect\<close> returned within the time limit
  (\<open>None\<close> when it did not), with the chunks the process' socket returns and its writing half. The
  result tells whether the permit was held, and then given back.
\<close>

definition rpc_serve ::
    "ack postcard \<Rightarrow> (string + (string + bytes) list \<times> tx) option \<Rightarrow> nat \<Rightarrow> bool \<Rightarrow> (string + bytes) list \<Rightarrow> tx \<Rightarrow>
       (net_error + unit) \<times> tx \<times> tunnel_streams option" where
  "rpc_serve ka connected halt out_first from_peer send =
     (let outcome = (case connected of None \<Rightarrow> Inl ''inference RPC connection timed out'' | Some s \<Rightarrow> s) in
      case encode_msg ka (ack_of outcome) of
        Inl e \<Rightarrow> (Inl e, send, None)
      | Inr bs \<Rightarrow>
          (case write_frame bs send of
             (Inl e, send) \<Rightarrow> (Inl e, send, None)
           | (Inr _, send) \<Rightarrow>
               (case outcome of
                  Inr (from_tcp, writer) \<Rightarrow>
                    (case tunnel halt out_first from_tcp from_peer send writer of (r, t) \<Rightarrow> (r, tun_send t, Some t))
                | Inl _ \<Rightarrow> (Inr (), snd (finish send), None))))"

section \<open>The proxy\<close>

text \<open>
  The task behind a proxy: it accepts the local engine's connections, each of which becomes a session
  of its own, until accepting fails, the peer's connection closes or the proxy is dropped. What ends
  the task ends its sessions, since they are owned by it (\<open>JoinSet\<close>).
\<close>

datatype proxy_event = Client nat | SessionOver nat | AcceptFailed | PeerClosed | ProxyDropped

record proxy_task =
  proxy_up :: bool
  proxied :: "nat list"

definition ends_proxy :: "proxy_event \<Rightarrow> bool" where
  "ends_proxy ev \<longleftrightarrow> ev \<in> {AcceptFailed, PeerClosed, ProxyDropped}"

definition proxy_turn :: "proxy_event \<Rightarrow> proxy_task \<Rightarrow> proxy_task" where
  "proxy_turn ev t =
     (if \<not> proxy_up t then t
      else case ev of
        Client c \<Rightarrow> t\<lparr>proxied := proxied t @ [c]\<rparr>
      | SessionOver c \<Rightarrow> t\<lparr>proxied := remove1 c (proxied t)\<rparr>
      | _ \<Rightarrow> \<lparr>proxy_up = False, proxied = []\<rparr>)"

definition proxy_run :: "proxy_event list \<Rightarrow> proxy_task" where
  "proxy_run es = fold proxy_turn es \<lparr>proxy_up = True, proxied = []\<rparr>"

section \<open>Lemmas\<close>

lemma proxy_run_snoc [simp]: "proxy_run (es @ [ev]) = proxy_turn ev (proxy_run es)"
  by (simp add: proxy_run_def)

text \<open>No session outlives its proxy, and every session is one a client asked for.\<close>

lemma ends_proxy_simps [simp]:
  "\<not> ends_proxy (Client c)" "\<not> ends_proxy (SessionOver c)" "ends_proxy AcceptFailed" "ends_proxy PeerClosed" "ends_proxy ProxyDropped"
  by (simp_all add: ends_proxy_def)

lemma proxy_run_up: "proxy_up (proxy_run es) \<longleftrightarrow> \<not> list_ex ends_proxy es"
  by (induction es rule: rev_induct) (auto simp: proxy_turn_def, auto simp: proxy_run_def split: proxy_event.splits)

lemma proxy_run_sessions:
  "set (proxied (proxy_run es)) \<subseteq> {c. Client c \<in> set es} \<and> (list_ex ends_proxy es \<longrightarrow> proxied (proxy_run es) = [])"
proof (induction es rule: rev_induct)
  case (snoc ev es)
  then show ?case
    using proxy_run_up [of es]
    by (cases ev) (auto simp: proxy_turn_def dest: notin_set_remove1)
qed (simp add: proxy_run_def)

text \<open>What the code relies on of the serialisation: a truncated reason fits its frame.\<close>

definition ack_law :: "ack postcard \<Rightarrow> bool" where
  "ack_law k \<longleftrightarrow> postcard_law k \<and>
     (\<forall>a. (case a of Inl why \<Rightarrow> length why \<le> 512 | Inr _ \<Rightarrow> True) \<longrightarrow> (\<exists>bs. to_bytes k a = Inr bs \<and> length bs \<le> MAX_ACK))"

lemma ack_of_bounded: "case ack_of s of Inl why \<Rightarrow> length why \<le> 512 | Inr _ \<Rightarrow> True"
  by (cases s) (simp_all add: ack_of_def)

lemma ack_encodes:
  assumes "ack_law k"
  obtains bs where "to_bytes k (ack_of s) = Inr bs" "length bs \<le> MAX_ACK" "of_bytes k bs = Inr (ack_of s)"
  using assms ack_of_bounded [of s] unfolding ack_law_def postcard_law_def by blast

lemma MAX_ACK_u32: "n \<le> MAX_ACK \<Longrightarrow> n \<le> u32_max"
  by (simp add: MAX_ACK_def)

lemma write_ack:
  assumes "length bs \<le> MAX_ACK" and "open_tx s"
  shows "write_frame bs s = (Inr (), s\<lparr>sent := sent s @ frame bs\<rparr>)"
  using assms by (intro write_frame_sent) (simp_all add: MAX_ACK_u32 accepts_def open_tx_def)

lemma copy_complete:
  "\<forall>c \<in> set cs. c \<noteq> [] \<Longrightarrow> open_tx s \<Longrightarrow>
     copy (map Inr cs @ Inr [] # rs) s = (Inr (), s\<lparr>sent := sent s @ concat cs\<rparr>)"
proof (induction cs arbitrary: s)
  case (Cons c cs)
  then have "write_all c s = (Inr (), s\<lparr>sent := sent s @ c\<rparr>)"
    by (simp add: write_all_accepted accepts_def open_tx_def)
  with Cons.IH [of "s\<lparr>sent := sent s @ c\<rparr>"] Cons.prems show ?case by simp
qed simp

lemma copy_prefix:
  assumes "copy rs s = (r, s')" and "limit s = None"
  shows "\<exists>n. sent s' = sent s @ concat (map (\<lambda>x. case x of Inr c \<Rightarrow> c | Inl _ \<Rightarrow> []) (take n rs))"
  using assms
proof (induction rs s arbitrary: r rule: copy.induct)
  case (3 c rs s)
  show ?case
  proof (cases "c = [] \<or> \<not> accepts s (length c)")
    case True
    then show ?thesis using 3(2,3)
      by (auto simp: write_all_def accepts_def split: if_splits intro!: exI [of _ 0])
  next
    case False
    then have w: "write_all c s = (Inr (), s\<lparr>sent := sent s @ c\<rparr>)" by (simp add: write_all_accepted)
    with 3 False obtain n where "sent s' = (sent s @ c) @ concat (map (\<lambda>x. case x of Inr c \<Rightarrow> c | Inl _ \<Rightarrow> []) (take n rs))"
      by fastforce
    then show ?thesis by (intro exI [of _ "Suc n"]) simp
  qed
qed (auto intro!: exI [of _ 0])

lemma copy_prefix_sent:
  "limit s = None \<Longrightarrow> \<exists>n. sent (snd (copy rs s)) = sent s @ concat (map (\<lambda>x. case x of Inr c \<Rightarrow> c | Inl _ \<Rightarrow> []) (take n rs))"
  by (cases "copy rs s") (auto dest: copy_prefix)

text \<open>The bytes of the first \<open>n\<close> chunks.\<close>

definition chunks :: "nat \<Rightarrow> (string + bytes) list \<Rightarrow> bytes" where
  "chunks n rs = concat (map (\<lambda>x. case x of Inr c \<Rightarrow> c | Inl _ \<Rightarrow> []) (take n rs))"

lemma outbound_prefix: "limit s = None \<Longrightarrow> \<exists>n. sent (snd (outbound rs s)) = sent s @ chunks n rs"
  and inbound_prefix: "limit s = None \<Longrightarrow> \<exists>n. sent (snd (inbound rs s)) = sent s @ chunks n rs"
  using copy_prefix_sent [of s rs]
  by (auto simp: outbound_def inbound_def finish_def chunks_def split: prod.splits sum.splits)

lemma cut_prefix:
  assumes "limit s = None" and "\<exists>n. sent (snd (way rs s)) = sent s @ chunks n rs"
  shows "\<exists>n. sent (cut way m rs s) = sent s @ chunks n rs"
  using copy_prefix_sent [OF assms(1), of "take m rs"] assms(2) by (auto simp: cut_def chunks_def take_take)

lemma tunnel_cases:
  assumes "tunnel halt out_first from_tcp from_peer send writer = (r, t)"
  shows "was_reset t = isl r"
    and "tun_send t = snd (outbound from_tcp send) \<or> tun_send t = cut outbound halt from_tcp send"
    and "tun_writer t = snd (inbound from_peer writer) \<or> tun_writer t = cut inbound halt from_peer writer"
    and "\<not> isl r \<Longrightarrow> \<not> isl (fst (outbound from_tcp send)) \<and> \<not> isl (fst (inbound from_peer writer))"
  using assms by (auto simp: tunnel_def drop_streams_def split: prod.splits sum.splits if_splits)

lemma tunnel_prefix:
  assumes "tunnel halt out_first from_tcp from_peer send writer = (r, t)" and "limit send = None" and "limit writer = None"
  shows "\<exists>n m. sent (tun_send t) = sent send @ chunks n from_tcp \<and> sent (tun_writer t) = sent writer @ chunks m from_peer"
proof -
  have o: "\<exists>n. sent (snd (outbound from_tcp send)) = sent send @ chunks n from_tcp" by (rule outbound_prefix [OF assms(2)])
  have i: "\<exists>n. sent (snd (inbound from_peer writer)) = sent writer @ chunks n from_peer" by (rule inbound_prefix [OF assms(3)])
  show ?thesis
    using tunnel_cases(2,3) [OF assms(1)] o i cut_prefix [where m = halt and way = outbound, OF assms(2) o] cut_prefix [where m = halt and way = inbound, OF assms(3) i]
    by auto
qed

text \<open>Both ends of an admission.\<close>

lemma served_bytes:
  assumes "ack_law ka" and "open_tx send" and "sent send = []"
    and "case outcome of Inl _ \<Rightarrow> True | Inr (_, writer) \<Rightarrow> limit writer = None"
  shows "\<exists>bs n. to_bytes ka (ack_of outcome) = Inr bs \<and> length bs \<le> MAX_ACK \<and>
      sent (fst (snd (rpc_serve ka (Some outcome) halt out_first from_peer send))) =
        frame bs @ (case outcome of Inl _ \<Rightarrow> [] | Inr (from_tcp, _) \<Rightarrow> chunks n from_tcp)"
proof -
  from ack_encodes [OF assms(1), of outcome] obtain bs where bs: "to_bytes ka (ack_of outcome) = Inr bs"
    "length bs \<le> MAX_ACK" .
  let ?s = "send\<lparr>sent := sent send @ frame bs\<rparr>"
  show ?thesis
  proof (cases outcome)
    case (Inl why)
    with bs write_ack [OF bs(2) assms(2)] assms(2,3) show ?thesis
      by (auto simp: rpc_serve_def encode_msg_def finish_def open_tx_def)
  next
    case (Inr x)
    obtain from_tcp writer where x: "x = (from_tcp, writer)" by (cases x)
    obtain r t where t: "tunnel halt out_first from_tcp from_peer ?s writer = (r, t)"
      by (cases "tunnel halt out_first from_tcp from_peer ?s writer")
    have "limit ?s = None" "limit writer = None" using assms(2,4) Inr x by (simp_all add: open_tx_def)
    from tunnel_prefix [OF t this] obtain n where "sent (tun_send t) = sent ?s @ chunks n from_tcp" by blast
    with bs write_ack [OF bs(2) assms(2)] t Inr x assms(3) show ?thesis
      by (auto simp: rpc_serve_def encode_msg_def)
  qed
qed

section \<open>Properties\<close>

text \<open>Both ends agree on an admission. When the master reads what the worker wrote, its handshake
  succeeds exactly when the worker's handler connected, and what then follows on the stream are the
  first bytes of the process, none lost and none added; when the handler refused, the master gets the
  first 512 characters of the reason.\<close>

theorem rpc_admission:
  assumes "ack_law ka" and "open_tx send" and "sent send = []" and "open_tx s"
    and "case outcome of Inl _ \<Rightarrow> True | Inr (_, writer) \<Rightarrow> limit writer = None"
    and "pending recv = sent (fst (snd (rpc_serve ka (Some outcome) halt out_first from_peer send)))"
  shows "case outcome of
      Inl why \<Rightarrow> proxy_handshake ka True (Inr (s, recv)) = Inl (Stream (take 512 why))
    | Inr (from_tcp, _) \<Rightarrow>
        (\<exists>n. proxy_handshake ka True (Inr (s, recv)) =
          Inr (s\<lparr>sent := sent s @ encode_header rpc_header\<rparr>, recv\<lparr>pending := chunks n from_tcp\<rparr>))"
proof -
  from served_bytes [OF assms(1-3,5), of halt out_first from_peer] assms(6) obtain bs n where
    bs: "to_bytes ka (ack_of outcome) = Inr bs" "length bs \<le> MAX_ACK"
    and p: "pending recv = frame bs @ (case outcome of Inl _ \<Rightarrow> [] | Inr (from_tcp, _) \<Rightarrow> chunks n from_tcp)" by metis
  have "of_bytes ka bs = Inr (ack_of outcome)"
    using assms(1) bs(1) by (simp add: ack_law_def postcard_law_def)
  moreover have "read_frame MAX_ACK recv =
      Inr (bs, recv\<lparr>pending := case outcome of Inl _ \<Rightarrow> [] | Inr (from_tcp, _) \<Rightarrow> chunks n from_tcp\<rparr>)"
    using read_frame_frame [OF MAX_ACK_u32 [OF bs(2)] bs(2) p] .
  ultimately show ?thesis
    using open_stream_ok [OF assms(4), of recv rpc_header]
    by (cases outcome) (auto simp: proxy_handshake_def decode_msg_def ack_of_def)
qed

definition example_acks :: "ack postcard" where
  "example_acks = \<lparr>to_bytes = \<lambda>a. Inr (case a of Inr _ \<Rightarrow> [0] | Inl why \<Rightarrow> 1 # map of_char why),
     of_bytes = \<lambda>bs. (case bs of [] \<Rightarrow> Inl ''empty'' | b # bs \<Rightarrow> Inr (if b = 0 then Inr () else Inl (map (\<lambda>b. char_of (unat b)) bs)))\<rparr>"

lemma example_acks_law: "ack_law example_acks"
proof -
  have "map (\<lambda>b. char_of (unat b)) (map of_char why :: bytes) = why" for why
  proof -
    have "unat (of_char c :: u8) = (of_char c :: nat)" for c
    proof -
      have "unat (of_char c :: u8) = unat (of_nat (of_char c) :: u8)" by (simp only: of_nat_of_char)
      also have "\<dots> = of_char c" using nat_of_char_less_256 [of c] by (simp add: unat_of_nat)
      finally show ?thesis .
    qed
    then show ?thesis by (simp add: comp_def map_idI)
  qed
  then show ?thesis
    by (auto simp: ack_law_def postcard_law_def example_acks_def MAX_ACK_def split: sum.splits)
qed

lemma rpc_admission_witness:
  "\<exists>n. proxy_handshake example_acks True (Inr (fresh_tx, \<lparr>pending = sent (fst (snd (rpc_serve example_acks
        (Some (Inr ([Inr [1, 2], Inr []], fresh_tx))) 0 True [] fresh_tx))), rx_fault = []\<rparr>)) =
     Inr (fresh_tx\<lparr>sent := encode_header rpc_header\<rparr>, \<lparr>pending = chunks n [Inr [1, 2], Inr []], rx_fault = []\<rparr>)"
  using rpc_admission [OF example_acks_law, of fresh_tx fresh_tx "Inr ([Inr [1, 2], Inr []], fresh_tx)"
      "\<lparr>pending = sent (fst (snd (rpc_serve example_acks
        (Some (Inr ([Inr [1, 2], Inr []], fresh_tx))) 0 True [] fresh_tx))), rx_fault = []\<rparr>" 0 True "[]"]
  by (simp add: fresh_tx_def open_tx_def)

text \<open>A tunnel never reorders, repeats or invents bytes, however it ends: each side has been given a
  prefix of the other's bytes. It ends without an error only when both directions have been copied to
  their end; otherwise its stream is reset.\<close>

theorem tunnel_faithful:
  assumes "limit send = None" and "limit writer = None"
  shows "case tunnel halt out_first from_tcp from_peer send writer of (r, t) \<Rightarrow>
    was_reset t = isl r \<and>
    (\<exists>n m. sent (tun_send t) = sent send @ chunks n from_tcp \<and> sent (tun_writer t) = sent writer @ chunks m from_peer) \<and>
    (isl r \<or> \<not> isl (fst (outbound from_tcp send)) \<and> \<not> isl (fst (inbound from_peer writer)))"
proof (cases "tunnel halt out_first from_tcp from_peer send writer")
  case (Pair r t)
  from tunnel_cases(1,4) [OF Pair] tunnel_prefix [OF Pair assms] Pair show ?thesis by auto
qed

lemma tunnel_faithful_witness:
  "case tunnel 0 True [Inr [1], Inr []] [Inr [2], Inl ''lost''] fresh_tx fresh_tx of (r, t) \<Rightarrow>
    was_reset t = isl r \<and>
    (\<exists>n m. sent (tun_send t) = sent fresh_tx @ chunks n [Inr [1], Inr []] \<and>
       sent (tun_writer t) = sent fresh_tx @ chunks m [Inr [2], Inl ''lost'']) \<and>
    (isl r \<or> \<not> isl (fst (outbound [Inr [1], Inr []] fresh_tx)) \<and> \<not> isl (fst (inbound [Inr [2], Inl ''lost''] fresh_tx)))"
  by (rule tunnel_faithful) (simp_all add: fresh_tx_def)

end
