(* ===== verification/Probe.thy ===== *)
theory Probe
  imports Transport
begin

text \<open>
  \<open>crates/lattice-net/src/probe.rs\<close>: round trips and throughput of a link, and the end that
  answers them. Elapsed times are what the clock returns. The lemmas show that the answering end takes
  exactly the probes of the protocol off its stream, one acknowledgement for each, and that a
  measurement is never refused for its size.
\<close>

definition PING :: u8 where "PING = 1"
definition SINK :: u8 where "SINK = 2"
definition ACK :: u8 where "ACK = 0xAC"
definition MAX_PROBE_BYTES :: nat where "MAX_PROBE_BYTES = 67108864"
definition RTT_SAMPLES :: nat where "RTT_SAMPLES = 16"

definition probe_header :: "stream_kind \<Rightarrow> stream_header" where
  "probe_header k = \<lparr>kind = k, session = NO_SESSION, generation = 0\<rparr>"

section \<open>The measuring end\<close>

definition probe_write :: "bytes \<Rightarrow> tx \<Rightarrow> (net_error + unit) \<times> tx" where
  "probe_write bs s = (case write_all bs s of (r, s) \<Rightarrow> (map_err Probe r, s))"

text \<open>One ping per entry of the clock; the least round trip is kept.\<close>

fun ping_rounds :: "nat list \<Rightarrow> nat \<Rightarrow> tx \<Rightarrow> rx \<Rightarrow> (net_error + nat) \<times> tx" where
  "ping_rounds [] best send recv = (Inr best, send)"
| "ping_rounds (t # ts) best send recv =
     (case probe_write [PING] send of
        (Inl e, send) \<Rightarrow> (Inl e, send)
      | (Inr _, send) \<Rightarrow>
          (case read_exact 1 recv of
             Inl e \<Rightarrow> (Inl (Probe e), send)
           | Inr (_, recv) \<Rightarrow> ping_rounds ts (min best t) send recv))"

definition measure_rtt :: "nat \<Rightarrow> nat list \<Rightarrow> channel \<Rightarrow> (net_error + nat) \<times> bytes" where
  "measure_rtt longest clock ch =
     (case open_stream ch (probe_header ProbeKind) of
        Inl e \<Rightarrow> (Inl e, [])
      | Inr (send, recv) \<Rightarrow>
          (case ping_rounds (take RTT_SAMPLES clock) longest send recv of (r, send) \<Rightarrow> (r, sent send)))"

text \<open>The result is the number of bytes moved and the time until the acknowledgement.\<close>

definition measure_throughput :: "nat \<Rightarrow> nat \<Rightarrow> channel \<Rightarrow> (net_error + nat \<times> nat) \<times> bytes" where
  "measure_throughput n elapsed ch =
     (case open_stream ch (probe_header ProbeKind) of
        Inl e \<Rightarrow> (Inl e, [])
      | Inr (send, recv) \<Rightarrow>
          (case probe_write [SINK] send of
             (Inl e, send) \<Rightarrow> (Inl e, sent send)
           | (Inr _, send) \<Rightarrow>
               (case probe_write (le_bytes 4 (of_nat n :: u32)) send of
                  (Inl e, send) \<Rightarrow> (Inl e, sent send)
                | (Inr _, send) \<Rightarrow>
                    (case probe_write (replicate n 0) send of
                       (Inl e, send) \<Rightarrow> (Inl e, sent send)
                     | (Inr _, send) \<Rightarrow>
                         (case read_exact 1 recv of
                            Inl e \<Rightarrow> (Inl (Probe e), sent send)
                          | Inr (ack, _) \<Rightarrow>
                              (if ack \<noteq> [ACK] then Inl Rejected else Inr (n, elapsed), sent send))))))"

text \<open>The bytes asked for are capped before the probe is made.\<close>

definition probe_size :: "nat \<Rightarrow> nat" where
  "probe_size n = min n MAX_PROBE_BYTES"

section \<open>The answering end\<close>

definition probe_drain :: "tx \<Rightarrow> rx \<Rightarrow> bool \<times> tx \<times> rx" where
  "probe_drain send recv =
     (case read_exact 4 recv of
        Inl _ \<Rightarrow> (False, send, recv)
      | Inr (header, recv) \<Rightarrow>
          (let len = unat (le_word header :: u32) in
           if len > MAX_PROBE_BYTES then (False, send, recv)
           else
             (case read_exact len recv of
                Inl _ \<Rightarrow> (False, send, recv)
              | Inr (_, recv) \<Rightarrow>
                  (case write_all [ACK] send of (r, send) \<Rightarrow> (\<not> isl r, send, recv)))))"

definition probe_handle :: "u8 \<Rightarrow> tx \<Rightarrow> rx \<Rightarrow> bool \<times> tx \<times> rx" where
  "probe_handle opcode send recv =
     (if opcode = PING then (case write_all [ACK] send of (r, send) \<Rightarrow> (\<not> isl r, send, recv))
      else if opcode = SINK then probe_drain send recv
      else (False, send, recv))"

lemma probe_handle_shrinks: "probe_handle op send recv = (ok, send', recv') \<Longrightarrow> length (pending recv') \<le> length (pending recv)"
  by (auto simp: probe_handle_def probe_drain_def Let_def read_exact_Inr split: if_splits sum.splits prod.splits)

function probe_serve :: "tx \<Rightarrow> rx \<Rightarrow> tx" where
  "probe_serve send recv =
     (case read_exact 1 recv of
        Inl _ \<Rightarrow> send
      | Inr (opcode, recv) \<Rightarrow>
          (case probe_handle (hd opcode) send recv of
             (handled, send, recv) \<Rightarrow> if \<not> handled then send else probe_serve send recv))"
  by pat_completeness auto
termination
  by (relation "measure (\<lambda>(send, recv). length (pending recv))")
    (auto simp: read_exact_Inr dest!: probe_handle_shrinks [OF sym])

declare probe_serve.simps [simp del]

section \<open>The protocol\<close>

datatype probe = Ping | Sink bytes

fun probe_bytes :: "probe \<Rightarrow> bytes" where
  "probe_bytes Ping = [PING]"
| "probe_bytes (Sink bs) = SINK # le_bytes 4 (of_nat (length bs) :: u32) @ bs"

definition probe_ok :: "probe \<Rightarrow> bool" where
  "probe_ok p = (case p of Ping \<Rightarrow> True | Sink bs \<Rightarrow> length bs \<le> MAX_PROBE_BYTES)"

text \<open>The rest of a stream no probe can be read from.\<close>

definition no_probe :: "bytes \<Rightarrow> bool" where
  "no_probe bs \<longleftrightarrow> (\<forall>p rest. probe_ok p \<longrightarrow> bs \<noteq> probe_bytes p @ rest)"

lemma probe_handle_probe:
  assumes "probe_ok p" and "pending recv = tl (probe_bytes p) @ rest" and "accepts send 1"
  shows "probe_handle (hd (probe_bytes p)) send recv =
    (True, send\<lparr>sent := sent send @ [ACK]\<rparr>, recv\<lparr>pending := rest\<rparr>)"
proof (cases p)
  case Ping
  then have "recv\<lparr>pending := rest\<rparr> = recv" using assms(2) by simp
  with Ping assms(3) show ?thesis by (simp add: probe_handle_def write_all_accepted)
next
  case (Sink bs)
  then have len: "length bs \<le> MAX_PROBE_BYTES" using assms(1) by (simp add: probe_ok_def)
  then have "length bs \<le> u32_max" by (simp add: MAX_PROBE_BYTES_def)
  moreover have "read_exact 4 recv = Inr (le_bytes 4 (of_nat (length bs) :: u32), recv\<lparr>pending := bs @ rest\<rparr>)"
    using Sink assms(2) by simp
  moreover have "read_exact (length bs) (recv\<lparr>pending := bs @ rest\<rparr>) = Inr (bs, recv\<lparr>pending := rest\<rparr>)"
    by simp
  ultimately show ?thesis using Sink assms(3) len
    by (simp add: probe_handle_def probe_drain_def le32.dec_enc Let_def write_all_accepted PING_def SINK_def)
qed

lemma no_probe_stops:
  assumes "no_probe (pending recv)" and "read_exact 1 recv = Inr (op, recv')" and "accepts send 1"
  shows "probe_handle (hd op) send recv' = (False, send, snd (snd (probe_handle (hd op) send recv')))"
proof -
  from assms(2) obtain b where b: "op = [b]" "pending recv = b # pending recv'"
    by (cases op) (auto simp: read_exact_Inr)
  have "b \<noteq> PING"
    using assms(1) b(2) by (auto simp: no_probe_def probe_ok_def dest!: spec [of _ Ping])
  moreover have "\<not> fst (probe_drain send recv') \<and> fst (snd (probe_drain send recv')) = send" if "b = SINK"
  proof (rule ccontr)
    assume "\<not> (\<not> fst (probe_drain send recv') \<and> fst (snd (probe_drain send recv')) = send)"
    then obtain h r1 bs r2 where h: "read_exact 4 recv' = Inr (h, r1)" "unat (le_word h :: u32) \<le> MAX_PROBE_BYTES"
      "read_exact (unat (le_word h :: u32)) r1 = Inr (bs, r2)"
      by (auto simp: probe_drain_def Let_def split: sum.splits prod.splits if_splits)
    then have len: "length h = 4" "length bs = unat (le_word h :: u32)" by (simp_all add: read_exact_Inr)
    then have "le_bytes 4 (of_nat (length bs) :: u32) = h"
      using le32.enc_dec [of h] by (simp add: len)
    then have "pending recv = probe_bytes (Sink bs) @ pending r2"
      using h b(2) that by (simp add: read_exact_Inr)
    moreover have "probe_ok (Sink bs)" using h by (simp add: probe_ok_def read_exact_Inr)
    ultimately show False using assms(1) by (auto simp: no_probe_def)
  qed
  ultimately show ?thesis using b(1)
    by (auto simp: probe_handle_def prod_eq_iff)
qed

lemma probe_serve_probes:
  "\<forall>p \<in> set ps. probe_ok p \<Longrightarrow> no_probe rest \<Longrightarrow> limit send = None \<and> \<not> finished send \<Longrightarrow>
   pending recv = concat (map probe_bytes ps) @ rest \<Longrightarrow>
   probe_serve send recv = send\<lparr>sent := sent send @ replicate (length ps) ACK\<rparr>"
proof (induction ps arbitrary: send recv)
  case Nil
  show ?case
  proof (cases "read_exact 1 recv")
    case (Inr x)
    obtain op recv' where x: "x = (op, recv')" by (cases x)
    have "accepts send 1" using Nil.prems by (simp add: accepts_def)
    from no_probe_stops [OF _ _ this, of recv op recv'] Nil.prems Inr x
    obtain r where "probe_handle (hd op) send recv' = (False, send, r)" by auto
    with Inr x show ?thesis by (simp add: probe_serve.simps [of send recv])
  qed (simp add: probe_serve.simps [of send recv])
next
  case (Cons p ps)
  have "\<exists>b bs. probe_bytes p = b # bs" by (cases p) auto
  then obtain b bs where b: "probe_bytes p = b # bs" by blast
  let ?recv = "recv\<lparr>pending := bs @ concat (map probe_bytes ps) @ rest\<rparr>"
  let ?next = "recv\<lparr>pending := concat (map probe_bytes ps) @ rest\<rparr>"
  have r: "read_exact 1 recv = Inr ([b], ?recv)" using Cons.prems(4) b by simp
  have "probe_handle b send ?recv = (True, send\<lparr>sent := sent send @ [ACK]\<rparr>, ?next)"
    using probe_handle_probe [of p ?recv "concat (map probe_bytes ps) @ rest" send] Cons.prems(1,3) b
    by (simp add: accepts_def)
  with r Cons.IH [of "send\<lparr>sent := sent send @ [ACK]\<rparr>" ?next] Cons.prems
  show ?case by (simp add: probe_serve.simps [of send recv])
qed


lemma probe_write_ok:
  "limit s = None \<Longrightarrow> \<not> finished s \<Longrightarrow> probe_write bs s = (Inr (), s\<lparr>sent := sent s @ bs\<rparr>)"
  by (simp add: probe_write_def write_all_accepted accepts_def)

lemma throughput_sends:
  assumes "limit s = None" and "\<not> finished s"
  shows "snd (measure_throughput n elapsed (Inr (s, r))) =
      sent s @ encode_header (probe_header ProbeKind) @ SINK # le_bytes 4 (of_nat n :: u32) @ replicate n 0"
    and "pending r = [ACK] \<Longrightarrow> fst (measure_throughput n elapsed (Inr (s, r))) = Inr (n, elapsed)"
  using assms by (simp_all add: measure_throughput_def open_stream_def write_all_accepted accepts_def probe_write_ok
      read_exact_def split: sum.split)

lemma ping_rounds_result:
  "limit s = None \<Longrightarrow> \<not> finished s \<Longrightarrow> length (pending r) = length ts \<Longrightarrow>
   ping_rounds ts best s r = (Inr (Min (insert best (set ts))), s\<lparr>sent := sent s @ replicate (length ts) PING\<rparr>)"
proof (induction ts arbitrary: best s r)
  case (Cons t ts)
  from Cons.prems(3) obtain b bs where "pending r = b # bs" "length bs = length ts" by (cases "pending r") auto
  moreover from this have "read_exact 1 r = Inr ([b], r\<lparr>pending := bs\<rparr>)" by simp
  moreover have "Min (insert (min best t) (set ts)) = Min (insert best (set (t # ts)))"
    by (cases "ts = []") (simp_all add: min.assoc min.left_commute insert_commute Min_insert)
  ultimately show ?case
    using Cons.IH [of "s\<lparr>sent := sent s @ [PING]\<rparr>" "r\<lparr>pending := bs\<rparr>" "min best t"] Cons.prems
    by (simp add: probe_write_ok del: read_exact_append)
qed simp

section \<open>Properties\<close>

text \<open>The answering end of a probe stream takes exactly the probes its peer sends, a ping or an
  announced number of bytes up to the limit each, and answers each with one acknowledgement; at
  anything else it stops without a word.\<close>

theorem probe_answers:
  assumes "\<forall>p \<in> set ps. probe_ok p" and "no_probe rest" and "limit send = None" and "\<not> finished send"
    and "pending recv = concat (map probe_bytes ps) @ rest"
  shows "probe_serve send recv = send\<lparr>sent := sent send @ replicate (length ps) ACK\<rparr>"
  using probe_serve_probes assms by simp

lemma no_probe_Nil: "no_probe []"
proof -
  have "probe_bytes p \<noteq> []" for p by (cases p) simp_all
  then show ?thesis by (simp add: no_probe_def)
qed

lemma probe_answers_witness:
  "probe_serve fresh_tx \<lparr>pending = probe_bytes Ping @ probe_bytes (Sink [1, 2, 3]) @ probe_bytes Ping, rx_fault = []\<rparr> =
     fresh_tx\<lparr>sent := [ACK, ACK, ACK]\<rparr>"
  using probe_answers [of "[Ping, Sink [1, 2, 3], Ping]" "[]" fresh_tx
      "\<lparr>pending = probe_bytes Ping @ probe_bytes (Sink [1, 2, 3]) @ probe_bytes Ping, rx_fault = []\<rparr>"] no_probe_Nil
  by (simp add: fresh_tx_def probe_ok_def MAX_PROBE_BYTES_def numeral_3_eq_3)

text \<open>A measurement is never refused for its size, whatever size is asked for: served by the peer's
  end of the protocol, the capped probe is acknowledged once and reported with the bytes it moved.\<close>

theorem probe_never_refused:
  assumes "limit s = None" and "\<not> finished s" and "sent s = []"
    and "pending served = drop HEADER_LEN (snd (measure_throughput (probe_size n) elapsed (Inr (s, r))))"
    and "pending r = sent (probe_serve fresh_tx served)"
  shows "fst (measure_throughput (probe_size n) elapsed (Inr (s, r))) = Inr (min n MAX_PROBE_BYTES, elapsed)"
proof -
  have p: "pending served = concat (map probe_bytes [Sink (replicate (probe_size n) 0)]) @ []"
    using assms(4) throughput_sends(1) [OF assms(1,2)] assms(3) by simp
  have "probe_serve fresh_tx served = fresh_tx\<lparr>sent := sent fresh_tx @ replicate (length [Sink (replicate (probe_size n) 0)]) ACK\<rparr>"
    by (rule probe_serve_probes [OF _ no_probe_Nil _ p]) (simp_all add: probe_ok_def probe_size_def fresh_tx_def)
  then have "pending r = [ACK]" using assms(5) by (simp add: fresh_tx_def)
  from throughput_sends(2) [OF assms(1,2) this] show ?thesis by (simp add: probe_size_def)
qed

lemma probe_never_refused_witness:
  "fst (measure_throughput (probe_size 2) 7 (Inr (fresh_tx, \<lparr>pending = [ACK], rx_fault = []\<rparr>))) = Inr (2, 7)"
proof -
  let ?r = "\<lparr>pending = [ACK], rx_fault = []\<rparr>"
  let ?served = "\<lparr>pending = concat (map probe_bytes [Sink [0, 0]]) @ [], rx_fault = []\<rparr>"
  have "probe_size 2 = 2" by (simp add: probe_size_def MAX_PROBE_BYTES_def)
  then have s: "pending ?served = drop HEADER_LEN (snd (measure_throughput (probe_size 2) 7 (Inr (fresh_tx, ?r))))"
    using throughput_sends(1) [of fresh_tx 2 7 ?r] by (simp add: fresh_tx_def numeral_2_eq_2)
  have "probe_serve fresh_tx ?served = fresh_tx\<lparr>sent := sent fresh_tx @ replicate (length [Sink [0, 0]]) ACK\<rparr>"
    by (rule probe_serve_probes [OF _ no_probe_Nil]) (simp_all add: probe_ok_def MAX_PROBE_BYTES_def fresh_tx_def)
  then have "pending ?r = sent (probe_serve fresh_tx ?served)" by (simp add: fresh_tx_def)
  from probe_never_refused [OF _ _ _ s this] show ?thesis by (simp add: fresh_tx_def MAX_PROBE_BYTES_def)
qed

end
