(* ===== verification/Dispatch.thy ===== *)
theory Dispatch
  imports Rpc Probe
begin

text \<open>
  \<open>crates/lattice-net/src/dispatch.rs\<close>: the accept loop of a connection, which hands every stream to
  what serves its kind. Its services share the state of the device they belong to (in the code one
  object is often the control handler, the executor and the handler of RPC streams at once). The code
  gives each stream a task of its own; here the tasks of one connection run one after the other, in the
  order their streams were accepted.
\<close>

record 'n services =
  request_codec :: "request postcard"
  response_codec :: "response postcard"
  step_codec :: "step postcard"
  result_codec :: "step_result postcard"
  ack_codec :: "ack postcard"
  control_handle :: "'n handler"
  executor_run :: "'n \<Rightarrow> u64 \<Rightarrow> step \<Rightarrow> (string + payload) \<times> 'n"
  executor_drop :: "'n \<Rightarrow> u64 \<Rightarrow> 'n"
  rpc_connect :: "'n \<Rightarrow> device_id \<Rightarrow> (string + (string + bytes) list \<times> tx) option \<times> 'n"
  rpc_reads :: "rx \<Rightarrow> (string + bytes) list"
  rpc_halt :: "nat \<times> bool"

definition dispatch_stream :: "'n services \<Rightarrow> device_id \<Rightarrow> 'n \<Rightarrow> stream_header \<times> tx \<times> rx \<Rightarrow> 'n \<times> tx" where
  "dispatch_stream svc dev n str =
     (case str of (header, send, recv) \<Rightarrow>
       (case kind header of
          Control \<Rightarrow>
            (case control_answer (request_codec svc) (response_codec svc) (control_handle svc) dev n send recv of
               (_, n, send) \<Rightarrow> (n, send))
        | Activation \<Rightarrow>
            serve_stream (step_codec svc) (result_codec svc) (executor_run svc) (executor_drop svc)
              (session header) n send recv
        | InferenceRpc \<Rightarrow>
            (case rpc_connect svc n dev of
               (connected, n) \<Rightarrow>
                 (case rpc_serve (ack_codec svc) connected (fst (rpc_halt svc)) (snd (rpc_halt svc)) (rpc_reads svc recv) send of
                    (_, send, _) \<Rightarrow> (n, send)))
        | ProbeKind \<Rightarrow> (n, probe_serve send recv)
        | Bulk \<Rightarrow> (n, probe_serve send recv)))"

text \<open>The loop: it ends, quietly, at the first stream that cannot be accepted. The sending halves of the
  streams it served are returned in order.\<close>

fun dispatch_serve :: "'n services \<Rightarrow> device_id \<Rightarrow> 'n \<Rightarrow> channel list \<Rightarrow> 'n \<times> tx list" where
  "dispatch_serve svc dev n [] = (n, [])"
| "dispatch_serve svc dev n (ch # chs) =
     (case accept_stream ch of
        Inl _ \<Rightarrow> (n, [])
      | Inr str \<Rightarrow>
          (case dispatch_stream svc dev n str of (n, send) \<Rightarrow>
           case dispatch_serve svc dev n chs of (n, sends) \<Rightarrow> (n, send # sends)))"

text \<open>A connection served without an inference runtime.\<close>

definition deny_services :: "'n services \<Rightarrow> 'n services" where
  "deny_services svc = svc\<lparr>rpc_connect := (\<lambda>n dev. (Some (deny_rpc dev), n))\<rparr>"

lemma accept_headed:
  assumes "pending r = encode_header h @ rest"
  shows "accept_stream (Inr (s, r)) = Inr (h, s, r\<lparr>pending := rest\<rparr>)"
proof -
  have "read_exact HEADER_LEN r = Inr (encode_header h, r\<lparr>pending := rest\<rparr>)" using assms by simp
  then show ?thesis by (simp add: accept_stream_def decode_encode_header del: read_exact_append)
qed

lemma dispatch_serve_append:
  "\<forall>ch \<in> set xs. \<not> isl (accept_stream ch) \<Longrightarrow>
   dispatch_serve svc dev n (xs @ ys) =
     (case dispatch_serve svc dev n xs of (n, sends) \<Rightarrow>
      case dispatch_serve svc dev n ys of (n, sends') \<Rightarrow> (n, sends @ sends'))"
  by (induction xs arbitrary: n) (auto split: sum.split prod.split)

text \<open>A control stream that carries a request, and an activation stream that carries a conversation.\<close>

lemma serve_control:
  assumes "postcard_law (request_codec svc)" and "fits (request_codec svc) q" and "fits (response_codec svc) a"
    and "control_handle svc n dev q = (Some a, n')" and "open_tx t"
    and "pending served = encode_header control_header @ msg_frame (request_codec svc) q"
  shows "dispatch_serve svc dev n (Inr (t, served) # chs) =
    (case dispatch_serve svc dev n' chs of (m, sends) \<Rightarrow>
       (m, t\<lparr>sent := sent t @ msg_frame (response_codec svc) a, finished := True\<rparr> # sends))"
proof -
  have "control_answer (request_codec svc) (response_codec svc) (control_handle svc) dev n t
      (served\<lparr>pending := msg_frame (request_codec svc) q\<rparr>) =
      (Inr (), n', t\<lparr>sent := sent t @ msg_frame (response_codec svc) a, finished := True\<rparr>)"
    by (rule answer_sends [where q = q and rest = "[]"]) (use assms in simp_all)
  with accept_headed [OF assms(6), of t] show ?thesis by (simp add: dispatch_stream_def control_header_def)
qed

lemma serve_activation:
  assumes "postcard_law (step_codec svc)" and "sendable (step_codec svc) Done"
    and "\<forall>s \<in> set ss. s \<noteq> Done \<and> sendable (step_codec svc) s" and "direct (executor_run svc) i n ss = (rs, n')"
    and "\<forall>r \<in> set rs. sendable (result_codec svc) (result_of r)" and "open_tx t"
    and "pending served = encode_header (activation_header i g) @ concat (map (msg_frame (step_codec svc)) ss) @
      msg_frame (step_codec svc) Done"
  shows "dispatch_serve svc dev n (Inr (t, served) # chs) =
    (case dispatch_serve svc dev (executor_drop svc n' i) chs of (m, sends) \<Rightarrow>
       (m, t\<lparr>sent := sent t @ concat (map (\<lambda>r. msg_frame (result_codec svc) (result_of r)) rs)\<rparr> # sends))"
proof -
  let ?recv = "served\<lparr>pending := concat (map (msg_frame (step_codec svc)) ss) @ msg_frame (step_codec svc) Done\<rparr>"
  have "serve_loop (step_codec svc) (result_codec svc) (executor_run svc) i n t ?recv =
      (n', t\<lparr>sent := sent t @ concat (map (\<lambda>r. msg_frame (result_codec svc) (result_of r)) rs)\<rparr>)"
    by (rule serve_loop_conversation [OF assms(1-6), where rest = "[]"]) simp
  with accept_headed [OF assms(7), of t] show ?thesis
    by (simp add: dispatch_stream_def activation_header_def serve_stream_def)
qed

text \<open>Both ends of a control exchange.\<close>

lemma request_served:
  assumes "postcard_law (request_codec svc)" and "postcard_law (response_codec svc)"
    and "fits (request_codec svc) q" and "fits (response_codec svc) a"
    and "control_handle svc n dev q = (Some a, n')"
    and "open_tx s" and "sent s = []" and "open_tx t" and "sent t = []"
    and "pending served = snd (control_request (request_codec svc) (response_codec svc) (Inr (s, r)) q)"
    and "dispatch_serve svc dev n (Inr (t, served) # chs) = (m, t' # sends)"
    and "pending r = sent t'"
  shows "fst (control_request (request_codec svc) (response_codec svc) (Inr (s, r)) q) = Inr a \<and>
    dispatch_serve svc dev n' chs = (m, sends)"
proof -
  have "pending served = encode_header control_header @ msg_frame (request_codec svc) q"
    using assms(10) request_sends [OF assms(3,6)] assms(7) by simp
  from serve_control [OF assms(1,3,4,5,8) this, of chs] assms(9,11)
  have "dispatch_serve svc dev n' chs = (m, sends)" "sent t' = msg_frame (response_codec svc) a"
    by (auto split: prod.splits)
  with request_receives [OF assms(2,3,4,6), of r "[]"] assms(12) show ?thesis by simp
qed

section \<open>Properties\<close>

text \<open>A request is answered by the handler of the device it was sent to. When the device serves the
  stream the requester opened, and the requester reads what the device wrote, the requester gets the
  handler's response to its request, made in the name of the connection's authenticated peer, and the
  device is left in the state its handler left.\<close>

theorem control_exchange:
  assumes "postcard_law (request_codec svc)" and "postcard_law (response_codec svc)"
    and "fits (request_codec svc) q" and "fits (response_codec svc) a"
    and "control_handle svc n dev q = (Some a, n')"
    and "open_tx s" and "sent s = []" and "open_tx t" and "sent t = []"
    and "pending served = snd (control_request (request_codec svc) (response_codec svc) (Inr (s, r)) q)"
    and "dispatch_serve svc dev n [Inr (t, served)] = (m, [t'])"
    and "pending r = sent t'"
  shows "fst (control_request (request_codec svc) (response_codec svc) (Inr (s, r)) q) = Inr a \<and> m = n'"
  using request_served [OF assms] by simp

definition example_requests :: "request postcard" where
  "example_requests = \<lparr>to_bytes = \<lambda>q. if q = Hello then Inr [0] else Inl ''size'',
     of_bytes = \<lambda>bs. if bs = [0] then Inr Hello else Inl ''bad''\<rparr>"

definition example_responses :: "response postcard" where
  "example_responses = \<lparr>to_bytes = \<lambda>r. if r = WorkerRegistered then Inr [4] else Inl ''size'',
     of_bytes = \<lambda>bs. if bs = [4] then Inr WorkerRegistered else Inl ''bad''\<rparr>"

definition example_services :: "nat services" where
  "example_services = \<lparr>request_codec = example_requests, response_codec = example_responses,
     step_codec = example_steps, result_codec = example_results, ack_codec = example_acks,
     control_handle = (\<lambda>h dev q. (Some WorkerRegistered, h + 1)), executor_run = (\<lambda>x i s. (Inl ''none'', x)),
     executor_drop = (\<lambda>x i. x), rpc_connect = (\<lambda>x dev. (None, x)), rpc_reads = (\<lambda>r. []), rpc_halt = (0, True)\<rparr>"

lemma control_exchange_witness:
  "fst (control_request example_requests example_responses (Inr (fresh_tx, \<lparr>pending = frame [4], rx_fault = []\<rparr>)) Hello) =
     Inr WorkerRegistered"
proof -
  let ?r = "\<lparr>pending = frame [4], rx_fault = []\<rparr>"
  let ?served = "\<lparr>pending = encode_header control_header @ frame [0], rx_fault = []\<rparr>"
  have c: "postcard_law (request_codec example_services)" "postcard_law (response_codec example_services)"
    "fits (request_codec example_services) Hello" "fits (response_codec example_services) WorkerRegistered"
    by (auto simp: example_services_def example_requests_def example_responses_def postcard_law_def fits_def
        MAX_CONTROL_FRAME_def split: if_splits)
  have tx: "open_tx fresh_tx" "sent fresh_tx = []" by (simp_all add: fresh_tx_def open_tx_def)
  have f: "msg_frame (request_codec example_services) Hello = frame [0]"
    "msg_frame (response_codec example_services) WorkerRegistered = frame [4]"
    by (simp_all add: msg_frame_def example_services_def example_requests_def example_responses_def)
  have h: "control_handle example_services 7 (DeviceId [1]) Hello = (Some WorkerRegistered, 8)"
    by (simp add: example_services_def)
  have p: "pending ?served =
      snd (control_request (request_codec example_services) (response_codec example_services) (Inr (fresh_tx, ?r)) Hello)"
    using request_sends [OF c(3) tx(1), of "response_codec example_services" ?r] tx(2) f by simp
  have "pending ?served = encode_header control_header @ msg_frame (request_codec example_services) Hello" using f by simp
  from serve_control [OF c(1,3,4) h tx(1) this, of "[]"]
  have d: "dispatch_serve example_services (DeviceId [1]) 7 [Inr (fresh_tx, ?served)] =
      (8, [fresh_tx\<lparr>sent := sent fresh_tx @ msg_frame (response_codec example_services) WorkerRegistered, finished := True\<rparr>])"
    by simp
  have "pending ?r = sent (fresh_tx\<lparr>sent := sent fresh_tx @ msg_frame (response_codec example_services) WorkerRegistered, finished := True\<rparr>)"
    using tx(2) f by simp
  from control_exchange [OF c h tx tx p d this] show ?thesis by (simp add: example_services_def)
qed

text \<open>What a stream is handed to does not depend on the generation in its header: a stream opened for
  an old placement is served as one opened for the current placement is.\<close>

theorem generation_ignored:
  "dispatch_stream svc dev st (header\<lparr>generation := g\<rparr>, send, recv) = dispatch_stream svc dev st (header, send, recv)"
  by (cases "kind header") (simp_all add: dispatch_stream_def)

text \<open>A part of the device that its executor and its RPC handler leave alone changes only by control
  requests: whatever a peer sends on streams of other kinds, it stays as it was. And after the first
  stream that cannot be accepted, nothing the peer sends is served.\<close>

theorem streams_isolated:
  assumes "\<And>x i s. part (snd (executor_run svc x i s)) = part x" and "\<And>x i. part (executor_drop svc x i) = part x"
    and "\<And>x d. part (snd (rpc_connect svc x d)) = part x"
  shows "(kind header = Control \<or> part (fst (dispatch_stream svc dev n (header, send, recv))) = part n) \<and>
    dispatch_serve svc dev n (chs @ Inl e # rest) = dispatch_serve svc dev n chs"
proof
  have loop: "part (fst (serve_loop ks kr (executor_run svc) i x s r)) = part x" for ks kr i x s r
  proof (induction ks kr "executor_run svc" i x s r rule: serve_loop.induct)
    case (1 ks kr i x s r)
    show ?case
    proof (cases "read_frame MAX_ACTIVATION_FRAME r")
      case (Inr f)
      obtain bs r' where f: "read_frame MAX_ACTIVATION_FRAME r = Inr (bs, r')" using Inr by (cases f) simp
      show ?thesis
      proof (cases "of_bytes ks bs")
        case step: (Inr st)
        obtain a x' where x: "executor_run svc x i st = (a, x')" by fastforce
        then have "part x' = part x" using assms(1) [of x i st] by simp
        with 1 [OF f refl step _ x [symmetric]] f step x show ?thesis
          by (subst serve_loop.simps) (auto split: sum.split prod.split)
      qed (subst serve_loop.simps, simp add: f)
    qed (subst serve_loop.simps, simp)
  qed
  show "kind header = Control \<or> part (fst (dispatch_stream svc dev n (header, send, recv))) = part n"
    by (cases "kind header") (simp_all add: dispatch_stream_def serve_stream_def prod.case_eq_if loop assms(2,3))
  show "dispatch_serve svc dev n (chs @ Inl e # rest) = dispatch_serve svc dev n chs"
    by (induction chs arbitrary: n) (simp_all add: accept_stream_def split: sum.split)
qed

end
