(* ===== verification/Node.thy ===== *)
theory Node
  imports Dispatch Candle_Shard Facts Runtime
begin

text \<open>
  \<open>crates/latticed/src/node.rs\<close>: a device answering for itself. Its state is its trust store with the
  file behind it, the layers its shard thread holds and its inference runtime; the files, the clock and
  the engine are the surroundings. The thread takes its jobs one at a time, so a job is one step of the
  state; a job that panics ends the thread for good. The node provides both interfaces of a served
  connection, \<open>control_handler\<close> and \<open>executor\<close>.
\<close>

section \<open>The state\<close>

datatype ('t, 'q) thread = Alive "('t, 'q) candle_shard option" | Died

record ('t, 'q) node =
  node_store :: trust_store
  node_disk :: "bytes disk"
  node_id :: device_id
  node_name :: string
  node_platform :: string
  node_model :: "string option"
  shard_thread :: "('t, 'q) thread"
  node_runtime :: "runtime option"

text \<open>What the operations ask of the outside. \<open>open_file\<close> is the engine opening the model file.\<close>

record ('t, 'q) surroundings =
  engine_ops :: "('t, 'q) candle"
  conversions :: "'t convert"
  clock_step :: nat
  hash_of :: "string \<Rightarrow> engine_error + string"
  open_file :: "string \<Rightarrow> shard_spec \<Rightarrow> engine_error + ('t, 'q) candle_shard"
  engine_message :: "engine_error \<Rightarrow> string"
  key_hash :: "bytes \<Rightarrow> bytes"
  key_check :: "bytes \<Rightarrow> string + bytes"
  time_now :: nat
  peers_json :: "paired_peer list \<Rightarrow> string + bytes"
  hex_text :: "bytes \<Rightarrow> string"
  net_message :: "net_error \<Rightarrow> string"
  runtime_info :: "device_id \<Rightarrow> runtime \<Rightarrow> (string + engine_capabilities) \<times> runtime"

section \<open>The shard thread\<close>

datatype job = LoadJob string shard_spec | RunJob u64 step | DropJob u64

datatype job_reply = LoadReply response | RunReply "string + payload" | NoReply

text \<open>\<open>None\<close>: the step panicked.\<close>

definition run_step ::
    "('t, 'q) surroundings \<Rightarrow> ('t, 'q) candle_shard option \<Rightarrow> u64 \<Rightarrow> step \<Rightarrow>
       (string + payload) option \<times> ('t, 'q) candle_shard option" where
  "run_step e held i s =
     (case held of
        None \<Rightarrow> (Some (Inl ''this device has been given no layers''), held)
      | Some sh \<Rightarrow>
          (let answer = (\<lambda>(r, sh). (if r = Inl Panicked then None else Some (map_err (engine_message e) r), Some sh)) in
           case s of
             PrefillStep p x \<Rightarrow> answer (prefill (engine_ops e) (conversions e) sh i p x)
           | DecodeStep p x \<Rightarrow> answer (decode (engine_ops e) (conversions e) (clock_step e) sh i p x)
           | Done \<Rightarrow> (Some (Inl ''Done is handled by the stream, not the shard''), held)))"

text \<open>One turn of the thread's loop; a job sent to a thread that has died, or dies on it, has no reply.\<close>

definition thread_job :: "('t, 'q) surroundings \<Rightarrow> ('t, 'q) thread \<Rightarrow> job \<Rightarrow> job_reply option \<times> ('t, 'q) thread" where
  "thread_job e t j =
     (case t of
        Died \<Rightarrow> (None, Died)
      | Alive held \<Rightarrow>
          (case j of
             LoadJob path spec \<Rightarrow>
               (case open_file e path spec of
                  Inr sh \<Rightarrow>
                    (case stats sh of
                       None \<Rightarrow> (None, Died)
                     | Some st \<Rightarrow>
                         (Some (LoadReply (ShardLoaded (weight_bytes_held st) (unat (kv_bytes_held st)))), Alive (Some sh)))
                | Inl err \<Rightarrow>
                    (if err = Panicked then (None, Died)
                     else (Some (LoadReply (Refused (''could not load the shard: '' @ engine_message e err))), Alive held)))
           | RunJob i s \<Rightarrow>
               (case run_step e held i s of
                  (None, _) \<Rightarrow> (None, Died)
                | (Some r, held) \<Rightarrow> (Some (RunReply r), Alive held))
           | DropJob i \<Rightarrow> (Some NoReply, Alive (map_option (\<lambda>sh. drop_session sh i) held))))"

section \<open>The node\<close>

definition node_new :: "trust_store \<Rightarrow> bytes disk \<Rightarrow> device_id \<Rightarrow> string \<Rightarrow> string \<Rightarrow> string option \<Rightarrow> ('t, 'q) node" where
  "node_new ps d i n p m =
     \<lparr>node_store = ps, node_disk = d, node_id = i, node_name = n, node_platform = p, node_model = m,
      shard_thread = Alive None, node_runtime = None\<rparr>"

definition set_runtime :: "runtime \<Rightarrow> ('t, 'q) node \<Rightarrow> ('t, 'q) node" where
  "set_runtime r n = n\<lparr>node_runtime := Some r\<rparr>"

definition authorize_master :: "device_id option \<Rightarrow> ('t, 'q) node \<Rightarrow> ('t, 'q) node" where
  "authorize_master m n = n\<lparr>node_runtime := map_option (authorize m) (node_runtime n)\<rparr>"

definition knows :: "('t, 'q) node \<Rightarrow> device_id \<Rightarrow> bool" where
  "knows n i \<longleftrightarrow> trust_get (node_store n) i \<noteq> None"

text \<open>
  A slice of a text up to a byte index panics (\<open>None\<close>) inside a character; the text of a message is
  given by its UTF-8 bytes, where the bytes that continue a character are those from 128 to 191.
\<close>

definition continues_char :: "char \<Rightarrow> bool" where
  "continues_char ch \<longleftrightarrow> (128 :: nat) \<le> of_char ch \<and> (of_char ch :: nat) < 192"

definition slice_to :: "nat \<Rightarrow> string \<Rightarrow> string option" where
  "slice_to k s = (if k = length s \<or> k < length s \<and> \<not> continues_char (s ! k) then Some (take k s) else None)"

definition load_shard :: "('t, 'q) surroundings \<Rightarrow> shard_spec \<Rightarrow> ('t, 'q) node \<Rightarrow> response option \<times> ('t, 'q) node" where
  "load_shard e spec n =
     (case node_model n of
        None \<Rightarrow> (Some (Refused ''this device has no model to serve''), n)
      | Some path \<Rightarrow>
          (case hash_of e path of
             Inl err \<Rightarrow> (Some (Refused (''could not hash the model: '' @ engine_message e err)), n)
           | Inr hash \<Rightarrow>
               (if hash \<noteq> model_hash spec then
                  (Option.bind (slice_to 16 hash) (\<lambda>a.
                   Option.bind (slice_to (min 16 (length (model_hash spec))) (model_hash spec)) (\<lambda>b.
                   Some (Refused (''this device holds '' @ a @ '', not '' @ b)))), n)
                else if shard_thread n = Died then (Some (Refused ''the shard thread is gone''), n)
                else
                  (case thread_job e (shard_thread n) (LoadJob path spec) of
                     (Some (LoadReply r), t) \<Rightarrow> (Some r, n\<lparr>shard_thread := t\<rparr>)
                   | (_, t) \<Rightarrow> (Some (Refused ''the shard thread died loading''), n\<lparr>shard_thread := t\<rparr>)))))"

fun introduce ::
    "('t, 'q) surroundings \<Rightarrow> device_id \<Rightarrow> introduction list \<Rightarrow> nat \<times> nat \<Rightarrow> ('t, 'q) node \<Rightarrow> response \<times> ('t, 'q) node" where
  "introduce e dev [] (added, known) n = (Provisioned added known, n)"
| "introduce e dev (i # is) (added, known) n =
     (case into_peer (key_hash e) (time_now e) (key_check e) i dev of
        Inl err \<Rightarrow> (Refused (net_message e err), n)
      | Inr peer \<Rightarrow>
          if paired_peer.device_id peer = node_id n \<or> knows n (paired_peer.device_id peer)
          then introduce e dev is (added, known + 1) n
          else
            (case trust_insert (peers_json e) peer (node_store n, node_disk n) of
               (r, ps, d) \<Rightarrow>
                 (let n = n\<lparr>node_store := ps, node_disk := d\<rparr> in
                  case r of
                    Inl err \<Rightarrow> (Refused (''could not record the introduction: '' @ net_message e err), n)
                  | Inr _ \<Rightarrow> introduce e dev is (added + 1, known) n)))"

definition accept_introductions ::
    "('t, 'q) surroundings \<Rightarrow> device_id \<Rightarrow> introduction list \<Rightarrow> ('t, 'q) node \<Rightarrow> response \<times> ('t, 'q) node" where
  "accept_introductions e dev peers n =
     (if \<not> knows n dev then (Refused (show_id (hex_text e) dev @ '' is not a paired device''), n)
      else introduce e dev peers (0, 0) n)"

definition node_handle :: "('t, 'q) surroundings \<Rightarrow> ('t, 'q) node handler" where
  "node_handle e n dev q =
     (case q of
        InferenceInfo \<Rightarrow>
          (case node_runtime n of
             None \<Rightarrow> (Some (Refused ''GPU inference unavailable; run ./scripts/setup-engine.sh and restart latticed worker''), n)
           | Some r \<Rightarrow>
               (case runtime_info e dev r of
                  (Inr info, r) \<Rightarrow> (Some (InferenceInfoIs info), n\<lparr>node_runtime := Some r\<rparr>)
                | (Inl err, r) \<Rightarrow> (Some (Refused err), n\<lparr>node_runtime := Some r\<rparr>)))
      | Hello \<Rightarrow> (Some (IdentityIs (node_id n) (node_name n) (node_platform n)), n)
      | Provision peers \<Rightarrow> (case accept_introductions e dev peers n of (r, n) \<Rightarrow> (Some r, n))
      | LoadShard spec \<Rightarrow> load_shard e spec n
      | RegisterWorker _ \<Rightarrow> (Some (Refused ''this device is not running as master''), n))"

definition node_run :: "('t, 'q) surroundings \<Rightarrow> ('t, 'q) node \<Rightarrow> u64 \<Rightarrow> step \<Rightarrow> (string + payload) \<times> ('t, 'q) node" where
  "node_run e n i s =
     (if shard_thread n = Died then (Inl ''the shard thread is gone'', n)
      else
        (case thread_job e (shard_thread n) (RunJob i s) of
           (Some (RunReply r), t) \<Rightarrow> (r, n\<lparr>shard_thread := t\<rparr>)
         | (_, t) \<Rightarrow> (Inl ''the shard thread died mid-step'', n\<lparr>shard_thread := t\<rparr>)))"

definition node_drop :: "('t, 'q) surroundings \<Rightarrow> ('t, 'q) node \<Rightarrow> u64 \<Rightarrow> ('t, 'q) node" where
  "node_drop e n i = n\<lparr>shard_thread := snd (thread_job e (shard_thread n) (DropJob i))\<rparr>"

definition roster_for :: "device_id \<Rightarrow> paired_peer list \<Rightarrow> introduction list" where
  "roster_for target peers = map introduction_of (filter (\<lambda>p. paired_peer.device_id p \<noteq> target) peers)"

section \<open>The interfaces\<close>

lemma node_handle_Hello: "node_handle e n dev Hello = (Some (IdentityIs (node_id n) (node_name n) (node_platform n)), n)"
  by (simp add: node_handle_def)

interpretation node_control: control_handler "node_handle e" for e :: "('t, 'q) surroundings"
  by unfold_locales (simp_all add: node_handle_Hello)

lemma thread_drop_twice:
  "snd (thread_job e (snd (thread_job e t (DropJob i))) (DropJob i)) = snd (thread_job e t (DropJob i))"
  by (cases t) (simp_all add: thread_job_def option.map_comp comp_def candle.drop_twice)

interpretation node_executor: executor "node_run e" "node_drop e" for e :: "('t, 'q) surroundings"
  by unfold_locales (simp add: node_drop_def thread_drop_twice)


section \<open>Introductions\<close>

lemma into_peer_Inr:
  "into_peer sha now check x dev = Inr p \<Longrightarrow>
     introduced_by p = Some dev \<and> name p = intro_name x \<and> platform p = intro_platform x \<and>
     paired_peer.device_id p = from_public_key sha (public_key p) \<and> check (intro_key x) = Inr (public_key p)"
  by (auto simp: into_peer_def introduced_peer_def new_peer_def result_simps)

lemma trust_insert_step:
  assumes "trust_insert js p (node_store n, node_disk n) = (r, ps, d)"
  shows "trust_get ps = (trust_get (node_store n))(paired_peer.device_id p \<mapsto> p)"
  using trust_insert_get [OF assms] .

text \<open>The fields an introduction does not touch.\<close>

lemma introduce_fields:
  "introduce e dev xs c n = (r, n') \<Longrightarrow>
     n' = n\<lparr>node_store := node_store n', node_disk := node_disk n'\<rparr>"
proof (induction e dev xs c n rule: introduce.induct)
  case (2 e dev i xs added known n)
  then show ?case by (fastforce split: sum.splits if_splits prod.splits simp: Let_def)
qed simp

lemma introduce_id: "introduce e dev xs c n = (r, n') \<Longrightarrow> node_id n' = node_id n"
proof -
  assume "introduce e dev xs c n = (r, n')"
  from introduce_fields [OF this] have "node_id n' = node_id (n\<lparr>node_store := node_store n', node_disk := node_disk n'\<rparr>)"
    by (rule arg_cong)
  then show ?thesis by simp
qed

lemma introduce_kept:
  "introduce e dev xs c n = (r, n') \<Longrightarrow> trust_get (node_store n) i = Some p \<Longrightarrow> trust_get (node_store n') i = Some p"
proof (induction e dev xs c n rule: introduce.induct)
  case (2 e dev x xs added known n)
  show ?case
  proof (cases "into_peer (key_hash e) (time_now e) (key_check e) x dev")
    case (Inl err)
    with 2 show ?thesis by simp
  next
    case (Inr peer)
    obtain r1 ps d where ins: "trust_insert (peers_json e) peer (node_store n, node_disk n) = (r1, ps, d)"
      by (metis prod_cases3)
    let ?known = "paired_peer.device_id peer = node_id n \<or> knows n (paired_peer.device_id peer)"
    have "trust_get ps i = Some p" if "\<not> ?known"
      using trust_insert_step [OF ins] 2(4) that by (auto simp: knows_def)
    then show ?thesis using 2 Inr ins by (cases r1) (auto simp: Let_def split: if_splits)
  qed
qed simp

lemma introduce_new:
  "introduce e dev xs c n = (r, n') \<Longrightarrow> trust_get (node_store n') i = Some p \<Longrightarrow> trust_get (node_store n) i = None \<Longrightarrow>
     i \<noteq> node_id n \<and> paired_peer.device_id p = i \<and>
     (\<exists>x \<in> set xs. into_peer (key_hash e) (time_now e) (key_check e) x dev = Inr p)"
proof (induction e dev xs c n rule: introduce.induct)
  case (2 e dev x xs added known n)
  show ?case
  proof (cases "into_peer (key_hash e) (time_now e) (key_check e) x dev")
    case (Inl err)
    with 2 show ?thesis by simp
  next
    case (Inr peer)
    obtain r1 ps d where ins: "trust_insert (peers_json e) peer (node_store n, node_disk n) = (r1, ps, d)"
      by (metis prod_cases3)
    let ?n = "n\<lparr>node_store := ps, node_disk := d\<rparr>"
    show ?thesis
    proof (cases "paired_peer.device_id peer = node_id n \<or> knows n (paired_peer.device_id peer)")
      case True
      with 2 Inr show ?thesis by auto
    next
      case False
      note get = trust_insert_step [OF ins]
      have kept: "trust_get (node_store n') (paired_peer.device_id peer) = Some peer"
        using 2(3) Inr ins False get introduce_kept [of e dev xs "(added + 1, known)" ?n r n' "paired_peer.device_id peer" peer]
        by (cases r1) (auto simp: Let_def)
      show ?thesis
      proof (cases "i = paired_peer.device_id peer")
        case True
        with kept 2(4) Inr False show ?thesis by auto
      next
        case other: False
        have "trust_get (node_store ?n) i = None" using get other 2(5) by simp
        with 2 Inr ins False other show ?thesis
          by (cases r1) (auto simp: Let_def)
      qed
    qed
  qed
qed simp

lemma introduce_done:
  "introduce e dev xs (a, k) n = (Provisioned a' k', n') \<Longrightarrow>
     a' + k' = a + k + length xs \<and>
     (\<forall>x \<in> set xs. \<exists>p. into_peer (key_hash e) (time_now e) (key_check e) x dev = Inr p \<and>
        (paired_peer.device_id p = node_id n \<or> knows n' (paired_peer.device_id p)))"
proof (induction e dev xs "(a, k)" n arbitrary: a k rule: introduce.induct)
  case (2 e dev x xs added known n)
  show ?case
  proof (cases "into_peer (key_hash e) (time_now e) (key_check e) x dev")
    case (Inl err)
    with 2 show ?thesis by simp
  next
    case (Inr peer)
    obtain r1 ps d where ins: "trust_insert (peers_json e) peer (node_store n, node_disk n) = (r1, ps, d)"
      by (metis prod_cases3)
    let ?n = "n\<lparr>node_store := ps, node_disk := d\<rparr>"
    show ?thesis
    proof (cases "paired_peer.device_id peer = node_id n \<or> knows n (paired_peer.device_id peer)")
      case True
      then have i: "introduce e dev xs (added, known + 1) n = (Provisioned a' k', n')" using 2(3) Inr by auto
      have "knows n' (paired_peer.device_id peer)" if "knows n (paired_peer.device_id peer)"
        using introduce_kept [OF i] that by (auto simp: knows_def)
      with 2(1) [OF Inr True i] Inr True show ?thesis by auto
    next
      case False
      then obtain u where u: "r1 = Inr u" and i: "introduce e dev xs (added + 1, known) ?n = (Provisioned a' k', n')"
        using 2(3) Inr ins by (cases r1) (auto simp: Let_def)
      have "trust_get (node_store ?n) (paired_peer.device_id peer) = Some peer" using trust_insert_step [OF ins] by simp
      from introduce_kept [OF i this] have "knows n' (paired_peer.device_id peer)" by (simp add: knows_def)
      with 2(2) [OF Inr False ins [symmetric] refl refl u i] Inr show ?thesis by auto
    qed
  qed
qed simp


section \<open>The shard thread's answers\<close>

lemma load_cases:
  "load_shard e spec n = (Some (ShardLoaded w k), n') \<longleftrightarrow>
     (\<exists>path s st held. node_model n = Some path \<and> hash_of e path = Inr (model_hash spec) \<and> shard_thread n = Alive held \<and>
        open_file e path spec = Inr s \<and> stats s = Some st \<and> w = weight_bytes_held st \<and> k = unat (kv_bytes_held st) \<and>
        n' = n\<lparr>shard_thread := Alive (Some s)\<rparr>)"
  by (cases "shard_thread n")
    (auto simp: load_shard_def thread_job_def bind_eq_Some_conv split: option.splits sum.splits if_splits)

lemma load_thread:
  "load_shard e spec n = (r, n') \<Longrightarrow>
     shard_thread n' = shard_thread n \<or> shard_thread n' = Died \<or> (\<exists>w k. r = Some (ShardLoaded w k))"
  by (cases "shard_thread n")
    (auto simp: load_shard_def thread_job_def split: option.splits sum.splits if_splits)



lemma load_panics:
  "fst (load_shard e spec n) = None \<longleftrightarrow>
     (\<exists>path hash. node_model n = Some path \<and> hash_of e path = Inr hash \<and> hash \<noteq> model_hash spec \<and>
       (slice_to 16 hash = None \<or> slice_to (min 16 (length (model_hash spec))) (model_hash spec) = None))"
  by (auto simp: load_shard_def bind_eq_None_conv split: option.split sum.split job_reply.split prod.split)

section \<open>An example\<close>

definition example_surroundings :: "(int list, int) surroundings" where
  "example_surroundings = \<lparr>engine_ops = example_candle, conversions = example_convert, clock_step = 1,
     hash_of = (\<lambda>_. Inr ''m''), open_file = (\<lambda>_ _. Inr example_shard), engine_message = (\<lambda>_. ''engine error''),
     key_hash = id, key_check = Inr, time_now = 5, peers_json = (\<lambda>_. Inr [1]), hex_text = (\<lambda>_. ''id''),
     net_message = (\<lambda>_. ''error''), runtime_info = (\<lambda>_ r. (Inl ''busy'', r))\<rparr>"

definition example_peer :: "bytes \<Rightarrow> paired_peer" where
  "example_peer key = new_peer id 5 key ''peer'' ''linux''"

text \<open>A device that trusts its master, key \<open>[1]\<close>.\<close>

definition example_node :: "(int list, int) node" where
  "example_node = node_new [(DeviceId [1], example_peer [1])]
     \<lparr>content = Missing, mkdir_result = Inr (), write_result = Inr ()\<rparr> (DeviceId [2]) ''me'' ''linux'' (Some ''model.gguf'')"

definition provisioned_node :: "(int list, int) node" where
  "provisioned_node = snd (accept_introductions example_surroundings (DeviceId [1])
     (roster_for (DeviceId [2]) [example_peer [2], example_peer [3], example_peer [1]]) example_node)"

lemma example_provision:
  "accept_introductions example_surroundings (DeviceId [1])
     (roster_for (DeviceId [2]) [example_peer [2], example_peer [3], example_peer [1]]) example_node =
   (Provisioned 1 1, provisioned_node)"
  unfolding provisioned_node_def
  by (simp add: accept_introductions_def roster_for_def example_node_def node_new_def knows_def trust_get_def
      example_peer_def example_surroundings_def into_peer_def introduction_of_def introduced_peer_def new_peer_def
      from_public_key_def bt_get_def bt_values_def less_device_id_def trust_insert_def trust_save_def write_file_def Let_def)

lemma roster_known:
  assumes "\<forall>k k'. key_check e k = Inr k' \<longrightarrow> k' = k"
    and "\<forall>p \<in> set peers. paired_peer.device_id p = from_public_key (key_hash e) (public_key p)"
    and "node_handle e n dev (Provision (roster_for (node_id n) peers)) = (Some (Provisioned added known), n')"
  shows "added + known = length (roster_for (node_id n) peers) \<and>
    (\<forall>p \<in> set peers. paired_peer.device_id p = node_id n \<or> knows n' (paired_peer.device_id p))"
proof -
  have i: "introduce e dev (roster_for (node_id n) peers) (0, 0) n = (Provisioned added known, n')"
    using assms(3) by (auto simp: node_handle_def accept_introductions_def split: prod.splits if_splits)
  have "knows n' (paired_peer.device_id p)" if p: "p \<in> set peers" "paired_peer.device_id p \<noteq> node_id n" for p
  proof -
    have "introduction_of p \<in> set (roster_for (node_id n) peers)" using p by (auto simp: roster_for_def)
    with introduce_done [OF i] obtain q where
      q: "into_peer (key_hash e) (time_now e) (key_check e) (introduction_of p) dev = Inr q"
      and k: "paired_peer.device_id q = node_id n \<or> knows n' (paired_peer.device_id q)" by blast
    from into_peer_Inr [OF q] have "public_key q = public_key p" "paired_peer.device_id q = from_public_key (key_hash e) (public_key q)"
      using assms(1) by (auto simp: introduction_of_def)
    then have "paired_peer.device_id q = paired_peer.device_id p" using assms(2) p(1) by simp
    with k p(2) show ?thesis by simp
  qed
  with introduce_done [OF i] show ?thesis by auto
qed

section \<open>Properties\<close>

text \<open>C25: Introductions only add. Whoever introduces whom, every peer the device already trusts stays
  recorded as it was; each peer that is new was introduced, names its introducer, is filed under the hash
  of its key, passed the key check and is not the device itself; a device nobody knows introduces nobody.\<close>

theorem provision_adds_only:
  assumes "accept_introductions e dev xs n = (r, n')"
  shows "trust_get (node_store n) \<subseteq>\<^sub>m trust_get (node_store n') \<and>
    (\<forall>i p. trust_get (node_store n') i = Some p \<longrightarrow> trust_get (node_store n) i = Some p \<or>
       i \<noteq> node_id n \<and> introduced_by p = Some dev \<and> i = from_public_key (key_hash e) (public_key p) \<and>
       (\<exists>x \<in> set xs. key_check e (intro_key x) = Inr (public_key p))) \<and>
    (knows n dev \<or> n' = n)"
proof (cases "knows n dev")
  case True
  with assms have i: "introduce e dev xs (0, 0) n = (r, n')" by (simp add: accept_introductions_def)
  have "trust_get (node_store n) j = Some p \<or>
       j \<noteq> node_id n \<and> introduced_by p = Some dev \<and> j = from_public_key (key_hash e) (public_key p) \<and>
       (\<exists>x \<in> set xs. key_check e (intro_key x) = Inr (public_key p))" if p: "trust_get (node_store n') j = Some p" for j p
  proof (cases "trust_get (node_store n) j")
    case None
    from introduce_new [OF i p None] obtain x where "x \<in> set xs" "j \<noteq> node_id n" "paired_peer.device_id p = j"
      "into_peer (key_hash e) (time_now e) (key_check e) x dev = Inr p" by blast
    with into_peer_Inr [OF this(4)] show ?thesis by auto
  next
    case (Some q)
    with introduce_kept [OF i Some] p show ?thesis by simp
  qed
  moreover have "trust_get (node_store n) \<subseteq>\<^sub>m trust_get (node_store n')"
    unfolding map_le_def using introduce_kept [OF i] by force
  ultimately show ?thesis using True by blast
next
  case False
  with assms show ?thesis by (auto simp: accept_introductions_def)
qed

lemma provision_adds_only_witness:
  "trust_get (node_store example_node) \<subseteq>\<^sub>m trust_get (node_store provisioned_node)"
  using provision_adds_only [OF example_provision] by blast

text \<open>The master's roster reaches its target. When a device reports a roster as provisioned, it has
  counted every introduction of it once, as added or already known, and it knows every peer of the
  master's list but itself.\<close>

theorem roster_reaches:
  assumes "\<forall>k k'. key_check e k = Inr k' \<longrightarrow> k' = k"
    and "\<forall>p \<in> set peers. paired_peer.device_id p = from_public_key (key_hash e) (public_key p)"
    and "node_handle e n dev (Provision (roster_for (node_id n) peers)) = (Some (Provisioned added known), n')"
  shows "added + known = length (roster_for (node_id n) peers) \<and>
    (\<forall>p \<in> set peers. paired_peer.device_id p = node_id n \<or> knows n' (paired_peer.device_id p))"
  by (rule roster_known [OF assms])

lemma roster_reaches_witness: "knows provisioned_node (DeviceId [3])"
proof -
  let ?peers = "[example_peer [2], example_peer [3], example_peer [1]]"
  have "node_handle example_surroundings example_node (DeviceId [1]) (Provision (roster_for (node_id example_node) ?peers)) =
      (Some (Provisioned 1 1), provisioned_node)"
    using example_provision by (simp add: node_handle_def example_node_def node_new_def)
  from roster_reaches [OF _ _ this] show ?thesis
    by (simp add: example_surroundings_def example_peer_def new_peer_def from_public_key_def example_node_def node_new_def)
qed

text \<open>Layers are loaded from the right file or not at all. A device answers that it holds a range
  exactly when it has a model file, the hash of that file is the one asked for, and its engine opened the
  range; it then holds that range, freshly opened, and reports its own figures.\<close>

theorem load_shard_exact:
  "(load_shard e spec n = (Some (ShardLoaded w k), n')) =
    (\<exists>path s st held. node_model n = Some path \<and> hash_of e path = Inr (model_hash spec) \<and> shard_thread n = Alive held \<and>
      open_file e path spec = Inr s \<and> stats s = Some st \<and> w = weight_bytes_held st \<and> k = unat (kv_bytes_held st) \<and>
      n' = n\<lparr>shard_thread := Alive (Some s)\<rparr>)"
  by (rule load_cases)



text \<open>A peer can make the request handler panic in exactly one way: by asking for layers of a model
  the device does not hold, with a name whose first sixteen bytes end inside a character (the local hash is
  hexadecimal and always has a boundary there).\<close>

theorem handle_panics_iff:
  "(fst (node_handle e n dev q) = None) =
    (\<exists>spec path hash. q = LoadShard spec \<and> node_model n = Some path \<and> hash_of e path = Inr hash \<and>
      hash \<noteq> model_hash spec \<and>
      (slice_to 16 hash = None \<or> slice_to (min 16 (length (model_hash spec))) (model_hash spec) = None))"
  by (cases q) (auto simp: node_handle_def load_panics split: option.split prod.split sum.split)



end
