(* ===== verification/Generate.thy ===== *)
theory Generate
  imports Node
begin

text \<open>
  \<open>crates/latticed/src/generate.rs\<close>: placements of layer ranges, the chain of shards and the decode
  loop. A stage runs here or on a peer; what the peers' streams carry, the model file and the engine are
  in the record \<open>driver\<close>. What is printed is left out, except the tokens, which are the result.
  The lemmas show that the tiling check accepts exactly the placements that cover every layer once, in
  order, and that the loop returns one token per step.
\<close>

definition SESSION :: u64 where "SESSION = 1"

section \<open>Placements\<close>

datatype host = Here | Peer device_id

record placement =
  place_first :: nat
  place_last :: nat
  place_host :: host

record options =
  max_new :: nat
  opt_max_context :: nat
  places :: "placement list"
  opt_wire_dtype :: wire_dtype

datatype placement_error = NotPlacement string | NotRange string | FirstLayer | LastLayer | DeviceIdError

definition placement_from_str :: "(nat \<Rightarrow> string \<Rightarrow> bytes option) \<Rightarrow> string \<Rightarrow> placement_error + placement" where
  "placement_from_str unhex t =
     rbind (ok_or (NotPlacement t) (split_once CHR ''@'' t)) (\<lambda>(range, host).
     rbind (ok_or (NotRange range) (split_once CHR ''-'' range)) (\<lambda>(first, final).
     rbind (ok_or FirstLayer (parse_uint u32_max first)) (\<lambda>lo.
     rbind (ok_or LastLayer (parse_uint u32_max final)) (\<lambda>hi.
     rbind (if host = ''local'' \<or> host = ''here'' then Inr Here
            else map_err (\<lambda>_. DeviceIdError) (rbind (parse_id unhex host) (\<lambda>i. Inr (Peer i)))) (\<lambda>h.
     Inr \<lparr>place_first = lo, place_last = hi, place_host = h\<rparr>)))))"

definition tile_step :: "nat \<Rightarrow> placement \<Rightarrow> string + nat" where
  "tile_step next_layer place =
     (if place_first place \<noteq> next_layer
      then Inl (''layers '' @ show_nat next_layer @ ''..'' @ show_nat (place_first place) @ '' are unplaced'')
      else if place_last place \<le> place_first place
      then Inl (show_nat (place_first place) @ ''-'' @ show_nat (place_last place) @ '' is not a layer range'')
      else Inr (place_last place))"

definition check_tiling :: "placement list \<Rightarrow> nat \<Rightarrow> string + unit" where
  "check_tiling ps layer_count =
     rbind (try_fold tile_step 0 ps) (\<lambda>next_layer.
     if next_layer = layer_count then Inr ()
     else Inl (''placements cover 0..'' @ show_nat next_layer @ '', but the model has '' @ show_nat layer_count @ '' layers''))"

section \<open>Stages\<close>

text \<open>\<open>RunPanic\<close> is the program's panic.\<close>

datatype run_error = RunPanic | RunFailed string

datatype ('t, 'q) stage =
    HereStage shard_spec "('t, 'q) candle_shard"
  | PeerStage device_id remote_shard

record ('t, 'q) driver =
  drive_ops :: "('t, 'q) candle"
  drive_convert :: "'t convert"
  drive_clock :: nat
  drive_open :: "shard_spec \<Rightarrow> engine_error + ('t, 'q) candle_shard"
  drive_hash :: "engine_error + string"
  drive_facts :: "engine_error + model_facts"
  drive_message :: "engine_error \<Rightarrow> string"
  drive_net_message :: "net_error \<Rightarrow> string"
  drive_show_response :: "response \<Rightarrow> string"
  drive_hex :: "bytes \<Rightarrow> string"
  drive_request :: "request postcard"
  drive_response :: "response postcard"
  drive_step :: "step postcard"
  drive_result :: "step_result postcard"
  drive_peers :: "device_id \<Rightarrow> (nat \<Rightarrow> channel \<times> channel) option"

definition engine_failure :: "('t, 'q) driver \<Rightarrow> engine_error \<Rightarrow> run_error" where
  "engine_failure d e = (if e = Panicked then RunPanic else RunFailed (drive_message d e))"

definition in_context :: "string \<Rightarrow> engine_error \<Rightarrow> run_error" where
  "in_context text e = (if e = Panicked then RunPanic else RunFailed text)"

definition stage_run ::
    "('t, 'q) driver \<Rightarrow> ('t, 'q) stage \<Rightarrow> nat \<Rightarrow> payload \<Rightarrow> bool \<Rightarrow> (run_error + payload) \<times> ('t, 'q) stage" where
  "stage_run d st pos input first =
     (case st of
        HereStage spec sh \<Rightarrow>
          (case (if first then prefill (drive_ops d) (drive_convert d) sh SESSION pos input
                 else decode (drive_ops d) (drive_convert d) (drive_clock d) sh SESSION pos input) of
             (r, sh) \<Rightarrow> (map_err (engine_failure d) r, HereStage spec sh))
      | PeerStage i remote \<Rightarrow>
          (case remote_step (drive_step d) (drive_result d) remote
                  (if first then PrefillStep pos input else DecodeStep pos input) of
             (r, remote) \<Rightarrow>
               (map_err (\<lambda>_. RunFailed (''shard on '' @ show_id (drive_hex d) i)) r, PeerStage i remote)))"

section \<open>The pipeline\<close>

text \<open>The streams given are those for the load request and for the activations.\<close>

definition open_remote ::
    "('t, 'q) driver \<Rightarrow> channel \<times> channel \<Rightarrow> device_id \<Rightarrow> shard_spec \<Rightarrow> run_error + ('t, 'q) stage" where
  "open_remote d chs i spec =
     (let who = show_id (drive_hex d) i;
          range = show_nat (first_layer spec) @ ''..'' @ show_nat (last_layer spec);
          net = (\<lambda>e. RunFailed (drive_net_message d e)) in
      rbind (map_err net (fst (control_request (drive_request d) (drive_response d) (fst chs) (LoadShard spec)))) (\<lambda>answer.
      case answer of
        ShardLoaded _ _ \<Rightarrow>
          rbind (map_err net (remote_open (snd chs) SESSION 0)) (\<lambda>shard. Inr (PeerStage i shard))
      | Refused why \<Rightarrow> Inl (RunFailed (who @ '' refused layers '' @ range @ '': '' @ why))
      | other \<Rightarrow> Inl (RunFailed (who @ '' answered a load request with '' @ drive_show_response d other))))"

definition spec_of :: "options \<Rightarrow> string \<Rightarrow> placement \<Rightarrow> shard_spec" where
  "spec_of opts hash place =
     \<lparr>model_hash = hash, first_layer = place_first place, last_layer = place_last place,
      max_context = opt_max_context opts, spec_kv_dtype = KvF16, spec_wire_dtype = opt_wire_dtype opts\<rparr>"

definition open_stage ::
    "('t, 'q) driver \<Rightarrow> options \<Rightarrow> string \<Rightarrow> nat \<Rightarrow> placement \<Rightarrow> run_error + ('t, 'q) stage" where
  "open_stage d opts hash k place =
     (let spec = spec_of opts hash place in
      case place_host place of
        Here \<Rightarrow>
          rbind (map_err (in_context (''loading layers '' @ show_nat (first_layer spec) @ ''..'' @ show_nat (last_layer spec)))
                   (drive_open d spec)) (\<lambda>sh. Inr (HereStage spec sh))
      | Peer i \<Rightarrow>
          rbind (ok_or (RunFailed (''no connection to '' @ show_id (drive_hex d) i)) (drive_peers d i)) (\<lambda>conn.
          open_remote d (conn k) i spec))"

fun open_stages ::
    "('t, 'q) driver \<Rightarrow> options \<Rightarrow> string \<Rightarrow> nat \<Rightarrow> placement list \<Rightarrow> run_error + ('t, 'q) stage list" where
  "open_stages d opts hash k [] = Inr []"
| "open_stages d opts hash k (p # ps) =
     rbind (open_stage d opts hash k p) (\<lambda>st. rbind (open_stages d opts hash (Suc k) ps) (\<lambda>sts. Inr (st # sts)))"

definition pipeline_open :: "('t, 'q) driver \<Rightarrow> model_facts \<Rightarrow> options \<Rightarrow> run_error + ('t, 'q) stage list" where
  "pipeline_open d f opts =
     rbind (map_err (in_context ''hashing the model'') (drive_hash d)) (\<lambda>hash.
     rbind (map_err RunFailed (check_tiling (places opts) (layers f))) (\<lambda>_.
     open_stages d opts hash 0 (places opts)))"

fun pipeline_run ::
    "('t, 'q) driver \<Rightarrow> ('t, 'q) stage list \<Rightarrow> nat \<Rightarrow> payload \<Rightarrow> bool \<Rightarrow> (run_error + payload) \<times> ('t, 'q) stage list" where
  "pipeline_run d [] pos input first = (Inr input, [])"
| "pipeline_run d (st # sts) pos input first =
     (case stage_run d st pos input first of
        (Inl e, st) \<Rightarrow> (Inl e, st # sts)
      | (Inr out, st) \<Rightarrow> (case pipeline_run d sts pos out first of (r, sts) \<Rightarrow> (r, st # sts)))"

text \<open>What is sent to the peers when the run is over.\<close>

definition pipeline_finish :: "('t, 'q) driver \<Rightarrow> ('t, 'q) stage list \<Rightarrow> tx list" where
  "pipeline_finish d sts =
     concat (map (\<lambda>st. case st of PeerStage _ r \<Rightarrow> [remote_finish (drive_step d) r] | HereStage _ _ \<Rightarrow> []) sts)"

section \<open>Decoding\<close>

text \<open>Greedy sampling: the largest logit in the total order, the last of equal ones.\<close>

definition argmax :: "payload \<Rightarrow> run_error + u32" where
  "argmax p =
     (case p of
        Logits vs \<Rightarrow>
          rbind (ok_or (RunFailed ''empty logits'') (max_by (\<lambda>a b. f32_key (snd a) < f32_key (snd b)) (enumerate 0 vs)))
            (\<lambda>best. Inr (of_nat (fst best)))
      | other \<Rightarrow> Inl (RunFailed (''the last shard returned '' @ payload_kind other @ '', not logits'')))"

text \<open>Positions are 32 bits wide.\<close>

definition decode_pos :: "nat \<Rightarrow> nat \<Rightarrow> nat" where
  "decode_pos prompt_len n = unat (of_nat prompt_len + of_nat n :: u32)"

fun decode_loop ::
    "('p \<Rightarrow> nat \<Rightarrow> payload \<Rightarrow> bool \<Rightarrow> (run_error + payload) \<times> 'p) \<Rightarrow> nat \<Rightarrow> nat list \<Rightarrow> 'p \<Rightarrow> u32 \<Rightarrow> u32 list \<Rightarrow>
       (run_error + u32 list) \<times> 'p" where
  "decode_loop drive prompt_len [] p token out = (Inr out, p)"
| "decode_loop drive prompt_len (n # ns) p token out =
     (case drive p (decode_pos prompt_len n) (Tokens [token]) False of
        (r, p) \<Rightarrow>
          (case rbind r argmax of
             Inl e \<Rightarrow> (Inl e, p)
           | Inr token \<Rightarrow> decode_loop drive prompt_len ns p token (out @ [token])))"

definition generate_tokens ::
    "('p \<Rightarrow> nat \<Rightarrow> payload \<Rightarrow> bool \<Rightarrow> (run_error + payload) \<times> 'p) \<Rightarrow> u32 list \<Rightarrow> nat \<Rightarrow> 'p \<Rightarrow> (run_error + u32 list) \<times> 'p" where
  "generate_tokens drive prompt new_tokens p =
     (case drive p 0 (Tokens prompt) True of
        (r, p) \<Rightarrow>
          (case rbind r argmax of
             Inl e \<Rightarrow> (Inl e, p)
           | Inr token \<Rightarrow> decode_loop drive (length prompt) [0..<new_tokens - 1] p token [token]))"

text \<open>Once the stages are open the sizes of the local ones are printed; computing them panics for a header
  without attention heads.\<close>

definition report_stages :: "('t, 'q) stage list \<Rightarrow> run_error + unit" where
  "report_stages sts =
     (if list_all (\<lambda>st. case st of HereStage _ sh \<Rightarrow> stats sh \<noteq> None | PeerStage _ _ \<Rightarrow> True) sts
      then Inr () else Inl RunPanic)"

definition generate_run ::
    "('t, 'q) driver \<Rightarrow> u32 list \<Rightarrow> options \<Rightarrow> run_error + u32 list \<times> tx list" where
  "generate_run d prompt opts =
     rbind (map_err (in_context ''reading the GGUF header'') (drive_facts d)) (\<lambda>f.
     rbind (pipeline_open d f opts) (\<lambda>sts.
     rbind (report_stages sts) (\<lambda>_.
     case generate_tokens (pipeline_run d) prompt (max_new opts) sts of
       (Inl e, _) \<Rightarrow> Inl e
     | (Inr out, sts) \<Rightarrow> Inr (out, pipeline_finish d sts))))"

text \<open>A run that succeeds.\<close>

lemma run_result:
  "(case x of (Inl e, _) \<Rightarrow> Inl e | (Inr out, sts) \<Rightarrow> Inr (out, g sts)) = Inr (out, finals) \<longleftrightarrow>
     (\<exists>sts. x = (Inr out, sts) \<and> finals = g sts)"
proof (cases x)
  case (Pair r sts)
  then show ?thesis by (cases r) auto
qed

lemma generate_run_Inr:
  "generate_run d prompt opts = Inr (out, finals) \<longleftrightarrow>
     (\<exists>f sts sts'. drive_facts d = Inr f \<and> pipeline_open d f opts = Inr sts \<and> report_stages sts = Inr () \<and>
        generate_tokens (pipeline_run d) prompt (max_new opts) sts = (Inr out, sts') \<and> finals = pipeline_finish d sts')"
  by (simp add: generate_run_def result_simps run_result)

section \<open>Tiling\<close>

text \<open>What a list of placements should be: ranges that are not empty, each starting where the one
  before it ends.\<close>

fun tiles :: "nat \<Rightarrow> placement list \<Rightarrow> nat \<Rightarrow> bool" where
  "tiles lo [] hi \<longleftrightarrow> lo = hi"
| "tiles lo (p # ps) hi \<longleftrightarrow> place_first p = lo \<and> place_first p < place_last p \<and> tiles (place_last p) ps hi"

lemma tile_fold: "try_fold tile_step lo ps = Inr hi \<longleftrightarrow> tiles lo ps hi"
  by (induction ps arbitrary: lo) (auto simp: tile_step_def)

lemma check_tiling_iff: "check_tiling ps n = Inr () \<longleftrightarrow> tiles 0 ps n"
  by (auto simp: check_tiling_def rbind_eq_Inr tile_fold split: if_splits)

lemma tiles_le: "tiles lo ps hi \<Longrightarrow> lo \<le> hi"
  by (induction ps arbitrary: lo) fastforce+

text \<open>The layers of the ranges, in order, are the layers of the model.\<close>

lemma tiles_layers: "tiles lo ps hi \<Longrightarrow> concat (map (\<lambda>p. [place_first p..<place_last p]) ps) = [lo..<hi]"
proof (induction ps arbitrary: lo)
  case (Cons p ps)
  then have "[lo..<place_last p] @ [place_last p..<hi] = [lo..<hi]"
    using tiles_le [of "place_last p" ps hi] upt_add_eq_append [of lo "place_last p" "hi - place_last p"] by simp
  moreover have "concat (map (\<lambda>p. [place_first p..<place_last p]) ps) = [place_last p..<hi]"
    using Cons by simp
  ultimately show ?case using Cons.prems by simp
qed simp

lemma layers_tiles:
  "concat (map (\<lambda>p. [place_first p..<place_last p]) ps) = [lo..<hi] \<Longrightarrow> lo \<le> hi \<Longrightarrow>
     \<forall>p \<in> set ps. place_first p < place_last p \<Longrightarrow> tiles lo ps hi"
proof (induction ps arbitrary: lo)
  case (Cons p ps)
  from Cons.prems have p: "place_first p < place_last p" by simp
  then have h: "[place_first p..<place_last p] = place_first p # [Suc (place_first p)..<place_last p]"
    by (rule upt_conv_Cons)
  with Cons.prems(1) have ne: "[lo..<hi] = place_first p # [Suc (place_first p)..<place_last p] @ concat (map (\<lambda>p. [place_first p..<place_last p]) ps)"
    by simp
  then have "lo < hi" by (cases "lo < hi") auto
  then have first: "place_first p = lo" using ne by (simp add: upt_conv_Cons)
  have "place_last p - 1 \<in> set (concat (map (\<lambda>p. [place_first p..<place_last p]) (p # ps)))" using p by auto
  then have "place_last p - 1 \<in> {lo..<hi}" unfolding Cons.prems(1) by simp
  then have le: "place_last p \<le> hi" using p by auto
  have "[lo..<hi] = [lo..<place_last p] @ [place_last p..<hi]"
    using le p first upt_add_eq_append [of lo "place_last p" "hi - place_last p"] by simp
  with Cons.prems(1) first have "concat (map (\<lambda>p. [place_first p..<place_last p]) ps) = [place_last p..<hi]" by simp
  with Cons.IH [OF _ le] Cons.prems(3) first p show ?case by simp
next
  case Nil
  then have "[lo..<hi] = []" by (simp add: eq_commute [of "[]"])
  with Nil(2) show ?case unfolding upt_eq_Nil_conv by auto
qed

section \<open>The loop\<close>

lemma decode_loop_appends:
  "decode_loop drive k ns p token out = (Inr res, p') \<Longrightarrow> \<exists>more. res = out @ more \<and> length more = length ns"
proof (induction ns arbitrary: p token out)
  case (Cons n ns)
  from Cons.prems obtain q token' where "decode_loop drive k ns q token' (out @ [token']) = (Inr res, p')"
    by (auto split: prod.splits sum.splits)
  from Cons.IH [OF this] obtain more where "res = (out @ [token']) @ more" "length more = length ns" by blast
  then show ?case by (intro exI [of _ "token' # more"]) simp
qed simp

lemma generate_tokens_length:
  "generate_tokens drive prompt n p = (Inr out, p') \<Longrightarrow> length out = max 1 n"
  by (auto simp: generate_tokens_def split: prod.splits sum.splits dest!: decode_loop_appends)


section \<open>Sampling\<close>

lemma max_by_enumerate:
  fixes key :: "'a \<Rightarrow> 'k::linorder"
  assumes "max_by (\<lambda>a b. key (snd a) < key (snd b)) (enumerate 0 vs) = Some (i, v)"
  shows "i < length vs \<and> v = vs ! i \<and> (\<forall>j < length vs. key (vs ! j) \<le> key v) \<and>
    (\<forall>j. i < j \<and> j < length vs \<longrightarrow> key (vs ! j) < key v)"
proof -
  from max_by_last [of "\<lambda>a. key (snd a)", OF assms] obtain ys zs where
    e: "enumerate 0 vs = ys @ (i, v) # zs" and z: "\<forall>z \<in> set zs. key (snd z) < key v" by auto
  have len: "length vs = length ys + Suc (length zs)" using arg_cong [OF e, of length] by simp
  have nth: "(ys @ (i, v) # zs) ! j = (j, vs ! j)" if "j < length vs" for j
    using that by (simp add: e [symmetric] nth_enumerate_eq)
  have i: "i = length ys" "v = vs ! i" using nth [of "length ys"] len by auto
  have later: "key (vs ! j) < key v" if "i < j" "j < length vs" for j
  proof -
    have "(j, vs ! j) = zs ! (j - length ys - 1)" using nth [OF that(2)] that i by (simp add: nth_append nth_Cons')
    then have "(j, vs ! j) \<in> set zs" using that i len by simp
    with z show ?thesis by force
  qed
  have "key (vs ! j) \<le> key v" if "j < length vs" for j
    using max_by_key_ge [of "\<lambda>a. key (snd a)", OF assms, of "(j, vs ! j)"] that
    by (force simp: in_set_enumerate_eq)
  with later i len show ?thesis by simp
qed

section \<open>Properties\<close>

text \<open>The tiling check accepts exactly the placements that are non-empty ranges and run every layer of
  the model once, in order.\<close>

theorem tiling_exact:
  "(check_tiling ps n = Inr ()) =
    (concat (map (\<lambda>p. [place_first p..<place_last p]) ps) = [0..<n] \<and> list_all (\<lambda>p. place_first p < place_last p) ps)"
proof -
  have "list_all (\<lambda>p. place_first p < place_last p) ps" if "tiles lo ps n" for lo
    using that by (induction ps arbitrary: lo) auto
  then show ?thesis
    using tiles_layers [of 0 ps n] layers_tiles [of ps 0 n] by (auto simp: check_tiling_iff list_all_iff)
qed

text \<open>C36: A run that ends without an error has produced one token for the prompt and one for each further
  step, so at least one even when none were asked for.\<close>

theorem generate_length:
  assumes "generate_run d prompt opts = Inr (out, finals)"
  shows "length out = max 1 (max_new opts)"
  using assms by (auto simp: generate_run_Inr dest: generate_tokens_length)

text \<open>Sampling is greedy and deterministic: the token chosen indexes a largest logit in the total order
  of floating point numbers, and no logit after it is as large.\<close>

theorem argmax_greedy:
  assumes "argmax p = Inr token" and "p = Logits vs" and "length vs \<le> u32_max"
  shows "unat token < length vs \<and> (\<forall>i < length vs. f32_key (vs ! i) \<le> f32_key (vs ! unat token)) \<and>
    (\<forall>i. unat token < i \<and> i < length vs \<longrightarrow> f32_key (vs ! i) < f32_key (vs ! unat token))"
proof -
  from assms(1,2) obtain i v where m: "max_by (\<lambda>a b. f32_key (snd a) < f32_key (snd b)) (enumerate 0 vs) = Some (i, v)"
    and t: "token = of_nat i"
    by (auto simp: argmax_def rbind_eq_Inr ok_or_def split: option.splits)
  from max_by_enumerate [OF m] have e: "i < length vs" "v = vs ! i" "\<forall>j < length vs. f32_key (vs ! j) \<le> f32_key v"
    "\<forall>j. i < j \<and> j < length vs \<longrightarrow> f32_key (vs ! j) < f32_key v" by blast+
  have "unat token = i" using t e(1) assms(3) by (simp only: unat_of_nat_u32)
  with e show ?thesis by simp
qed


lemma argmax_greedy_witness:
  "argmax (Logits [5, 7, 6]) = Inr 1 \<and> f32_key 5 \<le> f32_key 7 \<and> f32_key 6 < f32_key 7"
proof -
  have a: "argmax (Logits [5, 7, 6]) = Inr 1"
    by (simp add: argmax_def f32_key_def)
  note g = argmax_greedy [OF a refl]
  have "f32_key ([5, 7, 6] ! 0) \<le> f32_key ([5, 7, 6] ! unat (1 :: u32))" using g by fastforce
  moreover have "f32_key ([5, 7, 6] ! 2) < f32_key ([5, 7, 6] ! unat (1 :: u32))" using g by fastforce
  ultimately show ?thesis using a by simp
qed

lemma tiling_exact_witness:
  "concat (map (\<lambda>p. [place_first p..<place_last p]) [\<lparr>place_first = 0, place_last = 2, place_host = Here\<rparr>]) = [0..<2]"
  using tiling_exact [of "[\<lparr>place_first = 0, place_last = 2, place_host = Here\<rparr>]" 2]
  by (simp add: check_tiling_iff)

end
