(* ===== verification/Split_Generation.thy ===== *)
theory Split_Generation
  imports Generate
begin

text \<open>
  The chain of shards behind a generation, against one shard over all layers. A hidden state crosses a
  boundary as 32-bit numbers and is rebuilt on the other side; \<open>wire_law\<close> is what that asks of the
  tensor library. The simulation relates the shards of a chain to the undivided one, step by step: what
  the chain answers the undivided shard answers, so a generation that succeeds on the chain has produced
  the tokens of the undivided model.
\<close>

section \<open>The boundary\<close>

text \<open>A hidden state is one sequence of 32-bit sizes, and its numbers in order rebuild it.\<close>

definition wire_law :: "('t, 'q) candle \<Rightarrow> 't convert \<Rightarrow> bool" where
  "wire_law c v \<longleftrightarrow> (\<forall>t b n h flat xs. t_dims3 c t = Inr (b, n, h) \<and> tensor_flat v t = Inr flat \<and> tensor_f32s v flat = Inr xs \<longrightarrow>
     b = 1 \<and> n \<le> u32_max \<and> h \<le> u32_max \<and> f32s_tensor v xs (1, n, h) = Inr t)"

lemma wire_exact:
  assumes "wire_law c v" and "from_tensor c v t F32 = Inr a"
  shows "to_tensor v a = Inr t"
proof -
  from assms(2) obtain b n h flat xs where d: "t_dims3 c t = Inr (b, n, h)" and f: "tensor_flat v t = Inr flat"
    "tensor_f32s v flat = Inr xs"
    by (auto simp: from_tensor_def result_simps)
  with assms(1) have l: "b = 1" "n \<le> u32_max" "h \<le> u32_max" "f32s_tensor v xs (1, n, h) = Inr t"
    unfolding wire_law_def by blast+
  with from_tensor_to_tensor [OF assms(2)] d f show ?thesis by fastforce
qed

section \<open>One traversal\<close>

definition input_ok :: "'t convert \<Rightarrow> bool \<Rightarrow> payload \<Rightarrow> 't option" where
  "input_ok v emb p =
     (case p of
        Tokens ids \<Rightarrow> if emb then (case ids_tensor v ids of Inr t \<Rightarrow> Some t | Inl _ \<Rightarrow> None) else None
      | Hidden a \<Rightarrow> if emb then None else (case to_tensor v a of Inr t \<Rightarrow> Some t | Inl _ \<Rightarrow> None)
      | Logits _ \<Rightarrow> None)"

definition output_ok :: "('t, 'q) candle \<Rightarrow> 't convert \<Rightarrow> wire_dtype \<Rightarrow> bool \<Rightarrow> 't \<Rightarrow> payload option" where
  "output_ok c v d head y =
     (if head then (case tensor_logits v y of Inr l \<Rightarrow> Some (Logits l) | Inl _ \<Rightarrow> None)
      else (case from_tensor c v y d of Inr a \<Rightarrow> Some (Hidden a) | Inl _ \<Rightarrow> None))"

lemma ok_option: "(case r of Inl _ \<Rightarrow> None | Inr t \<Rightarrow> Some (f t)) = Some y \<longleftrightarrow> (\<exists>t. r = Inr t \<and> y = f t)"
  by (cases r) auto

lemma run_Inr:
  "run c v s p pos = (Inr out, s') \<longleftrightarrow>
     (\<exists>x y m'. input_ok v (owns_embedding s) p = Some x \<and> forward c (model s) x pos = (Inr y, m') \<and>
        output_ok c v (spec_wire_dtype (shard_spec_of s)) (owns_head s) y = Some out \<and> s' = s\<lparr>model := m'\<rparr>)"
  by (cases p; cases "owns_embedding s"; cases "owns_head s")
    (auto simp: run_def input_ok_def output_ok_def Let_def result_simps ok_option split: sum.splits prod.splits)

text \<open>A chain of shards, each fed with what the one before it returned.\<close>

fun chain_run ::
    "('t, 'q) candle \<Rightarrow> 't convert \<Rightarrow> ('t, 'q) candle_shard list \<Rightarrow> payload \<Rightarrow> nat \<Rightarrow>
       (engine_error + payload) \<times> ('t, 'q) candle_shard list" where
  "chain_run c v [] p pos = (Inr p, [])"
| "chain_run c v (s # ss) p pos =
     (case run c v s p pos of
        (Inl e, s) \<Rightarrow> (Inl e, s # ss)
      | (Inr out, s) \<Rightarrow> (case chain_run c v ss out pos of (r, ss) \<Rightarrow> (r, s # ss)))"

text \<open>\<open>s\<close> is one shard over the ranges of the chain: its model covers the chain's models, the chain's ends
  are its ends, and hidden states travel as 32-bit numbers.\<close>

fun ends_ok :: "bool \<Rightarrow> bool \<Rightarrow> ('t, 'q) candle_shard list \<Rightarrow> bool" where
  "ends_ok emb head [] \<longleftrightarrow> False"
| "ends_ok emb head [s] \<longleftrightarrow> owns_embedding s = emb \<and> owns_head s = head"
| "ends_ok emb head (s # s' # ss) \<longleftrightarrow> owns_embedding s = emb \<and> \<not> owns_head s \<and> ends_ok False head (s' # ss)"

definition whole_of :: "('t, 'q) candle \<Rightarrow> ('t, 'q) candle_shard \<Rightarrow> ('t, 'q) candle_shard list \<Rightarrow> bool" where
  "whole_of c w ss \<longleftrightarrow> covers (model w) (map model ss) \<and> masks_ok c (model w) \<and> (\<forall>s \<in> set ss. masks_ok c (model s)) \<and>
     ends_ok (owns_embedding w) (owns_head w) ss \<and> (\<forall>s \<in> insert w (set ss). spec_wire_dtype (shard_spec_of s) = F32)"

lemma ends_ok_Cons:
  "ss \<noteq> [] \<Longrightarrow> ends_ok emb head (s # ss) \<longleftrightarrow> owns_embedding s = emb \<and> \<not> owns_head s \<and> ends_ok False head ss"
  by (cases ss) simp_all

lemma ends_ok_cong:
  "list_all2 (\<lambda>s s'. owns_embedding s = owns_embedding s' \<and> owns_head s = owns_head s') ss ss' \<Longrightarrow>
     ends_ok emb head ss = ends_ok emb head ss'"
proof (induction ss ss' arbitrary: emb rule: list_all2_induct)
  case (Cons s ss s' ss')
  show ?case
  proof (cases ss)
    case Nil
    with Cons show ?thesis by simp
  next
    case (Cons t ts)
    with \<open>list_all2 _ ss ss'\<close> have "ss \<noteq> []" "ss' \<noteq> []" by (auto simp: list_all2_Cons1)
    with Cons.IH Cons.hyps show ?thesis by (simp add: ends_ok_Cons)
  qed
qed simp

text \<open>The shards after a traversal differ in their models only.\<close>

lemma chain_run_fields:
  "chain_run c v ss p pos = (r, ss') \<Longrightarrow> list_all2 (\<lambda>s s'. \<exists>m. s' = s\<lparr>model := m\<rparr>) ss ss'"
proof (induction ss arbitrary: p r ss')
  case (Cons s ss)
  obtain r1 s1 where s1: "run c v s p pos = (r1, s1)" by (cases "run c v s p pos")
  then have m: "\<exists>m. s1 = s\<lparr>model := m\<rparr>"
    by (auto simp: run_def Let_def split: sum.splits prod.splits intro: exI [of _ "model s"])
  show ?case
  proof (cases r1)
    case (Inl e)
    have "list_all2 (\<lambda>s s'. \<exists>m. s' = s\<lparr>model := m\<rparr>) ss ss"
      by (rule list_all2_refl) (metis candle_shard.surjective candle_shard.update_convs(1))
    with Cons.prems s1 m Inl show ?thesis by auto
  next
    case (Inr out)
    obtain r2 ss2 where "chain_run c v ss out pos = (r2, ss2)" by (cases "chain_run c v ss out pos")
    with Cons s1 m Inr show ?thesis by auto
  qed
qed simp

text \<open>A traversal of the chain is a traversal of the undivided shard.\<close>

lemma chain_run_whole:
  assumes "add_law c" and "wire_law c v"
  shows "whole_of c w ss \<Longrightarrow> chain_run c v ss p pos = (Inr out, ss') \<Longrightarrow>
    \<exists>w'. run c v w p pos = (Inr out, w') \<and> whole_of c w' ss' \<and> (\<exists>m. w' = w\<lparr>model := m\<rparr>)"
proof (induction ss arbitrary: w p ss')
  case Nil
  then show ?case by (simp add: whole_of_def)
next
  case (Cons s ss)
  from Cons.prems(2) obtain mid s1 ss1 where run: "run c v s p pos = (Inr mid, s1)"
    and rest: "chain_run c v ss mid pos = (Inr out, ss1)" and ss': "ss' = s1 # ss1"
    by (auto split: sum.splits prod.splits)
  from run obtain x y m1 where x: "input_ok v (owns_embedding s) p = Some x" and y: "forward c (model s) x pos = (Inr y, m1)"
    and mid: "output_ok c v (spec_wire_dtype (shard_spec_of s)) (owns_head s) y = Some mid" and s1: "s1 = s\<lparr>model := m1\<rparr>"
    unfolding run_Inr by blast
  from Cons.prems(1) have wh: "covers (model w) (map model (s # ss))" "masks_ok c (model w)" "masks_ok c (model s)"
    "\<forall>s \<in> set ss. masks_ok c (model s)" "ends_ok (owns_embedding w) (owns_head w) (s # ss)"
    "spec_wire_dtype (shard_spec_of w) = F32" "spec_wire_dtype (shard_spec_of s) = F32"
    "\<forall>s \<in> set ss. spec_wire_dtype (shard_spec_of s) = F32"
    by (simp_all add: whole_of_def)
  show ?case
  proof (cases "ss = []")
    case True
    from chain_covers [OF assms(1) wh(1,2), of x pos "Inr y" "[m1]"] True y wh(3)
    obtain m' where f: "forward c (model w) x pos = (Inr y, m')" "covers m' [m1]" "masks_ok c m'" "masks_ok c m1"
      by (cases "forward c (model w) x pos") auto
    have "out = mid" "ss1 = []" using rest True by simp_all
    moreover have "run c v w p pos = (Inr mid, w\<lparr>model := m'\<rparr>)"
      unfolding run_Inr using x f(1) mid wh(5-7) True by auto
    moreover have "whole_of c (w\<lparr>model := m'\<rparr>) [s1]"
      using f wh(5-7) True s1 by (simp add: whole_of_def owns_embedding_def owns_head_def)
    ultimately show ?thesis using ss' by blast
  next
    case False
    have e: "owns_embedding s = owns_embedding w" "\<not> owns_head s" "ends_ok False (owns_head w) ss"
      using wh(5) False by (simp_all add: ends_ok_Cons)
    from mid e(2) wh(7) obtain a where a: "from_tensor c v y F32 = Inr a" "mid = Hidden a"
      by (auto simp: output_ok_def split: sum.splits)
    have "map model ss \<noteq> []" "covers (model w) (model s # map model ss)" using False wh(1) by simp_all
    from covers_joins [OF this(2,1)] obtain r where r: "joins (model w) (model s) r" "covers r (map model ss)" "masks r = masks (model w)" .
    have mr: "masks_ok c r" using wh(2) r(3) by (simp add: masks_ok_def)
    let ?w = "w\<lparr>model := r, shard_spec_of := (shard_spec_of w)\<lparr>first_layer := Suc 0\<rparr>\<rparr>"
    have ow: "owns_embedding ?w = False" "owns_head ?w = owns_head w" by (simp_all add: owns_embedding_def owns_head_def)
    have "whole_of c ?w ss" using r(2) mr wh(4,6,8) e(3) by (simp add: whole_of_def ow)
    from Cons.IH [OF this rest] obtain w2 where w2: "run c v ?w mid pos = (Inr out, w2)" "whole_of c w2 ss1" by blast
    from w2(1) obtain z mz where z: "forward c r y pos = (Inr z, mz)" "output_ok c v F32 (owns_head w) z = Some out" "w2 = ?w\<lparr>model := mz\<rparr>"
      using a wire_exact [OF assms(2) a(1)] wh(6) unfolding run_Inr by (auto simp: input_ok_def ow)
    have "chain_forward c [model s, r] x pos = (Inr z, [m1, mz])" using y z(1) by simp
    from joins_forward [OF r(1) assms(1) wh(2,3) mr this] obtain m' where
      f: "forward c (model w) x pos = (Inr z, m')" "joins m' m1 mz" "masks_ok c m'" "masks_ok c m1"
      by (cases "forward c (model w) x pos") auto
    have c2: "covers mz (map model ss1)" "\<forall>s \<in> set ss1. masks_ok c (model s)" "ends_ok False (owns_head w) ss1"
      "\<forall>s \<in> set ss1. spec_wire_dtype (shard_spec_of s) = F32" "ss1 \<noteq> []"
      using w2(2) z(3) by (auto simp: whole_of_def owns_embedding_def owns_head_def)
    have "covers m' (m1 # map model ss1)" using joins_covers [OF f(2) c2(1)] c2(5) by simp
    moreover have "ends_ok (owns_embedding w) (owns_head w) (s1 # ss1)"
      using c2(3,5) e(1,2) s1 by (simp add: ends_ok_Cons owns_embedding_def owns_head_def)
    ultimately have "whole_of c (w\<lparr>model := m'\<rparr>) (s1 # ss1)"
      using f(3,4) c2 wh(6,7) s1 by (simp add: whole_of_def owns_embedding_def owns_head_def)
    moreover have "run c v w p pos = (Inr out, w\<lparr>model := m'\<rparr>)"
      unfolding run_Inr using x e(1) f(1) z(2) wh(6) by auto
    ultimately show ?thesis using ss' by blast
  qed
qed

section \<open>One step of a generation\<close>

definition here :: "('t, 'q) stage \<Rightarrow> ('t, 'q) candle_shard \<Rightarrow> bool" where
  "here st s \<longleftrightarrow> (\<exists>spec. st = HereStage spec s)"

lemma here_HereStage [simp]: "here (HereStage spec s) s"
  by (simp add: here_def)

text \<open>A shard as a step finds it, and the counters a step may leave changed.\<close>

definition enter :: "bool \<Rightarrow> ('t, 'q) candle_shard \<Rightarrow> ('t, 'q) candle_shard" where
  "enter first s = (if first then s\<lparr>model := clear_kv_cache (model s), active := Some SESSION\<rparr> else s)"

definition tallied :: "('t, 'q) candle_shard \<Rightarrow> ('t, 'q) candle_shard \<Rightarrow> bool" where
  "tallied s s' \<longleftrightarrow> (\<exists>n t. s' = s\<lparr>decodes := n, decode_time := t\<rparr>)"

definition in_session :: "('t, 'q) candle_shard \<Rightarrow> bool" where
  "in_session s \<longleftrightarrow> active s = Some SESSION"

definition may_run :: "bool \<Rightarrow> nat \<Rightarrow> ('t, 'q) candle_shard \<Rightarrow> bool" where
  "may_run first pos s \<longleftrightarrow> (if first then pos = 0 else in_session s)"

lemma tallied_refl [simp]: "tallied s s"
  unfolding tallied_def by (metis candle_shard.surjective candle_shard.update_convs(6,7))

lemma tallied_update: "tallied s (s\<lparr>decodes := n, decode_time := t\<rparr>)"
  by (auto simp: tallied_def)

lemma tallied_fields:
  "tallied s s' \<Longrightarrow> model s' = model s \<and> active s' = active s \<and> owns_embedding s' = owns_embedding s \<and>
     owns_head s' = owns_head s \<and> shard_spec_of s' = shard_spec_of s"
  by (auto simp: tallied_def owns_embedding_def owns_head_def)

lemma enter_fields [simp]: "owns_embedding (enter f s) = owns_embedding s" "owns_head (enter f s) = owns_head s"
  "shard_spec_of (enter f s) = shard_spec_of s"
  by (simp_all add: enter_def owns_embedding_def owns_head_def)

lemma whole_of_enter:
  assumes "whole_of c w ss"
  shows "whole_of c (enter f w) (map (enter f) ss)"
proof -
  have "covers (model (enter f w)) (map model (map (enter f) ss))"
    using assms covers_clear [of "model w" "map model ss"] by (cases f) (simp_all add: whole_of_def enter_def comp_def)
  moreover have "masks_ok c (model (enter f s)) = masks_ok c (model s)" for s by (simp add: enter_def)
  moreover have "ends_ok e h (map (enter f) ss) = ends_ok e h ss" for e h
    by (rule sym, rule ends_ok_cong) (simp add: list_all2_conv_all_nth)
  ultimately show ?thesis using assms by (simp add: whole_of_def)
qed

lemma whole_of_tallied:
  assumes "whole_of c w ss" and "tallied w w'" and "list_all2 tallied ss ss'"
  shows "whole_of c w' ss'"
proof -
  have m: "map model ss' = map model ss"
    using assms(3) by (induction rule: list_all2_induct) (auto dest: tallied_fields)
  have "ends_ok e h ss = ends_ok e h ss'" for e h
    using assms(3) by (intro ends_ok_cong) (auto elim!: list_all2_mono dest: tallied_fields)
  moreover have "(\<forall>s \<in> set ss'. P (model s) (shard_spec_of s)) = (\<forall>s \<in> set ss. P (model s) (shard_spec_of s))" for P
    using assms(3) by (induction rule: list_all2_induct) (auto dest: tallied_fields)
  from this [of "\<lambda>m _. masks_ok c m"] this [of "\<lambda>_ sp. spec_wire_dtype sp = F32"]
  have "(\<forall>s \<in> set ss'. masks_ok c (model s)) = (\<forall>s \<in> set ss. masks_ok c (model s))"
    "(\<forall>s \<in> set ss'. spec_wire_dtype (shard_spec_of s) = F32) = (\<forall>s \<in> set ss. spec_wire_dtype (shard_spec_of s) = F32)" by simp_all
  ultimately show ?thesis using assms(1) m tallied_fields [OF assms(2)] by (simp add: whole_of_def)
qed

text \<open>A stage's step is a traversal of its shard.\<close>

lemma stage_run_here:
  assumes "may_run first pos s"
  shows "stage_run d (HereStage spec s) pos p first = (Inr out, st') \<longleftrightarrow>
    (\<exists>s1 s'. run (drive_ops d) (drive_convert d) (enter first s) p pos = (Inr out, s1) \<and> tallied s1 s' \<and>
       st' = HereStage spec s' \<and>
       s' = (if first then s1 else s1\<lparr>decodes := decodes s1 + 1,
         decode_time := (if decodes s1 + 1 > 1 then decode_time s1 + drive_clock d else decode_time s1)\<rparr>))"
proof (cases first)
  case True
  with assms show ?thesis
    by (auto simp: stage_run_def prefill_def enter_def may_run_def Let_def result_simps split: prod.splits)
next
  case False
  have t: "tallied s1 (s1\<lparr>decodes := n, decode_time := k\<rparr>)" for s1 :: "('a, 'b) candle_shard" and n k
    by (auto simp: tallied_def)
  from False assms show ?thesis
    by (auto simp: stage_run_def decode_def enter_def may_run_def in_session_def Let_def result_simps t
        split: prod.splits sum.splits)
qed

lemma run_in_session: "run c v (enter first s) p pos = (r, s1) \<Longrightarrow> may_run first pos s \<Longrightarrow> in_session s1"
  using run_active [of c v "enter first s" p pos] by (auto simp: enter_def may_run_def in_session_def)

section \<open>The contract of a stage\<close>

text \<open>A stage holds a shard: a step of the stage that succeeds is a traversal of that shard. \<open>f\<close> is what the
  stage has become when the run is over, and \<open>grows st f\<close> says that \<open>st\<close> can still become it; a stage in
  this process needs neither, a stage behind a stream is tied to all that the stream carries in the run.\<close>

locale stage_contract =
  fixes d :: "('t, 'q) driver"
    and holds :: "('t, 'q) stage \<Rightarrow> ('t, 'q) stage \<Rightarrow> ('t, 'q) candle_shard \<Rightarrow> bool"
    and grows :: "('t, 'q) stage \<Rightarrow> ('t, 'q) stage \<Rightarrow> bool"
  assumes step_traverses: "holds f st s \<Longrightarrow> may_run first pos s \<Longrightarrow> stage_run d st pos p first = (Inr out, st') \<Longrightarrow>
      grows st' f \<Longrightarrow> \<exists>s1 s'. run (drive_ops d) (drive_convert d) (enter first s) p pos = (Inr out, s1) \<and>
        tallied s1 s' \<and> holds f st' s'"
    and step_grows: "stage_run d st pos p first = (r, st') \<Longrightarrow> grows st st'"
    and grows_refl: "grows st st"
    and grows_trans: "grows st st' \<Longrightarrow> grows st' st'' \<Longrightarrow> grows st st''"
begin

lemma all_grow_refl: "list_all2 grows sts sts"
  by (rule list_all2_refl) (rule grows_refl)

lemma all_grow_trans: "list_all2 grows sts sts' \<Longrightarrow> list_all2 grows sts' sts'' \<Longrightarrow> list_all2 grows sts sts''"
  by (rule list_all2_trans [where ?P1.0 = grows and ?P2.0 = grows]) (rule grows_trans)

lemma pipeline_grows: "pipeline_run d sts pos p first = (r, sts') \<Longrightarrow> list_all2 grows sts sts'"
proof (induction sts arbitrary: p r sts')
  case (Cons st sts)
  then show ?case using all_grow_refl [of sts] by (auto split: prod.splits sum.splits dest: step_grows)
qed simp

lemma decode_grows: "decode_loop (pipeline_run d) k ns sts token out = (r, sts') \<Longrightarrow> list_all2 grows sts sts'"
proof (induction ns arbitrary: sts token out)
  case (Cons n ns)
  obtain r1 sts1 where p: "pipeline_run d sts (decode_pos k n) (Tokens [token]) False = (r1, sts1)"
    by (cases "pipeline_run d sts (decode_pos k n) (Tokens [token]) False")
  with Cons have "list_all2 grows sts1 sts'" by (auto split: sum.splits intro: all_grow_refl)
  with pipeline_grows [OF p] show ?case by (rule all_grow_trans)
qed (simp add: all_grow_refl)

lemma generate_grows:
  assumes "generate_tokens (pipeline_run d) prompt n sts = (r, sts')"
  shows "list_all2 grows sts sts'"
proof -
  obtain r1 sts1 where p: "pipeline_run d sts 0 (Tokens prompt) True = (r1, sts1)"
    by (cases "pipeline_run d sts 0 (Tokens prompt) True")
  with assms have "list_all2 grows sts1 sts'"
    by (auto simp: generate_tokens_def split: sum.splits intro: all_grow_refl dest: decode_grows)
  with pipeline_grows [OF p] show ?thesis by (rule all_grow_trans)
qed

lemma pipeline_chain:
  "list_all2 (\<lambda>st x. holds (fst x) st (snd x)) sts xs \<Longrightarrow> \<forall>x \<in> set xs. may_run first pos (snd x) \<Longrightarrow>
   pipeline_run d sts pos p first = (Inr out, sts') \<Longrightarrow> list_all2 grows sts' (map fst xs) \<Longrightarrow>
     \<exists>ss1 xs'. chain_run (drive_ops d) (drive_convert d) (map (enter first) (map snd xs)) p pos = (Inr out, ss1) \<and>
       list_all2 tallied ss1 (map snd xs') \<and> map fst xs' = map fst xs \<and>
       list_all2 (\<lambda>st x. holds (fst x) st (snd x)) sts' xs' \<and> (\<forall>x \<in> set xs'. in_session (snd x))"
proof (induction sts xs arbitrary: p sts' rule: list_all2_induct)
  case (Cons st sts x xs)
  obtain f s where x: "x = (f, s)" by (cases x)
  from Cons.prems(2) obtain mid st' sts1 where s1: "stage_run d st pos p first = (Inr mid, st')"
    and r: "pipeline_run d sts pos mid first = (Inr out, sts1)" and sts': "sts' = st' # sts1"
    by (auto split: prod.splits sum.splits)
  have may: "may_run first pos s" using Cons.prems(1) x by simp
  have w: "grows st' f" "list_all2 grows sts1 (map fst xs)" using Cons.prems(3) sts' x by simp_all
  from step_traverses [OF _ may s1 w(1)] Cons.hyps(1) x obtain t t' where
    t: "run (drive_ops d) (drive_convert d) (enter first s) p pos = (Inr mid, t)" "tallied t t'" "holds f st' t'" by auto
  from run_in_session [OF t(1) may] t(2) have "in_session t'" by (auto simp: in_session_def dest: tallied_fields)
  moreover from Cons.IH [OF _ r w(2)] Cons.prems(1) obtain ss1 xs' where
    "chain_run (drive_ops d) (drive_convert d) (map (enter first) (map snd xs)) mid pos = (Inr out, ss1)"
    "list_all2 tallied ss1 (map snd xs')" "map fst xs' = map fst xs"
    "list_all2 (\<lambda>st x. holds (fst x) st (snd x)) sts1 xs'" "\<forall>x \<in> set xs'. in_session (snd x)" by auto
  ultimately have "chain_run (drive_ops d) (drive_convert d) (map (enter first) (map snd (x # xs))) p pos = (Inr out, t # ss1) \<and>
      list_all2 tallied (t # ss1) (map snd ((f, t') # xs')) \<and> map fst ((f, t') # xs') = map fst (x # xs) \<and>
      list_all2 (\<lambda>st x. holds (fst x) st (snd x)) sts' ((f, t') # xs') \<and> (\<forall>a \<in> set ((f, t') # xs'). in_session (snd a))"
    using t sts' x by simp
  then show ?case by blast
qed simp

lemma pipeline_step:
  assumes "add_law (drive_ops d)" and "wire_law (drive_ops d) (drive_convert d)" and "whole_of (drive_ops d) w (map snd xs)"
    and "list_all2 (\<lambda>st x. holds (fst x) st (snd x)) sts xs" and "\<forall>s \<in> insert w (snd ` set xs). may_run first pos s"
    and "pipeline_run d sts pos p first = (Inr out, sts')" and "list_all2 grows sts' (map fst xs)"
  shows "\<exists>w' xs'. pipeline_run d [HereStage spec w] pos p first = (Inr out, [HereStage spec w']) \<and>
    list_all2 (\<lambda>st x. holds (fst x) st (snd x)) sts' xs' \<and> map fst xs' = map fst xs \<and>
    whole_of (drive_ops d) w' (map snd xs') \<and> (\<forall>s \<in> insert w' (snd ` set xs'). in_session s)"
proof -
  from pipeline_chain [OF assms(4) _ assms(6,7)] assms(5) obtain ss1 xs' where
    ch: "chain_run (drive_ops d) (drive_convert d) (map (enter first) (map snd xs)) p pos = (Inr out, ss1)"
    and t: "list_all2 tallied ss1 (map snd xs')" "map fst xs' = map fst xs"
      "list_all2 (\<lambda>st x. holds (fst x) st (snd x)) sts' xs'" "\<forall>x \<in> set xs'. in_session (snd x)" by auto
  from chain_run_whole [OF assms(1,2) whole_of_enter [OF assms(3)] ch] obtain w1 where
    w1: "run (drive_ops d) (drive_convert d) (enter first w) p pos = (Inr out, w1)" "whole_of (drive_ops d) w1 ss1" by blast
  have may: "may_run first pos w" using assms(5) by simp
  define w' where "w' = (if first then w1 else w1\<lparr>decodes := decodes w1 + 1,
      decode_time := (if decodes w1 + 1 > 1 then decode_time w1 + drive_clock d else decode_time w1)\<rparr>)"
  have tw: "tallied w1 w'" unfolding w'_def by (cases first) (simp_all only: if_True if_False tallied_refl tallied_update)
  then have w': "stage_run d (HereStage spec w) pos p first = (Inr out, HereStage spec w')" "tallied w1 w'"
    unfolding stage_run_here [OF may] using w1(1) tw by (auto simp: w'_def)
  moreover have "in_session w'"
    using run_in_session [OF w1(1) may] tallied_fields [OF w'(2)] by (simp add: in_session_def)
  ultimately show ?thesis using t whole_of_tallied [OF w1(2) w'(2) t(1)] by auto
qed

lemma decode_loop_whole:
  assumes "add_law (drive_ops d)" and "wire_law (drive_ops d) (drive_convert d)"
  shows "whole_of (drive_ops d) w (map snd xs) \<Longrightarrow> list_all2 (\<lambda>st x. holds (fst x) st (snd x)) sts xs \<Longrightarrow>
    \<forall>s \<in> insert w (snd ` set xs). in_session s \<Longrightarrow>
    decode_loop (pipeline_run d) k ns sts token out = (Inr res, sts') \<Longrightarrow> list_all2 grows sts' (map fst xs) \<Longrightarrow>
    \<exists>w'. decode_loop (pipeline_run d) k ns [HereStage spec w] token out = (Inr res, [HereStage spec w'])"
proof (induction ns arbitrary: w xs sts token out)
  case (Cons n ns)
  from Cons.prems(4) obtain p sts1 token' where p: "pipeline_run d sts (decode_pos k n) (Tokens [token]) False = (Inr p, sts1)"
    and a: "argmax p = Inr token'" and r: "decode_loop (pipeline_run d) k ns sts1 token' (out @ [token']) = (Inr res, sts')"
    by (auto simp: rbind_eq_Inr split: prod.splits sum.splits)
  have "\<forall>s \<in> insert w (snd ` set xs). may_run False (decode_pos k n) s" using Cons.prems(3) by (simp add: may_run_def)
  from pipeline_step [OF assms Cons.prems(1,2) this p all_grow_trans [OF decode_grows [OF r] Cons.prems(5)], of spec] obtain w' xs' where
    x: "pipeline_run d [HereStage spec w] (decode_pos k n) (Tokens [token]) False = (Inr p, [HereStage spec w'])"
    "list_all2 (\<lambda>st x. holds (fst x) st (snd x)) sts1 xs'" "map fst xs' = map fst xs"
    "whole_of (drive_ops d) w' (map snd xs')" "\<forall>s \<in> insert w' (snd ` set xs'). in_session s" by blast
  with Cons.IH [OF x(4,2,5) r] Cons.prems(5) a show ?case by (simp del: pipeline_run.simps)
qed simp

lemma generate_whole:
  assumes "add_law (drive_ops d)" and "wire_law (drive_ops d) (drive_convert d)" and "whole_of (drive_ops d) w (map snd xs)"
    and "list_all2 (\<lambda>st x. holds (fst x) st (snd x)) sts xs"
    and "generate_tokens (pipeline_run d) prompt n sts = (Inr out, sts')" and "list_all2 grows sts' (map fst xs)"
  shows "\<exists>w'. generate_tokens (pipeline_run d) prompt n [HereStage spec w] = (Inr out, [HereStage spec w'])"
proof -
  from assms(5) obtain p sts1 token where p: "pipeline_run d sts 0 (Tokens prompt) True = (Inr p, sts1)"
    and a: "argmax p = Inr token"
    and r: "decode_loop (pipeline_run d) (length prompt) [0..<n - 1] sts1 token [token] = (Inr out, sts')"
    by (auto simp: generate_tokens_def rbind_eq_Inr split: prod.splits sum.splits)
  have "\<forall>s \<in> insert w (snd ` set xs). may_run True 0 s" by (simp add: may_run_def)
  from pipeline_step [OF assms(1-4) this p all_grow_trans [OF decode_grows [OF r] assms(6)], of spec] obtain w' xs' where
    x: "pipeline_run d [HereStage spec w] 0 (Tokens prompt) True = (Inr p, [HereStage spec w'])"
    "list_all2 (\<lambda>st x. holds (fst x) st (snd x)) sts1 xs'" "map fst xs' = map fst xs"
    "whole_of (drive_ops d) w' (map snd xs')" "\<forall>s \<in> insert w' (snd ` set xs'). in_session s" by blast
  with decode_loop_whole [OF assms(1,2) x(4,2,5) r] assms(6) a show ?thesis
    by (simp add: generate_tokens_def del: pipeline_run.simps)
qed

lemma generate_undivided:
  assumes "add_law (drive_ops d)" and "wire_law (drive_ops d) (drive_convert d)" and "whole_of (drive_ops d) w ss"
    and gen: "generate_tokens (pipeline_run d) prompt n sts = (Inr out, sts')"
    and "length sts = length ss" and "\<And>i. i < length ss \<Longrightarrow> holds (sts' ! i) (sts ! i) (ss ! i)"
  shows "\<exists>w'. generate_tokens (pipeline_run d) prompt n [HereStage spec w] = (Inr out, [HereStage spec w'])"
proof -
  have len: "length sts' = length ss" using list_all2_lengthD [OF generate_grows [OF gen]] assms(5) by simp
  then have "map fst (zip sts' ss) = sts'" "map snd (zip sts' ss) = ss" by simp_all
  moreover have "list_all2 (\<lambda>st x. holds (fst x) st (snd x)) sts (zip sts' ss)"
    using assms(5,6) len by (simp add: list_all2_conv_all_nth)
  ultimately show ?thesis using generate_whole [OF assms(1,2) _ _ gen, of w "zip sts' ss"] assms(3) all_grow_refl by simp
qed

end

interpretation local_stages: stage_contract d "\<lambda>_. here" "\<lambda>_ _. True" for d :: "('t, 'q) driver"
proof unfold_locales
  fix st :: "('t, 'q) stage" and s first pos p out st'
  assume "here st s" and may: "may_run first pos s" and r: "stage_run d st pos p first = (Inr out, st')"
  then obtain spec where "st = HereStage spec s" by (auto simp: here_def)
  with r show "\<exists>s1 s'. run (drive_ops d) (drive_convert d) (enter first s) p pos = (Inr out, s1) \<and> tallied s1 s' \<and> here st' s'"
    unfolding here_def using stage_run_here [OF may, of d spec p out st'] by blast
qed simp_all

section \<open>Opening the chain\<close>

lemma open_stages_here:
  "open_stages d opts hash k ps = Inr sts \<Longrightarrow> \<forall>p \<in> set ps. place_host p = Here \<Longrightarrow>
     \<exists>ss. list_all2 here sts ss \<and> list_all2 (\<lambda>p s. drive_open d (spec_of opts hash p) = Inr s) ps ss"
proof (induction ps arbitrary: k sts)
  case (Cons p ps)
  from Cons.prems obtain s sts' where s: "drive_open d (spec_of opts hash p) = Inr s"
    "sts = HereStage (spec_of opts hash p) s # sts'" "open_stages d opts hash (Suc k) ps = Inr sts'"
    by (auto simp: open_stage_def Let_def result_simps)
  from Cons.IH [OF s(3)] Cons.prems(2) obtain ss where "list_all2 here sts' ss"
    "list_all2 (\<lambda>p s. drive_open d (spec_of opts hash p) = Inr s) ps ss" by auto
  with s(1,2) show ?case by (intro exI [of _ "s # ss"]) simp
qed simp

lemma candle_open_at:
  assumes "read_facts (gguf_metadata gguf) = Inr f"
  shows "candle_open c g path opened (Inr gguf) spec = Inr s \<longleftrightarrow>
    opened = Inr () \<and> arch f = ''llama'' \<and> first_layer spec \<le> last_layer spec \<and> last_layer spec \<le> layers f \<and>
    (\<exists>m. from_gguf c (g\<lparr>source_metadata := gguf_metadata gguf\<rparr>) (first_layer spec) (last_layer spec) = Inr m \<and>
       s = \<lparr>model = m, shard_facts = f, shard_spec_of = spec, weight_bytes = shard_weight_bytes gguf spec (layers f),
            active = None, decodes = 0, decode_time = 0\<rparr>)"
  using assms by (auto simp: candle_open_def result_simps)

lemma tiles_sorted: "tiles lo ps hi \<Longrightarrow> sorted (lo # map place_last ps) \<and> (\<forall>p \<in> set ps. lo < place_last p \<and> place_last p \<le> hi)"
proof (induction ps arbitrary: lo)
  case (Cons p ps)
  then have "sorted (place_last p # map place_last ps) \<and> (\<forall>q \<in> set ps. place_last p < place_last q \<and> place_last q \<le> hi)"
    and "lo < place_last p" "place_last p \<le> hi" by (auto dest: tiles_le)
  then show ?case by (auto intro: less_trans)
qed simp

lemma tiles_butlast: "tiles lo (ps @ [p]) hi \<Longrightarrow> place_last p = hi \<and> (\<forall>q \<in> set ps. place_last q < hi)"
proof (induction ps arbitrary: lo)
  case (Cons q qs)
  then have t: "tiles (place_last q) (qs @ [p]) hi" by simp
  have "place_last q < hi" using tiles_sorted [OF t] by fastforce
  with Cons.IH [OF t] show ?case by simp
qed auto

lemma opened_chain:
  assumes "\<And>p s. p \<in> set ps \<Longrightarrow> op p = Inr s \<Longrightarrow> from_gguf c g (place_first p) (place_last p) = Inr (model s)"
  shows "tiles lo ps hi \<Longrightarrow> list_all2 (\<lambda>p s. op p = Inr s) ps ss \<Longrightarrow> load_chain c g lo (map place_last ps) = Inr (map model ss)"
  using assms
proof (induction ps arbitrary: lo ss)
  case (Cons p ps)
  then obtain s ss' where "ss = s # ss'" "op p = Inr s" "list_all2 (\<lambda>p s. op p = Inr s) ps ss'"
    by (auto simp: list_all2_Cons1)
  with Cons show ?case by auto
qed simp

lemma opened_ends:
  assumes "\<And>p s. p \<in> set ps \<Longrightarrow> op p = Inr s \<Longrightarrow> (owns_embedding s = (place_first p = 0)) \<and> (owns_head s = (place_last p = n))"
  shows "tiles lo ps n \<Longrightarrow> ps \<noteq> [] \<Longrightarrow> list_all2 (\<lambda>p s. op p = Inr s) ps ss \<Longrightarrow> ends_ok (lo = 0) True ss"
  using assms
proof (induction ps arbitrary: lo ss)
  case (Cons p ps)
  from Cons.prems(3) obtain s ss' where s: "ss = s # ss'" "op p = Inr s" "list_all2 (\<lambda>p s. op p = Inr s) ps ss'"
    by (auto simp: list_all2_Cons1)
  have e: "owns_embedding s = (lo = 0)" "owns_head s = (place_last p = n)" using Cons.prems(1,4) s(2) by auto
  show ?case
  proof (cases "ps = []")
    case True
    with s e Cons.prems(1) show ?thesis by simp
  next
    case False
    have t: "tiles (place_last p) ps n" using Cons.prems(1) by simp
    then have "place_last p < n" using tiles_sorted [OF t] False by (cases ps) fastforce+
    moreover have "0 < place_last p" using Cons.prems(1) by auto
    moreover have "ss' \<noteq> []" using s(3) False by auto
    ultimately show ?thesis using Cons.IH [OF t False s(3)] Cons.prems(4) e s(1) by (simp add: ends_ok_Cons)
  qed
qed simp

text \<open>The shards of a tiling are the parts of one shard over all layers, and that shard opens too.\<close>

lemma opened_whole:
  assumes "read_facts (gguf_metadata gguf) = Inr f"
    and "read_shape c (g\<lparr>source_metadata := gguf_metadata gguf\<rparr>) = Inr (sh, layers f)"
    and "tiles 0 ps (layers f)" and "ps \<noteq> []" and "opt_wire_dtype opts = F32"
    and "list_all2 (\<lambda>p s. candle_open c g path opened (Inr gguf) (spec_of opts hash p) = Inr s) ps ss"
  shows "\<exists>w. candle_open c g path opened (Inr gguf)
      (spec_of opts hash \<lparr>place_first = 0, place_last = layers f, place_host = Here\<rparr>) = Inr w \<and> whole_of c w ss \<and>
    shard_facts w = f \<and> (\<forall>s \<in> set ss. shard_facts s = f)"
proof -
  let ?g = "g\<lparr>source_metadata := gguf_metadata gguf\<rparr>"
  let ?op = "\<lambda>p. candle_open c g path opened (Inr gguf) (spec_of opts hash p)"
  note co = candle_open_at [OF assms(1), of c g path opened]
  have ok: "opened = Inr () \<and> arch f = ''llama''"
    using assms(4,6) by (cases ps) (auto simp: list_all2_Cons1 co)
  have op: "from_gguf c ?g (place_first p) (place_last p) = Inr (model s) \<and> shard_facts s = f \<and> shard_spec_of s = spec_of opts hash p"
    if "?op p = Inr s" for p s
    using that by (auto simp: co spec_of_def)
  have ch: "load_chain c ?g 0 (map place_last ps) = Inr (map model ss)"
    by (rule opened_chain [OF _ assms(3,6)]) (use op in blast)
  obtain qs q where q: "ps = qs @ [q]" using assms(4) by (metis rev_exhaust)
  from tiles_butlast [OF assms(3) [unfolded q]] have last: "place_last q = layers f" "\<forall>p \<in> set qs. place_last p < layers f" by simp_all
  from tiles_sorted [OF assms(3)] have srt: "sorted (0 # map place_last ps)" "\<forall>p \<in> set ps. 0 < place_last p" by simp_all
  have mids: "map place_last ps = map place_last qs @ [layers f]" using q last(1) by simp
  have inside: "\<forall>i \<in> set (map place_last qs). 0 < i \<and> i < layers f" using last(2) srt(2) q by auto
  from load_chain_covers [OF assms(2) ch [unfolded mids] srt(1) [unfolded mids] inside] obtain m where
    m: "from_gguf c ?g 0 (layers f) = Inr m" "covers m (map model ss)" "masks_ok c m" "\<forall>m \<in> set (map model ss). masks_ok c m" by blast
  let ?spec = "spec_of opts hash \<lparr>place_first = 0, place_last = layers f, place_host = Here\<rparr>"
  let ?w = "\<lparr>model = m, shard_facts = f, shard_spec_of = ?spec, weight_bytes = shard_weight_bytes gguf ?spec (layers f),
      active = None, decodes = 0, decode_time = 0\<rparr>"
  have "candle_open c g path opened (Inr gguf) ?spec = Inr ?w"
    unfolding co using ok m(1) by (simp add: spec_of_def)
  moreover have "ends_ok (0 = (0 :: nat)) True ss"
    by (rule opened_ends [OF _ assms(3,4,6)]) (use op in \<open>auto simp: owns_embedding_def owns_head_def spec_of_def\<close>)
  moreover have fields: "\<forall>s \<in> set ss. spec_wire_dtype (shard_spec_of s) = F32 \<and> shard_facts s = f"
  proof
    fix s assume "s \<in> set ss"
    then obtain p where "?op p = Inr s" using assms(6) by (auto simp: list_all2_conv_all_nth in_set_conv_nth)
    with op assms(5) show "spec_wire_dtype (shard_spec_of s) = F32 \<and> shard_facts s = f" by (simp add: spec_of_def)
  qed
  ultimately have "whole_of c ?w ss"
    using m assms(5) by (simp add: whole_of_def owns_embedding_def owns_head_def spec_of_def)
  with \<open>candle_open c g path opened (Inr gguf) ?spec = Inr ?w\<close> fields show ?thesis by (intro exI [of _ ?w]) simp
qed

text \<open>Whether the sizes of a shard can be reported depends on the model file only.\<close>

lemma stats_facts: "(stats s = None) = (head_dim (shard_facts s) = None)"
  by (simp add: stats_def kv_bytes_def Let_def split: bind_split)

lemma reported_here:
  "report_stages sts = Inr () \<Longrightarrow> list_all2 here sts ss \<Longrightarrow> \<forall>s \<in> set ss. stats s \<noteq> None"
  by (fastforce simp: report_stages_def here_def list_all_length list_all2_conv_all_nth in_set_conv_nth split: if_splits)

text \<open>The run of the undivided shard, when the shards of a tiling run to some tokens.\<close>

lemma undivided_run:
  assumes "drive_open d = candle_open (drive_ops d) g path opened (Inr gguf)"
    and "read_facts (gguf_metadata gguf) = Inr f" and "drive_facts d = Inr f" and "drive_hash d = Inr hash"
    and "read_shape (drive_ops d) (g\<lparr>source_metadata := gguf_metadata gguf\<rparr>) = Inr (sh, layers f)"
    and "opt_wire_dtype opts = F32" and "check_tiling (places opts) (layers f) = Inr ()" and "places opts \<noteq> []"
    and ss: "list_all2 (\<lambda>p s. drive_open d (spec_of opts hash p) = Inr s) (places opts) ss" and "\<forall>s \<in> set ss. stats s \<noteq> None"
    and gen: "\<And>w spec. whole_of (drive_ops d) w ss \<Longrightarrow>
      \<exists>w'. generate_tokens (pipeline_run d) prompt (max_new opts) [HereStage spec w] = (Inr out, [HereStage spec w'])"
  shows "generate_run d prompt (opts\<lparr>places := [\<lparr>place_first = 0, place_last = layers f, place_host = Here\<rparr>]\<rparr>) = Inr (out, [])"
proof -
  let ?whole = "\<lparr>place_first = 0, place_last = layers f, place_host = Here\<rparr>"
  have tiles: "tiles 0 (places opts) (layers f)" using assms(7) by (simp add: check_tiling_iff)
  from opened_whole [OF assms(2,5) tiles assms(8,6)] ss assms(1) obtain w where
    w: "drive_open d (spec_of opts hash ?whole) = Inr w" "whole_of (drive_ops d) w ss"
    "shard_facts w = f" "\<forall>s \<in> set ss. shard_facts s = f" by fastforce
  have spec: "spec_of (opts\<lparr>places := ps\<rparr>) hash p = spec_of opts hash p" for ps p by (simp add: spec_of_def)
  have "0 < layers f" using tiles assms(8) tiles_sorted [OF tiles] by (cases "places opts") auto
  then have "check_tiling [?whole] (layers f) = Inr ()" by (simp add: check_tiling_iff)
  then have "pipeline_open d f (opts\<lparr>places := [?whole]\<rparr>) = Inr [HereStage (spec_of opts hash ?whole) w]"
    using assms(4) w(1) by (simp add: pipeline_open_def open_stage_def Let_def spec)
  moreover obtain s ss' where "ss = s # ss'" using ss assms(8) by (cases ss) auto
  then have "stats w \<noteq> None" using assms(10) w(3,4) by (auto simp: stats_facts)
  then have "report_stages [HereStage (spec_of opts hash ?whole) w] = Inr ()" by (simp add: report_stages_def)
  ultimately show ?thesis using gen [OF w(2), of "spec_of opts hash ?whole"] assms(3)
    by (auto simp: generate_run_Inr pipeline_finish_def)
qed

lemma chain_not_empty: "generate_tokens (pipeline_run d) prompt n [] \<noteq> (Inr out, sts')"
  by (simp add: generate_tokens_def argmax_def)

section \<open>Properties\<close>

text \<open>Splitting a generation is exact. If a run over a tiling of the model into local ranges, exchanging
  hidden states in 32-bit numbers, ends with some tokens, then the run that holds all layers in one
  shard opens, and ends with the same tokens.\<close>

theorem split_generation:
  assumes "add_law (drive_ops d)" and "wire_law (drive_ops d) (drive_convert d)"
    and "drive_open d = candle_open (drive_ops d) g path opened (Inr gguf)"
    and "read_facts (gguf_metadata gguf) = Inr f" and "drive_facts d = Inr f"
    and "read_shape (drive_ops d) (g\<lparr>source_metadata := gguf_metadata gguf\<rparr>) = Inr (sh, layers f)"
    and "\<forall>p \<in> set (places opts). place_host p = Here" and "opt_wire_dtype opts = F32"
    and "generate_run d prompt opts = Inr (out, finals)"
  shows "generate_run d prompt (opts\<lparr>places := [\<lparr>place_first = 0, place_last = layers f, place_host = Here\<rparr>]\<rparr>) = Inr (out, [])"
proof -
  from assms(9) assms(5) obtain hash sts sts' where hash: "drive_hash d = Inr hash"
    and t: "check_tiling (places opts) (layers f) = Inr ()" and sts: "open_stages d opts hash 0 (places opts) = Inr sts"
    and rep: "report_stages sts = Inr ()"
    and gen: "generate_tokens (pipeline_run d) prompt (max_new opts) sts = (Inr out, sts')"
    by (auto simp: generate_run_Inr pipeline_open_def result_simps)
  have ne: "places opts \<noteq> []" using sts gen chain_not_empty [of d prompt "max_new opts" out sts'] by auto
  from open_stages_here [OF sts assms(7)] obtain ss where ss: "list_all2 here sts ss"
    "list_all2 (\<lambda>p s. drive_open d (spec_of opts hash p) = Inr s) (places opts) ss" by auto
  show ?thesis
  proof (rule undivided_run [OF assms(3-5) hash assms(6,8) t ne ss(2) reported_here [OF rep ss(1)]])
    fix w spec assume "whole_of (drive_ops d) w ss"
    then show "\<exists>w'. generate_tokens (pipeline_run d) prompt (max_new opts) [HereStage spec w] = (Inr out, [HereStage spec w'])"
      using local_stages.generate_undivided [OF assms(1,2) _ gen, of w ss spec] ss(1) by (auto simp: list_all2_conv_all_nth)
  qed
qed


section \<open>An example\<close>

definition example_ops :: "(int list, int) candle" where
  "example_ops = example_candle\<lparr>t_dims3 := \<lambda>x. if length x \<le> u32_max then Inr (1, length x, 1) else Inl Panic\<rparr>"

definition example_wire :: "int list convert" where
  "example_wire = example_convert\<lparr>tensor_f32s := \<lambda>x. if map (\<lambda>i. sint (of_int i :: f32)) x = x then Inr (map of_int x) else Inl Panic\<rparr>"

definition example_driver :: "(int list, int) driver" where
  "example_driver = \<lparr>drive_ops = example_ops, drive_convert = example_wire, drive_clock = 1,
     drive_open = candle_open example_ops example_source ''model.gguf'' (Inr ()) (Inr example_content),
     drive_hash = Inr ''m'', drive_facts = read_facts (gguf_metadata example_content), drive_message = (\<lambda>_. ''engine''),
     drive_net_message = (\<lambda>_. ''net''), drive_show_response = (\<lambda>_. ''response''), drive_hex = (\<lambda>_. ''id''),
     drive_request = example_requests, drive_response = example_responses, drive_step = example_steps,
     drive_result = example_results, drive_peers = (\<lambda>_. None)\<rparr>"

definition example_options :: options where
  "example_options = \<lparr>max_new = 1, opt_max_context = 8,
     places = [\<lparr>place_first = 0, place_last = 1, place_host = Here\<rparr>, \<lparr>place_first = 1, place_last = 2, place_host = Here\<rparr>],
     opt_wire_dtype = F32\<rparr>"

lemma example_ops_add: "add_law example_ops"
  by (auto simp: add_law_def example_ops_def example_candle_def split: if_splits)

lemma example_wire_law: "wire_law example_ops example_wire"
  by (auto simp: wire_law_def example_ops_def example_wire_def example_candle_def example_convert_def comp_def
      split: if_splits)

lemma example_facts: "read_facts (gguf_metadata example_content) =
    Inr \<lparr>arch = ''llama'', layers = 2, hidden_dim = 1, heads = 1, kv_heads = 1, train_context = 8\<rparr>"
  by (simp add: example_content_def read_facts_def string_at_def u32_at_def Let_def)

lemma example_ops_shape: "read_shape example_ops example_source' = Inr (example_layer_shape, 2)"
proof -
  have "[0..<2] = [0, 1 :: nat]" by (simp add: upt_rec)
  then show ?thesis
    by (simp add: read_shape_def md_u32_def md_f32_def md_get_def unwrap_or_def precomput_freqs_cis_def neox_archs_def
        example_ops_def example_candle_def example_source_def example_source'_def example_content_def
        example_layer_shape_def Let_def)
qed

lemma example_ops_layer: "load_layer example_ops example_source' example_layer_shape i = Inr example_layer"
  by (simp add: load_layer_def load_mlp_or_moe_def load_mlp_def example_ops_def example_candle_def example_source_def
      example_source'_def example_layer_shape_def example_layer_def Let_def)

text \<open>The two halves of the example model, and the ranges they are opened for.\<close>

definition example_range :: "nat \<Rightarrow> nat \<Rightarrow> shard_spec" where
  "example_range i j = spec_of example_options ''m'' \<lparr>place_first = i, place_last = j, place_host = Here\<rparr>"

definition example_part :: "bool \<Rightarrow> shard_spec \<Rightarrow> (int list, int) candle_shard" where
  "example_part b sp =
     \<lparr>model = \<lparr>tok_embeddings = (if b then Some 2 else None), model_layers = [example_layer],
        model_head = (if b then None else Some (2, 2)), masks = Map.empty\<rparr>,
      shard_facts = \<lparr>arch = ''llama'', layers = 2, hidden_dim = 1, heads = 1, kv_heads = 1, train_context = 8\<rparr>,
      shard_spec_of = sp, weight_bytes = shard_weight_bytes example_content sp 2, active = None, decodes = 0, decode_time = 0\<rparr>"

lemma example_ops_open:
  "candle_open example_ops example_source path (Inr ()) (Inr example_content) (example_range 0 1) = Inr (example_part True (example_range 0 1))"
  "candle_open example_ops example_source path (Inr ()) (Inr example_content) (example_range 1 2) = Inr (example_part False (example_range 1 2))"
  unfolding candle_open_at [OF example_facts] example_part_def
  by (simp_all add: example_range_def spec_of_def example_options_def from_gguf_def example_source'_def [symmetric]
      example_ops_shape load_layers_def example_ops_layer load_head_def load_embedding_def upt_rec)
    (simp_all add: example_source'_def example_source_def example_ops_def example_candle_def)

lemma example_layer_run: "\<exists>l. layer_forward example_ops None 0 example_layer [0] = (Inr [0], l)"
  by (simp add: layer_forward_def forward_attn_def attn_qkv_def attn_scores_def apply_rotary_emb_def mlp_or_moe_forward_def
      mlp_forward_def example_layer_def example_ops_def example_candle_def)

lemma example_ops_at: "t_embed example_ops 2 [0] = Inr [0]" "t_dims3 example_ops [0] = Inr (1, 1, 1)"
  "t_rms_norm example_ops q x = Inr x" "t_row example_ops [0] 0 = Inr [0]" "q_matmul example_ops 2 [0] = Inr [0]"
  by (simp_all add: example_ops_def example_candle_def)

lemma example_clear: "clear_kv_cache \<lparr>tok_embeddings = e, model_layers = [example_layer], model_head = h, masks = Map.empty\<rparr> =
    \<lparr>tok_embeddings = e, model_layers = [example_layer], model_head = h, masks = Map.empty\<rparr>"
  by (simp add: clear_kv_cache_def example_layer_def)

lemma example_forward: "\<exists>m'. forward example_ops \<lparr>tok_embeddings = (if b then Some 2 else None), model_layers = [example_layer],
    model_head = (if b then None else Some (2, 2)), masks = Map.empty\<rparr> [0] 0 = (Inr [0], m')"
proof -
  obtain l where "layer_forward example_ops None 0 example_layer [0] = (Inr [0], l)" using example_layer_run by blast
  then show ?thesis by (cases b) (simp_all add: forward_def head_forward_def example_ops_at)
qed

definition example_hidden :: activation where
  "example_hidden = \<lparr>n_tokens = 1, hidden_dim = 1, dtype = F32, payload_data = [0, 0, 0, 0]\<rparr>"

lemma example_crossing: "from_tensor example_ops example_wire [0] F32 = Inr example_hidden" "to_tensor example_wire example_hidden = Inr [0]"
proof -
  have "le_bytes 4 (0 :: f32) = [0, 0, 0, 0]" by (simp add: le_bytes_def upt_rec eval_nat_numeral)
  then show t: "from_tensor example_ops example_wire [0] F32 = Inr example_hidden"
    by (simp add: from_tensor_def example_ops_at)
      (simp add: example_wire_def example_convert_def activation_new_def wanted_bytes_def example_hidden_def)
  show "to_tensor example_wire example_hidden = Inr [0]" by (rule wire_exact [OF example_wire_law t])
qed

lemma example_range: "first_layer (example_range i j) = i" "last_layer (example_range i j) = j"
  "spec_wire_dtype (example_range i j) = F32"
  by (simp_all add: example_range_def spec_of_def example_options_def)

lemma example_stages:
  assumes "drive_ops d = example_ops" and "drive_convert d = example_wire"
  shows "\<exists>s'. stage_run d (HereStage sp (example_part True (example_range 0 1))) 0 (Tokens [0]) True =
      (Inr (Hidden example_hidden), HereStage sp s')"
    and "\<exists>s'. stage_run d (HereStage sp (example_part False (example_range 1 2))) 0 (Hidden example_hidden) True =
      (Inr (Logits [0]), HereStage sp s')"
proof -
  obtain m1 where f1: "forward example_ops \<lparr>tok_embeddings = Some 2, model_layers = [example_layer], model_head = None, masks = Map.empty\<rparr> [0] 0 = (Inr [0], m1)"
    using example_forward [of True] by auto
  obtain m2 where f2: "forward example_ops \<lparr>tok_embeddings = None, model_layers = [example_layer], model_head = Some (2, 2), masks = Map.empty\<rparr> [0] 0 = (Inr [0], m2)"
    using example_forward [of False] by auto
  have v: "ids_tensor example_wire [0] = Inr [0]" "tensor_logits example_wire [0] = Inr [0]"
    by (simp_all add: example_wire_def example_convert_def)
  have "\<exists>s'. run example_ops example_wire (enter True (example_part True (example_range 0 1))) (Tokens [0]) 0 = (Inr (Hidden example_hidden), s')"
    unfolding run_Inr using f1 example_crossing(1) v
    by (simp add: enter_def example_part_def example_clear input_ok_def output_ok_def owns_embedding_def owns_head_def example_range)
  then show "\<exists>s'. stage_run d (HereStage sp (example_part True (example_range 0 1))) 0 (Tokens [0]) True =
      (Inr (Hidden example_hidden), HereStage sp s')"
    using stage_run_here [of True 0 "example_part True (example_range 0 1)" d sp "Tokens [0]"] assms by (auto simp: may_run_def)
  have "\<exists>s'. run example_ops example_wire (enter True (example_part False (example_range 1 2))) (Hidden example_hidden) 0 = (Inr (Logits [0]), s')"
    unfolding run_Inr using f2 example_crossing(2) v
    by (simp add: enter_def example_part_def example_clear input_ok_def output_ok_def owns_embedding_def owns_head_def example_range)
  then show "\<exists>s'. stage_run d (HereStage sp (example_part False (example_range 1 2))) 0 (Hidden example_hidden) True =
      (Inr (Logits [0]), HereStage sp s')"
    using stage_run_here [of True 0 "example_part False (example_range 1 2)" d sp "Hidden example_hidden"] assms by (auto simp: may_run_def)
qed

lemma example_generation: "generate_run example_driver [0] example_options = Inr ([0], [])"
proof -
  let ?facts = "\<lparr>arch = ''llama'', layers = 2, hidden_dim = 1, heads = 1, kv_heads = 1, train_context = 8\<rparr>"
  let ?first = "HereStage (example_range 0 1) (example_part True (example_range 0 1))"
  let ?last = "HereStage (example_range 1 2) (example_part False (example_range 1 2))"
  have "places example_options = [\<lparr>place_first = 0, place_last = 1, place_host = Here\<rparr>, \<lparr>place_first = 1, place_last = 2, place_host = Here\<rparr>]"
    "check_tiling (places example_options) 2 = Inr ()" "drive_hash example_driver = Inr ''m''"
    by (simp_all add: check_tiling_iff example_options_def example_driver_def)
  moreover have "drive_open example_driver (example_range 0 1) = Inr (example_part True (example_range 0 1))"
    "drive_open example_driver (example_range 1 2) = Inr (example_part False (example_range 1 2))"
    using example_ops_open by (simp_all add: example_driver_def)
  ultimately have op: "pipeline_open example_driver ?facts example_options = Inr [?first, ?last]"
    by (simp add: pipeline_open_def open_stage_def Let_def example_range_def)
  obtain a b where
    "stage_run example_driver ?first 0 (Tokens [0]) True = (Inr (Hidden example_hidden), HereStage (example_range 0 1) a)"
    "stage_run example_driver ?last 0 (Hidden example_hidden) True = (Inr (Logits [0]), HereStage (example_range 1 2) b)"
    using example_stages [of example_driver] by (fastforce simp: example_driver_def)
  then have p: "pipeline_run example_driver [?first, ?last] 0 (Tokens [0]) True =
      (Inr (Logits [0]), [HereStage (example_range 0 1) a, HereStage (example_range 1 2) b])"
    by (simp only: pipeline_run.simps prod.case sum.case)
  have m: "max_new example_options = 1" by (simp add: example_options_def)
  have g: "generate_tokens (pipeline_run example_driver) [0] 1 [?first, ?last] =
      (Inr [0], [HereStage (example_range 0 1) a, HereStage (example_range 1 2) b])"
    unfolding generate_tokens_def p by (simp add: argmax_def)
  have "report_stages [?first, ?last] = Inr ()" by (simp add: report_stages_def stats_facts head_dim_def example_part_def)
  moreover have "drive_facts example_driver = Inr ?facts" by (simp add: example_driver_def example_facts)
  moreover have "pipeline_finish example_driver [HereStage (example_range 0 1) a, HereStage (example_range 1 2) b] = []"
    by (simp add: pipeline_finish_def)
  ultimately show ?thesis unfolding generate_run_Inr m using op g by (intro exI conjI) (assumption | rule sym, assumption)+
qed

lemma split_generation_witness:
  "generate_run example_driver [0] (example_options\<lparr>places := [\<lparr>place_first = 0, place_last = 2, place_host = Here\<rparr>]\<rparr>) = Inr ([0], [])"
proof -
  have "add_law (drive_ops example_driver)" "wire_law (drive_ops example_driver) (drive_convert example_driver)"
    "drive_open example_driver = candle_open (drive_ops example_driver) example_source ''model.gguf'' (Inr ()) (Inr example_content)"
    "drive_facts example_driver = Inr \<lparr>arch = ''llama'', layers = 2, hidden_dim = 1, heads = 1, kv_heads = 1, train_context = 8\<rparr>"
    "\<forall>p \<in> set (places example_options). place_host p = Here" "opt_wire_dtype example_options = F32"
    "read_shape (drive_ops example_driver) (example_source\<lparr>source_metadata := gguf_metadata example_content\<rparr>) = Inr (example_layer_shape, 2)"
    using example_ops_add example_wire_law example_facts example_ops_shape
    by (simp_all add: example_driver_def example_options_def example_source'_def)
  from split_generation [OF this(1-3) example_facts this(4) _ this(5,6) example_generation] this(7) show ?thesis by simp
qed


lemma generate_length_witness: "length [0 :: u32] = max 1 (max_new example_options)"
  by (rule generate_length [OF example_generation])

end
