(* ===== verification/Net_Addr.thy ===== *)
theory Net_Addr
  imports Lattice_Prelude
begin

text \<open>
  Socket addresses as \<open>std::net\<close> has them: their predicates, the text of an IPv4 address, and how
  such text is read. The text of an IPv6 address is an argument (\<open>v6\<close>), since the program refuses
  every one it reads.
\<close>

datatype ip_addr = V4 u32 | V6 "128 word"

record sock_addr =
  ip :: ip_addr
  port :: nat

fun is_ipv4 :: "ip_addr \<Rightarrow> bool" where
  "is_ipv4 (V4 _) = True"
| "is_ipv4 (V6 _) = False"

fun is_loopback :: "ip_addr \<Rightarrow> bool" where
  "is_loopback (V4 a) = (drop_bit 24 a = 127)"
| "is_loopback (V6 a) = (a = 1)"

fun is_unspecified :: "ip_addr \<Rightarrow> bool" where
  "is_unspecified (V4 a) = (a = 0)"
| "is_unspecified (V6 a) = (a = 0)"

section \<open>Reading\<close>

text \<open>An octet has one to three digits and no leading zero; a port may have leading zeros.\<close>

definition parse_octet :: "string \<Rightarrow> nat option" where
  "parse_octet s =
     (if s \<noteq> [] \<and> list_all is_digit s \<and> length s \<le> 3 \<and> (s = ''0'' \<or> \<not> starts_with ''0'' s) \<and> digits_val s \<le> 255
      then Some (digits_val s) else None)"

definition parse_port :: "string \<Rightarrow> nat option" where
  "parse_port s = (if s \<noteq> [] \<and> list_all is_digit s \<and> digits_val s \<le> u16_max then Some (digits_val s) else None)"

definition v4_of :: "nat \<Rightarrow> nat \<Rightarrow> nat \<Rightarrow> nat \<Rightarrow> ip_addr" where
  "v4_of a b c d = V4 (of_nat (((a * 256 + b) * 256 + c) * 256 + d))"

definition parse_v4 :: "string \<Rightarrow> ip_addr option" where
  "parse_v4 s =
     Option.bind (split_once (CHR ''.'') s) (\<lambda>(a, s).
     Option.bind (split_once (CHR ''.'') s) (\<lambda>(b, s).
     Option.bind (split_once (CHR ''.'') s) (\<lambda>(c, d).
     Option.bind (parse_octet a) (\<lambda>a. Option.bind (parse_octet b) (\<lambda>b.
     Option.bind (parse_octet c) (\<lambda>c. Option.bind (parse_octet d) (\<lambda>d. Some (v4_of a b c d))))))))"

definition parse_sock_v4 :: "string \<Rightarrow> sock_addr option" where
  "parse_sock_v4 s =
     Option.bind (split_once (CHR '':'') s) (\<lambda>(h, p).
     Option.bind (parse_v4 h) (\<lambda>h. Option.bind (parse_port p) (\<lambda>p. Some \<lparr>ip = h, port = p\<rparr>)))"

definition parse_sock :: "(string \<Rightarrow> sock_addr option) \<Rightarrow> string \<Rightarrow> sock_addr option" where
  "parse_sock v6 s = (case parse_sock_v4 s of Some a \<Rightarrow> Some a | None \<Rightarrow> v6 s)"

text \<open>IPv6 text is bracketed and gives an IPv6 address.\<close>

definition v6_law :: "(string \<Rightarrow> sock_addr option) \<Rightarrow> bool" where
  "v6_law v6 \<longleftrightarrow> (\<forall>s a. v6 s = Some a \<longrightarrow> \<not> is_ipv4 (ip a) \<and> starts_with ''['' s)"

section \<open>Lemmas\<close>

definition show_v4 :: "nat \<Rightarrow> nat \<Rightarrow> nat \<Rightarrow> nat \<Rightarrow> string" where
  "show_v4 a b c d = show_nat a @ ''.'' @ show_nat b @ ''.'' @ show_nat c @ ''.'' @ show_nat d"

lemma digit_separators: "is_digit c \<Longrightarrow> c \<noteq> CHR ''.'' \<and> c \<noteq> CHR '':''"
  by (auto simp: is_digit_def)

lemma show_nat_separators [simp]: "CHR ''.'' \<notin> set (show_nat n)" "CHR '':'' \<notin> set (show_nat n)"
  using show_nat_digits [of n] digit_separators by (auto simp: list_all_iff)

lemma show_nat_width: "n < 10 ^ k \<Longrightarrow> 0 < k \<Longrightarrow> length (show_nat n) \<le> k"
proof (induction k arbitrary: n)
  case (Suc k)
  show ?case
  proof (cases "n < 10")
    case False
    then have "n div 10 < 10 ^ k" "0 < k" using Suc.prems by (auto intro: gr0I simp: less_mult_imp_div_less mult.commute)
    from Suc.IH [OF this] False show ?thesis by (subst show_nat.simps) simp
  qed (subst show_nat.simps, simp)
qed simp

text \<open>A shown number starts with zero only when it is zero.\<close>

lemma show_nat_leading: "0 < n \<Longrightarrow> \<not> starts_with ''0'' (show_nat n)"
proof (induction n rule: show_nat.induct)
  case (1 n)
  show ?case
  proof (cases "n < 10")
    case True
    have "digit_char n \<noteq> CHR ''0''"
    proof
      assume "digit_char n = CHR ''0''"
      then have "(of_char (digit_char n) :: nat) = of_char (CHR ''0'')" by simp
      with True 1 show False by (simp add: of_char_digit)
    qed
    with True show ?thesis by (simp add: show_nat.simps [of n] starts_with_def)
  next
    case False
    then have "\<not> starts_with ''0'' (show_nat (n div 10))" using 1 by simp
    with False show ?thesis
      by (simp add: show_nat.simps [of n] starts_with_def) (cases "show_nat (n div 10)"; simp)
  qed
qed

lemma show_zero: "show_nat 0 = ''0''"
proof -
  have "(of_char (char_of (48 :: nat) :: char) :: nat) = of_char (CHR ''0'')" by simp
  then have "(char_of (48 :: nat) :: char) = CHR ''0''" by (simp only: of_char_eq_iff)
  then show ?thesis by (simp add: show_nat.simps [of 0] digit_char_def)
qed

lemma parse_octet_show: "n \<le> 255 \<Longrightarrow> parse_octet (show_nat n) = Some n"
  using show_nat_digits [of n] show_nat_width [of n 3] show_nat_leading [of n] show_zero digits_val_show_nat [of 0]
  by (cases "n = 0") (auto simp: parse_octet_def)

lemma parse_port_show: "n \<le> u16_max \<Longrightarrow> parse_port (show_nat n) = Some n"
  using show_nat_digits [of n] by (simp add: parse_port_def)

lemma parse_show_v4:
  assumes "a \<le> 255" and "b \<le> 255" and "c \<le> 255" and "d \<le> 255"
  shows "parse_v4 (show_v4 a b c d) = Some (v4_of a b c d)"
  using assms by (simp add: parse_v4_def show_v4_def split_once_append parse_octet_show)

lemma show_v4_no_colon: "CHR '':'' \<notin> set (show_v4 a b c d)"
  by (simp add: show_v4_def)

lemma parse_show_sock:
  assumes "a \<le> 255" and "b \<le> 255" and "c \<le> 255" and "d \<le> 255" and "p \<le> u16_max"
  shows "parse_sock v6 (show_v4 a b c d @ '':'' @ show_nat p) = Some \<lparr>ip = v4_of a b c d, port = p\<rparr>"
  using assms show_v4_no_colon parse_show_v4
  by (simp add: parse_sock_def parse_sock_v4_def split_once_append parse_port_show)

lemma parse_v4_ipv4: "parse_v4 s = Some a \<Longrightarrow> is_ipv4 a"
  by (auto simp: parse_v4_def bind_eq_Some v4_of_def)

lemma parse_v4_no_colon:
  assumes "parse_v4 s = Some a" shows "CHR '':'' \<notin> set s"
proof -
  have o: "parse_octet t = Some n \<Longrightarrow> CHR '':'' \<notin> set t" for t n
    using digit_separators by (auto simp: parse_octet_def list_all_iff split: if_splits)
  from assms show ?thesis by (auto simp: parse_v4_def bind_eq_Some split_once_Some dest!: o)
qed

end
