(* ===== verification/Discovery.thy ===== *)
theory Discovery
  imports Identity Net_Addr
begin

text \<open>
  \<open>crates/lattice-net/src/discovery.rs\<close>: what a device publishes about itself, and how a record seen
  on the network is read. The mDNS daemon (\<open>mdns-sd\<close>) is given by what it answers and by the events
  it delivers before the deadline. The properties show that a published record is read back as what
  was published, and that a damaged one is dropped.
\<close>

section \<open>What a device publishes\<close>

definition SERVICE_TYPE :: string where "SERVICE_TYPE = ''_lattice._tcp.local.''"
definition PROTOCOL_VERSION :: nat where "PROTOCOL_VERSION = 1"

definition TXT_DEVICE_ID :: string where "TXT_DEVICE_ID = ''id''"
definition TXT_NAME :: string where "TXT_NAME = ''name''"
definition TXT_PLATFORM :: string where "TXT_PLATFORM = ''platform''"
definition TXT_MEMORY :: string where "TXT_MEMORY = ''mem''"
definition TXT_PROTOCOL :: string where "TXT_PROTOCOL = ''proto''"
definition TXT_ROLE :: string where "TXT_ROLE = ''role''"
definition TXT_PAIRING_PORT :: string where "TXT_PAIRING_PORT = ''pairing_port''"

lemmas txt_keys = TXT_DEVICE_ID_def TXT_NAME_def TXT_PLATFORM_def TXT_MEMORY_def TXT_PROTOCOL_def
  TXT_ROLE_def TXT_PAIRING_PORT_def

record advertisement =
  ad_id :: device_id
  ad_name :: string
  ad_platform :: string
  ad_memory :: nat
  ad_port :: nat

record service_info =
  service_type :: string
  instance_name :: string
  host_name :: string
  service_port :: nat
  txt_record :: "string \<rightharpoonup> string"

record discovery =
  advertised :: "string option"
  registered :: "string set"
  daemon_up :: bool

definition new_discovery :: "string + unit \<Rightarrow> net_error + discovery" where
  "new_discovery started =
     rbind (map_err Mdns started) (\<lambda>_. Inr \<lparr>advertised = None, registered = {}, daemon_up = True\<rparr>)"

definition fullname :: "string \<Rightarrow> string" where
  "fullname i = i @ ''.'' @ SERVICE_TYPE"

text \<open>\<open>accept_info\<close> is the package's check of a new record, \<open>register\<close> what the daemon answers.\<close>

definition service_of :: "(bytes \<Rightarrow> string) \<Rightarrow> advertisement \<Rightarrow> string \<Rightarrow> nat option \<Rightarrow> service_info" where
  "service_of hex ad role pairing_port =
     (let i = show_id hex (ad_id ad);
          t = [TXT_DEVICE_ID \<mapsto> i, TXT_NAME \<mapsto> ad_name ad, TXT_PLATFORM \<mapsto> ad_platform ad,
               TXT_MEMORY \<mapsto> show_nat (ad_memory ad), TXT_PROTOCOL \<mapsto> show_nat PROTOCOL_VERSION];
          t = (if role = [] then t else t(TXT_ROLE \<mapsto> role));
          t = (case pairing_port of None \<Rightarrow> t | Some p \<Rightarrow> t(TXT_PAIRING_PORT \<mapsto> show_nat p))
      in \<lparr>service_type = SERVICE_TYPE, instance_name = i, host_name = i @ ''.local.'',
          service_port = ad_port ad, txt_record = t\<rparr>)"

definition advertise_role ::
    "(bytes \<Rightarrow> string) \<Rightarrow> (service_info \<Rightarrow> string + unit) \<Rightarrow> (service_info \<Rightarrow> string + unit) \<Rightarrow>
       advertisement \<Rightarrow> string \<Rightarrow> nat option \<Rightarrow> discovery \<Rightarrow> (net_error + unit) \<times> discovery" where
  "advertise_role hex accept_info register ad role pairing_port d =
     (let info = service_of hex ad role pairing_port in
      case rbind (map_err Mdns (accept_info info)) (\<lambda>_. map_err Mdns (register info)) of
        Inl e \<Rightarrow> (Inl e, d)
      | Inr _ \<Rightarrow>
          (Inr (), d\<lparr>registered := insert (fullname (instance_name info)) (registered d),
                     advertised := Some (fullname (instance_name info))\<rparr>))"

definition advertise ::
    "(bytes \<Rightarrow> string) \<Rightarrow> (service_info \<Rightarrow> string + unit) \<Rightarrow> (service_info \<Rightarrow> string + unit) \<Rightarrow>
       advertisement \<Rightarrow> discovery \<Rightarrow> (net_error + unit) \<times> discovery" where
  "advertise hex accept_info register ad d = advertise_role hex accept_info register ad [] None d"

definition drop_discovery :: "discovery \<Rightarrow> discovery" where
  "drop_discovery d =
     (case advertised d of None \<Rightarrow> d | Some n \<Rightarrow> d\<lparr>registered := registered d - {n}\<rparr>)\<lparr>daemon_up := False\<rparr>"

section \<open>What a device sees\<close>

record discovered_peer =
  found_id :: device_id
  found_name :: string
  found_platform :: string
  found_memory :: nat
  found_protocol :: nat
  found_addrs :: "sock_addr list"
  found_role :: "string option"
  found_pairing_port :: "nat option"

datatype peer_event = Found discovered_peer | Lost device_id

text \<open>A record as the daemon resolves it; its properties are looked up by key.\<close>

record resolved_service =
  property :: "string \<rightharpoonup> string"
  addresses :: "ip_addr list"
  resolved_port :: nat

definition id_option :: "(nat \<Rightarrow> string \<Rightarrow> bytes option) \<Rightarrow> string \<Rightarrow> device_id option" where
  "id_option unhex s = (case parse_id unhex s of Inl _ \<Rightarrow> None | Inr i \<Rightarrow> Some i)"

definition pairing_port_of :: "string option \<Rightarrow> nat option option" where
  "pairing_port_of v =
     (case v of
        Some s \<Rightarrow> (case parse_uint u16_max s of Some p \<Rightarrow> if p \<noteq> 0 then Some (Some p) else None | None \<Rightarrow> None)
      | None \<Rightarrow> Some None)"

definition to_peer :: "(nat \<Rightarrow> string \<Rightarrow> bytes option) \<Rightarrow> resolved_service \<Rightarrow> discovered_peer option" where
  "to_peer unhex svc =
     Option.bind (property svc TXT_DEVICE_ID) (\<lambda>i.
     Option.bind (id_option unhex i) (\<lambda>i.
     Option.bind (property svc TXT_NAME) (\<lambda>n.
     Option.bind (property svc TXT_PLATFORM) (\<lambda>p.
     Option.bind (property svc TXT_MEMORY) (\<lambda>m.
     Option.bind (parse_uint u64_max m) (\<lambda>m.
     Option.bind (property svc TXT_PROTOCOL) (\<lambda>v.
     Option.bind (parse_uint u16_max v) (\<lambda>v.
     Option.bind (pairing_port_of (property svc TXT_PAIRING_PORT)) (\<lambda>pp.
       Some \<lparr>found_id = i, found_name = n, found_platform = p, found_memory = m, found_protocol = v,
             found_addrs = map (\<lambda>a. \<lparr>ip = a, port = resolved_port svc\<rparr>) (addresses svc),
             found_role = property svc TXT_ROLE, found_pairing_port = pp\<rparr>)))))))))"

definition device_id_from_fullname :: "(nat \<Rightarrow> string \<Rightarrow> bytes option) \<Rightarrow> string \<Rightarrow> device_id option" where
  "device_id_from_fullname unhex s = id_option unhex (split_first (CHR ''.'') s)"

datatype service_event = Resolved resolved_service | Removed string | OtherEvent

text \<open>
  The events are those the daemon delivers before the deadline; what is left of them is returned
  beside the result.
\<close>

fun next_event :: "(nat \<Rightarrow> string \<Rightarrow> bytes option) \<Rightarrow> service_event list \<Rightarrow> peer_event option \<times> service_event list" where
  "next_event unhex [] = (None, [])"
| "next_event unhex (Resolved svc # es) =
     (case to_peer unhex svc of Some p \<Rightarrow> (Some (Found p), es) | None \<Rightarrow> next_event unhex es)"
| "next_event unhex (Removed n # es) =
     (case device_id_from_fullname unhex n of Some i \<Rightarrow> (Some (Lost i), es) | None \<Rightarrow> next_event unhex es)"
| "next_event unhex (OtherEvent # es) = next_event unhex es"

section \<open>Lemmas\<close>

lemma pairing_port_of_Some:
  "pairing_port_of v = Some pp \<longleftrightarrow>
     (case v of None \<Rightarrow> pp = None | Some s \<Rightarrow> \<exists>p. parse_uint u16_max s = Some p \<and> p \<noteq> 0 \<and> pp = Some p)"
  by (auto simp: pairing_port_of_def split: option.splits)

lemma id_option_Some: "id_option unhex s = Some i \<longleftrightarrow> parse_id unhex s = Inr i"
  by (auto simp: id_option_def split: sum.splits)

lemma to_peer_Some:
  "to_peer unhex svc = Some d \<longleftrightarrow>
     (\<exists>i m v. property svc TXT_DEVICE_ID = Some i \<and> parse_id unhex i = Inr (found_id d) \<and>
       property svc TXT_NAME = Some (found_name d) \<and> property svc TXT_PLATFORM = Some (found_platform d) \<and>
       property svc TXT_MEMORY = Some m \<and> parse_uint u64_max m = Some (found_memory d) \<and>
       property svc TXT_PROTOCOL = Some v \<and> parse_uint u16_max v = Some (found_protocol d) \<and>
       pairing_port_of (property svc TXT_PAIRING_PORT) = Some (found_pairing_port d) \<and>
       found_role d = property svc TXT_ROLE \<and>
       found_addrs d = map (\<lambda>a. \<lparr>ip = a, port = resolved_port svc\<rparr>) (addresses svc))"
  by (cases d) (auto simp: to_peer_def bind_eq_Some id_option_Some)

text \<open>What one event means, if anything.\<close>

fun event_of :: "(nat \<Rightarrow> string \<Rightarrow> bytes option) \<Rightarrow> service_event \<Rightarrow> peer_event option" where
  "event_of unhex (Resolved svc) = map_option Found (to_peer unhex svc)"
| "event_of unhex (Removed n) = map_option Lost (device_id_from_fullname unhex n)"
| "event_of unhex OtherEvent = None"

lemma next_event_Cons:
  "next_event unhex (e # es) = (case event_of unhex e of None \<Rightarrow> next_event unhex es | Some v \<Rightarrow> (Some v, es))"
  by (cases e) (auto split: option.split)

lemma next_event_shorter: "next_event unhex es = (Some v, es') \<Longrightarrow> length es' < length es"
proof (induction es)
  case (Cons e es)
  then show ?case by (auto simp: next_event_Cons split: option.splits)
qed simp

text \<open>The events of a whole window, one after the other.\<close>

definition window :: "(nat \<Rightarrow> string \<Rightarrow> bytes option) \<Rightarrow> service_event list \<Rightarrow> peer_event list" where
  "window unhex es = List.map_filter (event_of unhex) es"

lemma next_event_window:
  "(case next_event unhex es of (None, es') \<Rightarrow> window unhex es = [] \<and> es' = []
    | (Some v, es') \<Rightarrow> window unhex es = v # window unhex es')"
proof (induction es)
  case Nil
  then show ?case by (simp add: window_def map_filter_simps)
next
  case (Cons e es)
  then show ?case
    by (cases "event_of unhex e") (auto simp: next_event_Cons window_def map_filter_simps split: prod.splits option.splits)
qed

section \<open>The interface of a browse\<close>

lemma next_event_cases:
  obtains (none) es' where "next_event unhex es = (None, es')" "window unhex es = []"
  | (some) v es' where "next_event unhex es = (Some v, es')" "window unhex es = v # window unhex es'" "length es' < length es"
  using next_event_window [of unhex es] next_event_shorter [of unhex es]
  by (cases "next_event unhex es"; cases "fst (next_event unhex es)") auto

text \<open>A fold over events that may stop early: \<open>step\<close> goes on with \<open>Inl\<close> and ends with \<open>Inr\<close>.\<close>

fun over_events :: "('s \<Rightarrow> peer_event \<Rightarrow> 's + 'r) \<Rightarrow> ('s \<Rightarrow> 'r) \<Rightarrow> peer_event list \<Rightarrow> 's \<Rightarrow> 'r" where
  "over_events step fin [] s = fin s"
| "over_events step fin (v # vs) s = (case step s v of Inl s' \<Rightarrow> over_events step fin vs s' | Inr r \<Rightarrow> r)"

text \<open>
  Every loop of the program that browses takes the events one by one until the window closes or it has
  what it wants. The law is one turn of such a loop; with it the loop is a fold over the window.
\<close>

locale browsing =
  fixes unhex :: "nat \<Rightarrow> string \<Rightarrow> bytes option" and loop :: "service_event list \<Rightarrow> 's \<Rightarrow> 'r"
    and step :: "'s \<Rightarrow> peer_event \<Rightarrow> 's + 'r" and fin :: "'s \<Rightarrow> 'r"
  assumes one_turn: "loop es s =
    (case next_event unhex es of
       (None, es') \<Rightarrow> fin s
     | (Some v, es') \<Rightarrow> (case step s v of Inl s' \<Rightarrow> loop es' s' | Inr r \<Rightarrow> r))"
begin

lemma over_window: "loop es s = over_events step fin (window unhex es) s"
proof (induction "length es" arbitrary: es s rule: less_induct)
  case less
  show ?case
  proof (cases unhex es rule: next_event_cases)
    case none
    then show ?thesis by (simp add: one_turn [of es s])
  next
    case (some v es')
    then show ?thesis using less [of es'] by (simp add: one_turn [of es s] split: sum.split)
  qed
qed

end

section \<open>Properties\<close>

text \<open>C33: What is published is what is found. A record that reaches another device as it was published
  is read there with the same id, name, platform, memory, port and protocol version, and with the
  role and pairing port that were given, if any; and when the record disappears, its name leads back
  to the device.\<close>

theorem published_is_found:
  assumes "hex_laws hex unhex" and "id_ok (ad_id ad)" and "ad_memory ad \<le> u64_max"
    and "case pp of None \<Rightarrow> True | Some p \<Rightarrow> 0 < p \<and> p \<le> u16_max"
    and "property svc = txt_record (service_of hex ad r pp)" and "resolved_port svc = service_port (service_of hex ad r pp)"
  shows "to_peer unhex svc = Some
      \<lparr>found_id = ad_id ad, found_name = ad_name ad, found_platform = ad_platform ad, found_memory = ad_memory ad,
       found_protocol = PROTOCOL_VERSION, found_addrs = map (\<lambda>a. \<lparr>ip = a, port = ad_port ad\<rparr>) (addresses svc),
       found_role = (if r = [] then None else Some r), found_pairing_port = pp\<rparr> \<and>
    device_id_from_fullname unhex (fullname (instance_name (service_of hex ad r pp))) = Some (ad_id ad)"
proof -
  note id = parse_show_id [OF assms(1,2)]
  have dot: "CHR ''.'' \<notin> set (show_id hex (ad_id ad))"
    using assms(1) unfolding hex_laws_def show_id_def by blast
  have "to_peer unhex svc = Some
      \<lparr>found_id = ad_id ad, found_name = ad_name ad, found_platform = ad_platform ad, found_memory = ad_memory ad,
       found_protocol = PROTOCOL_VERSION, found_addrs = map (\<lambda>a. \<lparr>ip = a, port = ad_port ad\<rparr>) (addresses svc),
       found_role = (if r = [] then None else Some r), found_pairing_port = pp\<rparr>"
    unfolding to_peer_Some using assms(3-6) id
    by (auto simp: service_of_def Let_def txt_keys parse_show_nat PROTOCOL_VERSION_def pairing_port_of_Some split: option.splits)
  moreover have "device_id_from_fullname unhex (fullname (instance_name (service_of hex ad r pp))) = Some (ad_id ad)"
    using dot id by (simp add: service_of_def Let_def fullname_def device_id_from_fullname_def id_option_Some)
  ultimately show ?thesis by blast
qed

text \<open>A damaged record is dropped, never repaired. A record is read exactly when it has an id that
  parses, a name, a platform, a memory size and a protocol version that fit their types, and a
  pairing port that is absent or a port number other than zero.\<close>

theorem record_read_iff:
  "(to_peer unhex svc \<noteq> None) =
    ((\<exists>s i. property svc TXT_DEVICE_ID = Some s \<and> parse_id unhex s = Inr i) \<and>
     property svc TXT_NAME \<noteq> None \<and> property svc TXT_PLATFORM \<noteq> None \<and>
     (\<exists>s m. property svc TXT_MEMORY = Some s \<and> parse_uint u64_max s = Some m) \<and>
     (\<exists>s v. property svc TXT_PROTOCOL = Some s \<and> parse_uint u16_max s = Some v) \<and>
     (case property svc TXT_PAIRING_PORT of None \<Rightarrow> True
      | Some s \<Rightarrow> \<exists>p. parse_uint u16_max s = Some p \<and> 0 < p))"
proof -
  have "(\<exists>pp. pairing_port_of (property svc TXT_PAIRING_PORT) = Some pp) =
    (case property svc TXT_PAIRING_PORT of None \<Rightarrow> True | Some s \<Rightarrow> \<exists>p. parse_uint u16_max s = Some p \<and> 0 < p)"
    by (auto simp: pairing_port_of_Some split: option.splits)
  then show ?thesis
    by (auto simp: to_peer_def bind_eq_None_conv bind_eq_Some id_option_Some)
qed

section \<open>An instance\<close>

text \<open>Hexadecimal text as the \<open>hex\<close> package documents it: lower case out, either case in.\<close>

definition hex_digit :: "nat \<Rightarrow> char" where
  "hex_digit d = char_of (if d < 10 then 48 + d else 87 + d)"

definition hex_val :: "char \<Rightarrow> nat option" where
  "hex_val c =
     (let k = of_char c :: nat in
      if 48 \<le> k \<and> k \<le> 57 then Some (k - 48)
      else if 97 \<le> k \<and> k \<le> 102 then Some (k - 87)
      else if 65 \<le> k \<and> k \<le> 70 then Some (k - 55) else None)"

definition hex_text :: "bytes \<Rightarrow> string" where
  "hex_text bs = concat (map (\<lambda>b. [hex_digit (unat b div 16), hex_digit (unat b mod 16)]) bs)"

fun unhex_list :: "string \<Rightarrow> bytes option" where
  "unhex_list [] = Some []"
| "unhex_list [c] = None"
| "unhex_list (a # b # s) =
     (case hex_val a of None \<Rightarrow> None
      | Some x \<Rightarrow> (case hex_val b of None \<Rightarrow> None
                  | Some y \<Rightarrow> map_option ((#) (of_nat (16 * x + y))) (unhex_list s)))"

definition unhex_text :: "nat \<Rightarrow> string \<Rightarrow> bytes option" where
  "unhex_text n s = (if length s = 2 * n then unhex_list s else None)"

lemma of_char_hex_digit: "d < 16 \<Longrightarrow> (of_char (hex_digit d) :: nat) = (if d < 10 then 48 + d else 87 + d)"
  by (simp add: hex_digit_def)

lemma hex_val_digit: "d < 16 \<Longrightarrow> hex_val (hex_digit d) = Some d"
  by (simp add: hex_val_def of_char_hex_digit Let_def)

lemma hex_digit_dot: "d < 16 \<Longrightarrow> hex_digit d \<noteq> CHR ''.''"
proof
  assume "d < 16" "hex_digit d = CHR ''.''"
  then have "hex_val (CHR ''.'') = Some d" using hex_val_digit [of d] by simp
  then show False by (simp add: hex_val_def)
qed

lemma byte_halves: "unat (b :: 8 word) div 16 < 16" "(of_nat (16 * (unat b div 16) + unat b mod 16) :: 8 word) = b"
proof -
  have "unat b < 256" using unsigned_less [of b] by simp
  then show "unat b div 16 < 16" by simp
  have "16 * (unat b div 16) + unat b mod 16 = unat b" by simp
  then show "(of_nat (16 * (unat b div 16) + unat b mod 16) :: 8 word) = b" by (metis of_nat_unat ucast_id)
qed

lemma unhex_list_hex: "unhex_list (hex_text bs) = Some bs"
proof (induction bs)
  case (Cons b bs)
  have "hex_text (b # bs) = hex_digit (unat b div 16) # hex_digit (unat b mod 16) # hex_text bs"
    by (simp add: hex_text_def)
  then show ?case using Cons byte_halves [of b] by (simp add: hex_val_digit del: of_nat_add of_nat_mult)
qed (simp add: hex_text_def)

lemma length_unhex_list: "unhex_list s = Some bs \<Longrightarrow> length s = 2 * length bs"
  by (induction s arbitrary: bs rule: unhex_list.induct) (auto split: option.splits)

lemma hex_text_laws: "hex_laws hex_text unhex_text"
proof -
  have len: "length (hex_text bs) = 2 * length bs" for bs
    by (induction bs) (simp_all add: hex_text_def)
  have dot: "CHR ''.'' \<notin> set (hex_text bs)" for bs
  proof -
    have "CHR ''.'' \<noteq> hex_digit (unat b div 16)" "CHR ''.'' \<noteq> hex_digit (unat b mod 16)" for b :: "8 word"
      using hex_digit_dot [of "unat b div 16"] hex_digit_dot [of "unat b mod 16"] byte_halves(1) [of b] by force+
    then show ?thesis by (auto simp: hex_text_def)
  qed
  show ?thesis
    unfolding hex_laws_def using len dot unhex_list_hex
    by (auto simp: unhex_text_def dest: length_unhex_list split: if_splits)
qed

definition example_ad :: advertisement where
  "example_ad = \<lparr>ad_id = DeviceId [1, 2, 3, 4, 5, 6, 7, 8], ad_name = ''gpu'', ad_platform = ''linux'', ad_memory = 16, ad_port = 47900\<rparr>"

definition example_record :: "string \<Rightarrow> ip_addr list \<Rightarrow> resolved_service" where
  "example_record r as =
     \<lparr>property = txt_record (service_of hex_text example_ad r (Some 47901)), addresses = as, resolved_port = 47900\<rparr>"

definition example_found :: "string \<Rightarrow> ip_addr list \<Rightarrow> discovered_peer" where
  "example_found r as =
     \<lparr>found_id = DeviceId [1, 2, 3, 4, 5, 6, 7, 8], found_name = ''gpu'', found_platform = ''linux'', found_memory = 16,
      found_protocol = PROTOCOL_VERSION, found_addrs = map (\<lambda>a. \<lparr>ip = a, port = 47900\<rparr>) as,
      found_role = (if r = [] then None else Some r), found_pairing_port = Some 47901\<rparr>"

lemma example_is_found: "to_peer unhex_text (example_record r as) = Some (example_found r as)"
  unfolding example_record_def example_found_def to_peer_Some
  using parse_show_id [OF hex_text_laws, of "ad_id example_ad"]
  by (simp add: service_of_def Let_def txt_keys parse_show_nat PROTOCOL_VERSION_def pairing_port_of_Some example_ad_def id_ok_def)

lemma published_is_found_witness:
  "to_peer unhex_text (example_record ''master'' [V4 1]) = Some (example_found ''master'' [V4 1]) \<and>
   device_id_from_fullname unhex_text (fullname (instance_name (service_of hex_text example_ad ''master'' (Some 47901)))) =
     Some (DeviceId [1, 2, 3, 4, 5, 6, 7, 8])"
  using published_is_found [OF hex_text_laws, of example_ad "Some 47901" "example_record ''master'' [V4 1]" "''master''"]
  by (simp add: id_ok_def service_of_def Let_def example_ad_def example_record_def example_found_def)

end
