(* ===== verification/Locate.thy ===== *)
theory Locate
  imports Discovery Ordered_Map Transport Generate
begin

text \<open>
  How \<open>crates/latticed/src/main.rs\<close> gets from a device to a connection: browsing for it
  (\<open>discover\<close>, \<open>locate\<close>, \<open>resolve\<close>), choosing the addresses that can be dialled (\<open>usable\<close>) and dialling
  them (\<open>connect_any\<close>, \<open>dial_places\<close>). A browse is given by the events that arrive within its window.
  The properties state which addresses are dialled and in which order, and what each browse finds.
\<close>

section \<open>Addresses and dialling\<close>

definition bind_addr :: "nat \<Rightarrow> sock_addr" where
  "bind_addr p = \<lparr>ip = V4 0, port = p\<rparr>"

definition usable :: "sock_addr list \<Rightarrow> sock_addr list" where
  "usable addrs = sort_key (\<lambda>a. is_loopback (ip a)) (filter (\<lambda>a. is_ipv4 (ip a)) addrs)"

datatype locate_error =
    NoAddress
  | BindFailed net_error
  | Unreachable "(sock_addr \<times> net_error) list"
  | DiscoveryFailed net_error
  | BadTarget net_error
  | ThisDevice device_id
  | NoUsableAddress device_id
  | NotFound device_id
  | NotOnNetwork device_id
  | Connecting device_id locate_error
  | StoreFailed net_error

text \<open>
  Each attempt binds an endpoint of its own. \<open>bind\<close> and \<open>dial\<close> say what happens at an address; what
  \<open>dial\<close> returns stands for the endpoint and its connection.
\<close>

fun connect_each ::
    "(sock_addr \<Rightarrow> net_error + unit) \<Rightarrow> (sock_addr \<Rightarrow> net_error + 'c) \<Rightarrow> sock_addr list \<Rightarrow> (sock_addr \<times> net_error) list \<Rightarrow>
       locate_error + 'c" where
  "connect_each bind dial [] failures = Inl (Unreachable failures)"
| "connect_each bind dial (a # as) failures =
     (case bind a of
        Inl e \<Rightarrow> Inl (BindFailed e)
      | Inr _ \<Rightarrow> (case dial a of Inr c \<Rightarrow> Inr c | Inl e \<Rightarrow> connect_each bind dial as (failures @ [(a, e)])))"

definition connect_any ::
    "(sock_addr \<Rightarrow> net_error + unit) \<Rightarrow> (sock_addr \<Rightarrow> net_error + 'c) \<Rightarrow> sock_addr list \<Rightarrow> locate_error + 'c" where
  "connect_any bind dial addrs = (if addrs = [] then Inl NoAddress else connect_each bind dial addrs [])"

section \<open>Browsing\<close>

type_synonym unhex = "nat \<Rightarrow> string \<Rightarrow> bytes option"

text \<open>The listing: each device once, under its last record, in order of its id.\<close>

function discover_loop :: "unhex \<Rightarrow> device_id \<Rightarrow> service_event list \<Rightarrow> (device_id, discovered_peer) btree \<Rightarrow>
    (device_id, discovered_peer) btree" where
  "discover_loop unhex self_id es seen =
     (case next_event unhex es of
        (Some (Found p), es') \<Rightarrow>
          discover_loop unhex self_id es' (if found_id p \<noteq> self_id then bt_insert (found_id p) p seen else seen)
      | (Some (Lost _), es') \<Rightarrow> discover_loop unhex self_id es' seen
      | (None, es') \<Rightarrow> seen)"
  by pat_completeness auto
termination
  by (relation "measure (\<lambda>(_, _, es, _). length es)") (auto dest: next_event_shorter sym)

text \<open>What is printed of a device: the address a dial would use first, if there is one.\<close>

definition discover :: "unhex \<Rightarrow> net_error + unit \<Rightarrow> device_id \<Rightarrow> service_event list \<Rightarrow>
    net_error + (discovered_peer \<times> sock_addr option) list" where
  "discover unhex started self_id es =
     rbind started (\<lambda>_. Inr (map (\<lambda>p. (p, case usable (found_addrs p) of [] \<Rightarrow> None | a # _ \<Rightarrow> Some a))
       (bt_values (discover_loop unhex self_id es []))))"

text \<open>\<open>locate\<close> stops when it has an entry for every device wanted, or at the deadline.\<close>

function locate_loop :: "unhex \<Rightarrow> device_id list \<Rightarrow> service_event list \<Rightarrow> (device_id, sock_addr list) btree \<Rightarrow>
    (device_id, sock_addr list) btree" where
  "locate_loop unhex wanted es found =
     (if \<not> length found < length wanted then found
      else case next_event unhex es of
        (Some (Found p), es') \<Rightarrow>
          locate_loop unhex wanted es'
            (if found_id p \<in> set wanted \<and> usable (found_addrs p) \<noteq> []
             then bt_insert (found_id p) (usable (found_addrs p)) found else found)
      | (Some (Lost _), es') \<Rightarrow> locate_loop unhex wanted es' found
      | (None, es') \<Rightarrow> found)"
  by pat_completeness auto
termination
  by (relation "measure (\<lambda>(_, _, es, _). length es)") (auto dest: next_event_shorter sym)

definition locate :: "unhex \<Rightarrow> net_error + unit \<Rightarrow> device_id list \<Rightarrow> service_event list \<Rightarrow>
    locate_error + (device_id, sock_addr list) btree" where
  "locate unhex started wanted es =
     rbind (map_err DiscoveryFailed started) (\<lambda>_. Inr (locate_loop unhex wanted es []))"

text \<open>\<open>resolve\<close> waits for the first record of the device that has an address to dial.\<close>

function resolve_loop :: "unhex \<Rightarrow> device_id \<Rightarrow> device_id \<Rightarrow> service_event list \<Rightarrow> bool \<Rightarrow> locate_error + sock_addr list" where
  "resolve_loop unhex wanted self_id es unreachable =
     (case next_event unhex es of
        (Some (Found p), es') \<Rightarrow>
          if found_id p = wanted then
            (if usable (found_addrs p) \<noteq> [] then Inr (usable (found_addrs p))
             else resolve_loop unhex wanted self_id es' True)
          else resolve_loop unhex wanted self_id es' unreachable
      | (Some (Lost _), es') \<Rightarrow> resolve_loop unhex wanted self_id es' unreachable
      | (None, es') \<Rightarrow>
          if wanted = self_id then Inl (ThisDevice wanted)
          else if unreachable then Inl (NoUsableAddress wanted)
          else Inl (NotFound wanted))"
  by pat_completeness auto
termination
  by (relation "measure (\<lambda>(_, _, _, es, _). length es)") (auto dest: next_event_shorter sym)

definition resolve :: "(string \<Rightarrow> sock_addr option) \<Rightarrow> unhex \<Rightarrow> net_error + unit \<Rightarrow> string \<Rightarrow> device_id \<Rightarrow> service_event list \<Rightarrow>
    locate_error + sock_addr list" where
  "resolve v6 unhex started target self_id es =
     (case parse_sock v6 target of
        Some a \<Rightarrow> Inr [a]
      | None \<Rightarrow>
          rbind (map_err BadTarget (parse_id unhex target)) (\<lambda>wanted.
          rbind (map_err DiscoveryFailed started) (\<lambda>_. resolve_loop unhex wanted self_id es False)))"

declare discover_loop.simps [simp del] locate_loop.simps [simp del] resolve_loop.simps [simp del]

section \<open>Connections for a placement\<close>

fun dial_each ::
    "(device_id, sock_addr list) btree \<Rightarrow> (device_id \<Rightarrow> sock_addr \<Rightarrow> net_error + unit) \<Rightarrow> (device_id \<Rightarrow> sock_addr \<Rightarrow> net_error + 'c) \<Rightarrow>
       device_id list \<Rightarrow> (device_id, 'c) btree \<Rightarrow> locate_error + (device_id, 'c) btree" where
  "dial_each located bind dial [] peers = Inr peers"
| "dial_each located bind dial (i # is) peers =
     rbind (ok_or (NotOnNetwork i) (bt_get located i)) (\<lambda>addrs.
     rbind (map_err (Connecting i) (connect_any (bind i) (dial i) (usable addrs))) (\<lambda>c.
     dial_each located bind dial is (bt_insert i c peers)))"

definition remote_hosts :: "placement list \<Rightarrow> device_id list" where
  "remote_hosts pl =
     remdups_adj (sort (List.map_filter (\<lambda>p. case place_host p of Peer i \<Rightarrow> Some i | Here \<Rightarrow> None) pl))"

definition dial_places ::
    "unhex \<Rightarrow> net_error + 's \<Rightarrow> net_error + unit \<Rightarrow> service_event list \<Rightarrow> (device_id \<Rightarrow> sock_addr \<Rightarrow> net_error + unit) \<Rightarrow>
       (device_id \<Rightarrow> sock_addr \<Rightarrow> net_error + 'c) \<Rightarrow> placement list \<Rightarrow> locate_error + (device_id, 'c) btree" where
  "dial_places unhex store started es bind dial pl =
     (let wanted = remote_hosts pl in
      if wanted = [] then Inr []
      else rbind (map_err StoreFailed store) (\<lambda>_.
           rbind (locate unhex started wanted es) (\<lambda>located. dial_each located bind dial wanted [])))"

section \<open>Browses as functions of their window\<close>

fun locate_ref :: "device_id list \<Rightarrow> peer_event list \<Rightarrow> (device_id, sock_addr list) btree \<Rightarrow> (device_id, sock_addr list) btree" where
  "locate_ref wanted [] found = found"
| "locate_ref wanted (v # vs) found =
     (if \<not> length found < length wanted then found
      else locate_ref wanted vs
        (case v of
           Found p \<Rightarrow> (if found_id p \<in> set wanted \<and> usable (found_addrs p) \<noteq> []
                      then bt_insert (found_id p) (usable (found_addrs p)) found else found)
         | Lost _ \<Rightarrow> found))"

definition answers :: "device_id \<Rightarrow> peer_event \<Rightarrow> bool" where
  "answers i v \<longleftrightarrow> (case v of Found p \<Rightarrow> found_id p = i \<and> usable (found_addrs p) \<noteq> [] | Lost _ \<Rightarrow> False)"

definition seen_id :: "device_id \<Rightarrow> peer_event \<Rightarrow> bool" where
  "seen_id i v \<longleftrightarrow> (case v of Found p \<Rightarrow> found_id p = i | Lost _ \<Rightarrow> False)"

text \<open>What each of the three loops does with one event; \<open>locate\<close> stops once it has an entry for every device.\<close>

definition discover_step :: "device_id \<Rightarrow> (device_id, discovered_peer) btree \<Rightarrow> peer_event \<Rightarrow>
    (device_id, discovered_peer) btree + (device_id, discovered_peer) btree" where
  "discover_step i seen v =
     Inl (case v of Found p \<Rightarrow> (if found_id p \<noteq> i then bt_insert (found_id p) p seen else seen) | Lost _ \<Rightarrow> seen)"

definition locate_step :: "device_id list \<Rightarrow> (device_id, sock_addr list) btree \<Rightarrow> peer_event \<Rightarrow>
    (device_id, sock_addr list) btree + (device_id, sock_addr list) btree" where
  "locate_step wanted found v =
     (if \<not> length found < length wanted then Inr found
      else Inl (case v of
          Found p \<Rightarrow> (if found_id p \<in> set wanted \<and> usable (found_addrs p) \<noteq> []
                    then bt_insert (found_id p) (usable (found_addrs p)) found else found)
        | Lost _ \<Rightarrow> found))"

definition resolve_step :: "device_id \<Rightarrow> bool \<Rightarrow> peer_event \<Rightarrow> bool + (locate_error + sock_addr list)" where
  "resolve_step wanted unreachable v =
     (if answers wanted v then Inr (case v of Found p \<Rightarrow> Inr (usable (found_addrs p)) | Lost i \<Rightarrow> Inl (NotFound i))
      else Inl (unreachable \<or> seen_id wanted v))"

definition resolve_fin :: "device_id \<Rightarrow> device_id \<Rightarrow> bool \<Rightarrow> locate_error + sock_addr list" where
  "resolve_fin wanted self_id unreachable =
     (if wanted = self_id then Inl (ThisDevice wanted)
      else if unreachable then Inl (NoUsableAddress wanted) else Inl (NotFound wanted))"

interpretation discovering: browsing unhex "discover_loop unhex i" "discover_step i" "\<lambda>s. s" for unhex i
  by unfold_locales (subst discover_loop.simps, simp add: discover_step_def split: prod.split option.split peer_event.split)

interpretation locating: browsing unhex "locate_loop unhex wanted" "locate_step wanted" "\<lambda>s. s" for unhex wanted
  by unfold_locales (subst locate_loop.simps, simp add: locate_step_def split: prod.split option.split peer_event.split)

interpretation resolving: browsing unhex "resolve_loop unhex wanted i" "resolve_step wanted" "resolve_fin wanted i" for unhex wanted i
  by unfold_locales
    (subst resolve_loop.simps, simp add: resolve_step_def resolve_fin_def answers_def seen_id_def
      split: prod.split option.split peer_event.split)

text \<open>The listing shows each other device under its last record.\<close>

lemma discover_window:
  "bt_get (discover_loop unhex i es []) j =
     (case find (seen_id j) (rev (window unhex es)) of
        None \<Rightarrow> None
      | Some v \<Rightarrow> if j = i then None else (case v of Found p \<Rightarrow> Some p | Lost _ \<Rightarrow> None))"
proof -
  have "bt_get (over_events (discover_step i) (\<lambda>s. s) vs seen) j =
     (case find (seen_id j) (rev vs) of
        None \<Rightarrow> bt_get seen j
      | Some v \<Rightarrow> if j = i then bt_get seen j else (case v of Found p \<Rightarrow> Some p | Lost _ \<Rightarrow> None))" for vs seen
  proof (induction vs arbitrary: seen)
    case (Cons v vs)
    have "seen_id j (Found p) = (found_id p = j)" "\<not> seen_id j (Lost k)"
      "discover_step i seen (Found p) = Inl (if found_id p \<noteq> i then bt_insert (found_id p) p seen else seen)"
      "discover_step i seen (Lost k) = Inl seen" for p k
      by (simp_all add: seen_id_def discover_step_def)
    with Cons show ?case
      by (cases v; cases "find (seen_id j) (rev vs)") (simp_all add: find_append bt_get_insert)
  qed simp
  then show ?thesis by (simp add: discovering.over_window split: option.split)
qed

lemma locate_window: "locate_loop unhex wanted es found = locate_ref wanted (window unhex es) found"
proof -
  have "over_events (locate_step wanted) (\<lambda>s. s) vs found = locate_ref wanted vs found" for vs
    by (induction vs arbitrary: found) (simp_all add: locate_step_def)
  then show ?thesis by (simp add: locating.over_window)
qed

lemma resolve_window:
  "resolve_loop unhex wanted i es u =
     (case find (answers wanted) (window unhex es) of
        Some (Found p) \<Rightarrow> Inr (usable (found_addrs p))
      | _ \<Rightarrow> Inl (if wanted = i then ThisDevice wanted
                 else if u \<or> list_ex (seen_id wanted) (window unhex es) then NoUsableAddress wanted else NotFound wanted))"
proof -
  have "over_events (resolve_step wanted) (resolve_fin wanted i) vs u =
     (case find (answers wanted) vs of
        Some (Found p) \<Rightarrow> Inr (usable (found_addrs p))
      | _ \<Rightarrow> Inl (if wanted = i then ThisDevice wanted
                 else if u \<or> list_ex (seen_id wanted) vs then NoUsableAddress wanted else NotFound wanted))" for vs
    by (induction vs arbitrary: u) (auto simp: resolve_step_def resolve_fin_def answers_def seen_id_def split: peer_event.splits)
  then show ?thesis by (simp add: resolving.over_window)
qed

section \<open>Browses that keep what is there\<close>

text \<open>
  Two more loops, of the worker and of the chat, follow devices that come and go: an accepted record adds
  its device, a departure removes it. What such a loop ends with for a device is what the last event
  that speaks of it says.
\<close>

definition keep_step :: "(discovered_peer \<Rightarrow> bool) \<Rightarrow> (discovered_peer \<Rightarrow> 'a) \<Rightarrow> (device_id, 'a) btree \<Rightarrow> peer_event \<Rightarrow>
    (device_id, 'a) btree + (device_id, 'a) btree" where
  "keep_step ok f found v =
     Inl (case v of
        Found p \<Rightarrow> (if ok p then bt_insert (found_id p) (f p) found else found)
      | Lost i \<Rightarrow> bt_remove i found)"

definition speaks_of :: "(discovered_peer \<Rightarrow> bool) \<Rightarrow> device_id \<Rightarrow> peer_event \<Rightarrow> bool" where
  "speaks_of ok i v \<longleftrightarrow> (case v of Found p \<Rightarrow> ok p \<and> found_id p = i | Lost j \<Rightarrow> j = i)"

definition live_at :: "(discovered_peer \<Rightarrow> bool) \<Rightarrow> peer_event list \<Rightarrow> device_id \<Rightarrow> discovered_peer option" where
  "live_at ok vs i = (case find (speaks_of ok i) (rev vs) of Some (Found p) \<Rightarrow> Some p | _ \<Rightarrow> None)"

lemma speaks_of_simps [simp]:
  "speaks_of ok i (Found p) = (ok p \<and> found_id p = i)"
  "speaks_of ok i (Lost j) = (j = i)"
  by (simp_all add: speaks_of_def)

lemma live_at_Cons:
  "live_at ok (v # vs) i =
     (if list_ex (speaks_of ok i) vs then live_at ok vs i
      else if speaks_of ok i v then (case v of Found p \<Rightarrow> Some p | Lost _ \<Rightarrow> None) else None)"
proof -
  have "find (speaks_of ok i) (rev vs) = None \<longleftrightarrow> \<not> list_ex (speaks_of ok i) vs"
    by (auto simp: find_None_iff list_ex_iff)
  then show ?thesis
    by (cases "find (speaks_of ok i) (rev vs)") (auto simp: live_at_def find_append split: peer_event.split)
qed

lemma live_at_Nil [simp]: "live_at ok [] i = None"
  by (simp add: live_at_def)

lemma live_at_no_speech: "\<not> list_ex (speaks_of ok i) vs \<Longrightarrow> live_at ok vs i = None"
  by (induction vs) (auto simp: live_at_Cons)

lemma live_at_Some: "live_at ok vs i = Some p \<Longrightarrow> Found p \<in> set vs \<and> ok p \<and> found_id p = i"
  by (induction vs) (auto simp: live_at_Cons split: if_splits peer_event.splits)

lemma live_at_none_ok: "(\<And>p. \<not> ok p) \<Longrightarrow> live_at ok vs i = None"
  using live_at_Some [of ok vs i] by (cases "live_at ok vs i") blast+

lemma keep_get:
  "bt_wf found \<Longrightarrow> bt_wf (over_events (keep_step ok f) (\<lambda>s. s) vs found) \<and>
     bt_get (over_events (keep_step ok f) (\<lambda>s. s) vs found) i =
       (if list_ex (speaks_of ok i) vs then map_option f (live_at ok vs i) else bt_get found i)"
proof (induction vs arbitrary: found)
  case (Cons v vs)
  show ?case
  proof (cases v)
    case (Found p)
    have "bt_wf (if ok p then bt_insert (found_id p) (f p) found else found)" using Cons.prems by (simp add: bt_wf_insert)
    from Cons.IH [OF this] Found show ?thesis by (auto simp: keep_step_def live_at_Cons bt_get_insert)
  next
    case (Lost j)
    with Cons.IH [OF bt_wf_remove [OF Cons.prems]] show ?thesis by (auto simp: keep_step_def live_at_Cons bt_get_remove)
  qed
qed simp

lemma kept:
  "bt_wf (over_events (keep_step ok f) (\<lambda>s. s) vs []) \<and>
   bt_get (over_events (keep_step ok f) (\<lambda>s. s) vs []) i = map_option f (live_at ok vs i)"
  using keep_get [OF bt_wf_Nil, of ok f vs i] live_at_no_speech [of ok i vs] by auto

section \<open>Lemmas\<close>

lemma insort_bool:
  "insort_key k x (filter (\<lambda>a. \<not> k a) xs @ filter k xs) =
     (if k x then filter (\<lambda>a. \<not> k a) xs @ x # filter k xs else x # filter (\<lambda>a. \<not> k a) xs @ filter k xs)"
proof -
  have t: "k x \<Longrightarrow> insort_key k x (us @ vs) = us @ x # vs" if "list_all (\<lambda>a. \<not> k a) us" "list_all k vs" for us vs
    using that by (induction us; cases vs) auto
  show ?thesis
  proof (cases "k x")
    case True
    then show ?thesis by (simp add: t list_all_iff)
  next
    case False
    then show ?thesis by (cases "filter (\<lambda>a. \<not> k a) xs @ filter k xs") simp_all
  qed
qed

lemma sort_key_bool: "sort_key k xs = filter (\<lambda>a. \<not> k a) xs @ filter k xs"
  by (induction xs) (auto simp: insort_bool)

definition refuses :: "(sock_addr \<Rightarrow> net_error + unit) \<Rightarrow> (sock_addr \<Rightarrow> net_error + 'c) \<Rightarrow> sock_addr \<Rightarrow> bool" where
  "refuses bind dial a \<longleftrightarrow> bind a = Inr () \<and> isl (dial a)"

lemma connect_each_exact:
  "connect_each bind dial addrs fs =
     (case dropWhile (refuses bind dial) addrs of
        [] \<Rightarrow> Inl (Unreachable (fs @ map (\<lambda>a. (a, projl (dial a))) addrs))
      | a # _ \<Rightarrow> (case bind a of Inl e \<Rightarrow> Inl (BindFailed e) | Inr _ \<Rightarrow> Inr (projr (dial a))))"
proof (induction addrs arbitrary: fs)
  case (Cons a as)
  show ?case
  proof (cases "refuses bind dial a")
    case True
    then obtain e where e: "bind a = Inr ()" "dial a = Inl e" by (auto simp: refuses_def isl_def)
    then have "connect_each bind dial (a # as) fs = connect_each bind dial as (fs @ [(a, e)])" by simp
    then show ?thesis using True e Cons [of "fs @ [(a, e)]"]
      by (cases "dropWhile (refuses bind dial) as") (simp_all del: dropWhile_eq_Nil_conv)
  next
    case False
    then show ?thesis by (cases "bind a"; cases "dial a") (auto simp: refuses_def)
  qed
qed simp

text \<open>The entries of a search, and when it has them all.\<close>

definition found_ok :: "device_id list \<Rightarrow> peer_event list \<Rightarrow> (device_id, sock_addr list) btree \<Rightarrow> bool" where
  "found_ok wanted vs found \<longleftrightarrow> bt_wf found \<and>
     (\<forall>i as. bt_get found i = Some as \<longrightarrow> i \<in> set wanted \<and>
        (\<exists>p. Found p \<in> set vs \<and> answers i (Found p) \<and> as = usable (found_addrs p)))"

lemma locate_ref_sound:
  "found_ok wanted us found \<Longrightarrow> found_ok wanted (us @ vs) (locate_ref wanted vs found)"
proof (induction vs arbitrary: us found)
  case (Cons v vs)
  let ?f = "case v of
      Found p \<Rightarrow> (if found_id p \<in> set wanted \<and> usable (found_addrs p) \<noteq> []
                then bt_insert (found_id p) (usable (found_addrs p)) found else found)
    | Lost _ \<Rightarrow> found"
  have "found_ok wanted (us @ [v]) ?f"
    using Cons.prems by (cases v) (auto simp: found_ok_def bt_wf_insert bt_get_insert answers_def split: if_splits)
  from Cons.IH [OF this] Cons.prems show ?case by (auto simp: found_ok_def) blast
qed simp

lemma locate_ref_keeps: "bt_get found i \<noteq> None \<Longrightarrow> bt_get (locate_ref wanted vs found) i \<noteq> None"
  by (induction vs arbitrary: found) (auto simp: bt_get_insert split: peer_event.split)

lemma full_map:
  assumes "bt_wf found" and "fst ` set found \<subseteq> set wanted" and "distinct wanted" and "\<not> length found < length wanted"
    and "i \<in> set wanted"
  shows "bt_get found i \<noteq> None"
proof -
  have "card (fst ` set found) = length found"
    using bt_wf_distinct [OF assms(1)] by (metis distinct_card length_map set_map)
  moreover have "card (set wanted) = length wanted" using assms(3) by (rule distinct_card)
  ultimately have "fst ` set found = set wanted"
    using assms(2,4) by (metis List.finite_set card_seteq not_less)
  with assms(5) have "i \<in> fst ` set found" by simp
  then show ?thesis by (auto simp: bt_get_def dom_map_of_conv_image_fst [symmetric])
qed

lemma locate_ref_complete:
  assumes "distinct wanted" and "found_ok wanted us found" and "i \<in> set wanted" and "v \<in> set vs" and "answers i v"
  shows "bt_get (locate_ref wanted vs found) i \<noteq> None"
  using assms(2,4)
proof (induction vs arbitrary: us found)
  case (Cons w ws)
  have keys: "fst ` set found \<subseteq> set wanted"
    using Cons.prems(1) by (fastforce simp: found_ok_def bt_get_iff)
  show ?case
  proof (cases "length found < length wanted")
    case False
    then show ?thesis using full_map [OF _ keys assms(1) False assms(3)] Cons.prems(1) by (simp add: found_ok_def)
  next
    case True
    show ?thesis
    proof (cases "w = v")
      case w: True
      then obtain p where "v = Found p" "found_id p = i" "usable (found_addrs p) \<noteq> []"
        using assms(5) by (auto simp: answers_def split: peer_event.splits)
      with w True assms(3) show ?thesis by (auto intro!: locate_ref_keeps [simplified] simp: bt_get_insert)
    next
      case False
      let ?f = "case w of
          Found p \<Rightarrow> (if found_id p \<in> set wanted \<and> usable (found_addrs p) \<noteq> []
                    then bt_insert (found_id p) (usable (found_addrs p)) found else found)
        | Lost _ \<Rightarrow> found"
      have "found_ok wanted (us @ [w]) ?f"
        using Cons.prems(1) by (cases w) (auto simp: found_ok_def bt_wf_insert bt_get_insert answers_def split: if_splits)
      with Cons.IH [of "us @ [w]" ?f] False Cons.prems True show ?thesis by simp
    qed
  qed
qed simp

lemma remote_hosts_set: "(j \<in> set (remote_hosts pl)) = (\<exists>p. p \<in> set pl \<and> place_host p = Peer j)"
  by (force simp: remote_hosts_def List.map_filter_def split: host.splits)

lemma dial_each_Inr:
  "dial_each l bind dial ks m = Inr peers \<Longrightarrow>
     (if j \<in> set ks
      then \<exists>addrs c. bt_get l j = Some addrs \<and> connect_any (bind j) (dial j) (usable addrs) = Inr c \<and> bt_get peers j = Some c
      else bt_get peers j = bt_get m j)"
proof (induction ks arbitrary: m)
  case (Cons k ks)
  then obtain as c where k: "bt_get l k = Some as" "connect_any (bind k) (dial k) (usable as) = Inr c"
      "dial_each l bind dial ks (bt_insert k c m) = Inr peers"
    by (auto simp: rbind_eq_Inr map_err_eq_Inr ok_or_eq_Inr)
  from Cons.IH [OF k(3)] k show ?case by (auto simp: bt_get_insert split: if_splits)
qed simp

section \<open>Properties\<close>

text \<open>The addresses dialled. Of what a device advertises, exactly the IPv4 addresses are dialled,
  each as often as it was advertised: first those that are not loopback addresses, then those that
  are, each group in the advertised order.\<close>

theorem usable_order:
  "usable addrs =
     filter (\<lambda>a. is_ipv4 (ip a) \<and> \<not> is_loopback (ip a)) addrs @ filter (\<lambda>a. is_ipv4 (ip a) \<and> is_loopback (ip a)) addrs"
  unfolding usable_def sort_key_bool by (simp add: conj_commute)

text \<open>A dial tries every address. It ends at the first address that answers, or at the first whose
  endpoint cannot be bound; when all of them refuse, the error names every address with its reason,
  in order.\<close>

theorem connect_any_exact:
  "connect_any bind dial addrs =
     (if addrs = [] then Inl NoAddress
      else case dropWhile (refuses bind dial) addrs of
        [] \<Rightarrow> Inl (Unreachable (map (\<lambda>a. (a, projl (dial a))) addrs))
      | a # _ \<Rightarrow> (case bind a of Inl e \<Rightarrow> Inl (BindFailed e) | Inr _ \<Rightarrow> Inr (projr (dial a))))"
  unfolding connect_any_def connect_each_exact append_Nil by (rule refl)

text \<open>Looking for several devices at once finds each of them that shows itself. Every entry is for a
  device that was wanted, and holds the addresses to dial of one of its records, at least one; a
  wanted device with such a record in the window has an entry.\<close>

theorem locate_exact:
  assumes "locate unhex started wanted es = Inr found" and "distinct wanted"
  shows "found_ok wanted (window unhex es) found \<and>
    (i \<in> set wanted \<and> list_ex (answers i) (window unhex es)) = (bt_get found i \<noteq> None)"
proof -
  have f: "found = locate_ref wanted (window unhex es) []"
    using assms(1) by (auto simp: locate_def rbind_eq_Inr locate_window)
  have e: "found_ok wanted [] []" by (simp add: found_ok_def)
  from locate_ref_sound [OF e, of "window unhex es"] f have ok: "found_ok wanted (window unhex es) found" by simp
  have "bt_get found i \<noteq> None" if "i \<in> set wanted" "list_ex (answers i) (window unhex es)"
    using locate_ref_complete [OF assms(2) e that(1)] that(2) f by (auto simp: list_ex_iff)
  moreover have "i \<in> set wanted \<and> list_ex (answers i) (window unhex es)" if "bt_get found i \<noteq> None"
    using ok that by (auto simp: found_ok_def list_ex_iff)
  ultimately show ?thesis using ok by blast
qed

text \<open>Resolving a target. An address is taken as it is; a device id becomes the addresses to dial of
  the first record of that device that has any, and otherwise an error that says whether the target
  is this device, a device that advertised no address to dial, or nothing that was seen.\<close>

theorem resolve_exact:
  "resolve v6 unhex started target self_id es =
     (case parse_sock v6 target of
        Some a \<Rightarrow> Inr [a]
      | None \<Rightarrow>
          rbind (map_err BadTarget (parse_id unhex target)) (\<lambda>wanted.
          rbind (map_err DiscoveryFailed started) (\<lambda>_.
            case find (answers wanted) (window unhex es) of
              Some (Found p) \<Rightarrow> Inr (usable (found_addrs p))
            | _ \<Rightarrow> Inl (if wanted = self_id then ThisDevice wanted
                       else if list_ex (seen_id wanted) (window unhex es) then NoUsableAddress wanted else NotFound wanted))))"
  unfolding resolve_def resolve_window by (simp only: simp_thms)

text \<open>A device that sees its own record resolves its own id to its own addresses: the message that says
  so is reached only when it saw none.\<close>

lemma resolve_self:
  assumes "parse_sock v6 target = None" and "parse_id unhex target = Inr self_id" and "started = Inr u"
    and "window unhex es = [Found p]" and "answers self_id (Found p)"
  shows "resolve v6 unhex started target self_id es = Inr (usable (found_addrs p))"
  using assms by (simp add: resolve_exact)

text \<open>A placement is dialled completely or not at all. When the connections for a placement are
  handed out, there is one for every device the placement names and for no other, each dialled to an
  address that device advertised.\<close>

theorem dial_places_complete:
  assumes "dial_places unhex store started es bind dial pl = Inr peers"
  shows "(bt_get peers i \<noteq> None) = (\<exists>p. p \<in> set pl \<and> place_host p = Peer i) \<and>
    (case bt_get peers i of None \<Rightarrow> True
     | Some c \<Rightarrow> \<exists>located addrs. locate unhex started (remote_hosts pl) es = Inr located \<and>
         bt_get located i = Some addrs \<and> connect_any (bind i) (dial i) (usable addrs) = Inr c)"
proof (cases "remote_hosts pl = []")
  case True
  then show ?thesis using assms remote_hosts_set [of i pl] by (auto simp: dial_places_def)
next
  case False
  with assms obtain l where l: "locate unhex started (remote_hosts pl) es = Inr l"
      "dial_each l bind dial (remote_hosts pl) [] = Inr peers"
    by (auto simp: dial_places_def Let_def rbind_eq_Inr)
  from dial_each_Inr [OF l(2), of i] l(1) remote_hosts_set [of i pl] show ?thesis
    by (cases "i \<in> set (remote_hosts pl)") auto
qed

section \<open>An instance\<close>

definition example_events :: "service_event list" where
  "example_events = [OtherEvent, Resolved (example_record ''worker'' [V6 1, V4 2130706433, V4 167772161])]"

lemma example_window:
  "window unhex_text example_events = [Found (example_found ''worker'' [V6 1, V4 2130706433, V4 167772161])]"
  by (simp add: example_events_def window_def map_filter_simps example_is_found)

lemma example_usable:
  "usable (found_addrs (example_found ''worker'' [V6 1, V4 2130706433, V4 167772161])) =
     [\<lparr>ip = V4 167772161, port = 47900\<rparr>, \<lparr>ip = V4 2130706433, port = 47900\<rparr>]"
  by (simp add: usable_def sort_key_bool example_found_def)

lemma example_locate:
  "locate unhex_text (Inr ()) [DeviceId [1, 2, 3, 4, 5, 6, 7, 8]] example_events =
     Inr [(DeviceId [1, 2, 3, 4, 5, 6, 7, 8], [\<lparr>ip = V4 167772161, port = 47900\<rparr>, \<lparr>ip = V4 2130706433, port = 47900\<rparr>])]"
  by (simp add: locate_def locate_window example_window example_usable) (simp add: example_found_def)

lemma locate_exact_witness:
  "list_ex (answers (DeviceId [1, 2, 3, 4, 5, 6, 7, 8])) (window unhex_text example_events)"
  using locate_exact [OF example_locate, of "DeviceId [1, 2, 3, 4, 5, 6, 7, 8]"] by (simp add: bt_get_def)

lemma dial_places_complete_witness:
  "\<exists>located addrs. locate unhex_text (Inr ()) (remote_hosts [\<lparr>place_first = 0, place_last = 2,
      place_host = Peer (DeviceId [1, 2, 3, 4, 5, 6, 7, 8])\<rparr>]) example_events = Inr located \<and>
    bt_get located (DeviceId [1, 2, 3, 4, 5, 6, 7, 8]) = Some addrs \<and>
    connect_any (\<lambda>_. Inr ()) (\<lambda>a. if is_loopback (ip a) then Inr (7 :: nat) else Inl Rejected) (usable addrs) = Inr 7"
proof -
  let ?pl = "[\<lparr>place_first = 0, place_last = 2, place_host = Peer (DeviceId [1, 2, 3, 4, 5, 6, 7, 8])\<rparr>]"
  have h: "remote_hosts ?pl = [DeviceId [1, 2, 3, 4, 5, 6, 7, 8]]"
    by (simp add: remote_hosts_def map_filter_simps)
  have "dial_places unhex_text (Inr ()) (Inr ()) example_events (\<lambda>_ _. Inr ())
      (\<lambda>_ a. if is_loopback (ip a) then Inr (7 :: nat) else Inl Rejected) ?pl = Inr [(DeviceId [1, 2, 3, 4, 5, 6, 7, 8], 7)]"
    by (simp add: dial_places_def h example_locate bt_get_def usable_def sort_key_bool connect_any_def)
  from dial_places_complete [OF this, of "DeviceId [1, 2, 3, 4, 5, 6, 7, 8]"] show ?thesis
    by (simp add: bt_get_def)
qed

end
