(* ===== verification/Startup.thy ===== *)
theory Startup
  imports Locate
begin

text \<open>
  \<open>crates/latticed/src/startup.rs\<close>: what master and worker have in common. Starting the service is a
  sequence of steps each of which can fail; the firewall script is run with a command line; connecting
  to a device tries its addresses and keeps to the identity that was asked for. A connection is given
  by the id of the device at its other end.
\<close>

definition MASTER_BUSY :: string where "MASTER_BUSY = ''master is busy; retry shortly''"

datatype firewall = Auto | Print | Off

record common_options =
  serve_port :: nat
  offered_model :: "string option"
  firewall_mode :: firewall

section \<open>Connecting\<close>

datatype refusal = OtherIdentity | DialFailed net_error

fun connect_loop ::
    "(sock_addr \<Rightarrow> net_error + device_id) \<Rightarrow> device_id option \<Rightarrow> sock_addr list \<Rightarrow> (sock_addr \<times> refusal) list \<Rightarrow>
       (sock_addr \<times> refusal) list + device_id" where
  "connect_loop dial expected [] failures = Inl failures"
| "connect_loop dial expected (a # as) failures =
     (case dial a of
        Inr i \<Rightarrow>
          if (case expected of None \<Rightarrow> True | Some e \<Rightarrow> i = e) then Inr i
          else connect_loop dial expected as (failures @ [(a, OtherIdentity)])
      | Inl e \<Rightarrow> connect_loop dial expected as (failures @ [(a, DialFailed e)]))"

definition service_connect ::
    "(sock_addr \<Rightarrow> net_error + device_id) \<Rightarrow> sock_addr list \<Rightarrow> device_id option \<Rightarrow> (sock_addr \<times> refusal) list + device_id" where
  "service_connect dial addrs expected = connect_loop dial expected addrs []"

section \<open>Starting\<close>

definition firewall_args :: "common_options \<Rightarrow> nat option \<Rightarrow> string list" where
  "firewall_args options pairing_port =
     [case firewall_mode options of Auto \<Rightarrow> ''auto'' | Print \<Rightarrow> ''print'' | Off \<Rightarrow> ''off'',
      show_nat (serve_port options)] @
     (case pairing_port of Some p \<Rightarrow> [show_nat p] | None \<Rightarrow> [])"

datatype start_error =
    ReadingModel string
  | StoreUnreadable net_error
  | PortUnavailable nat
  | FirewallNotRun string
  | FirewallFailed
  | NotAdvertised net_error

text \<open>\<open>script\<close> runs the firewall script: an error, or whether it succeeded.\<close>

definition configure_firewall ::
    "(string list \<Rightarrow> string + bool) \<Rightarrow> common_options \<Rightarrow> nat option \<Rightarrow> start_error + unit" where
  "configure_firewall script options pairing_port =
     rbind (map_err FirewallNotRun (script (firewall_args options pairing_port))) (\<lambda>ok.
       if \<not> ok then Inl FirewallFailed else Inr ())"

record facts_of_host =
  fh_name :: string
  fh_platform :: string
  fh_memory :: nat

text \<open>What starting meets: the model file, the trust store, the port, the script and the daemon.\<close>

record start_world =
  model_readable :: "string \<Rightarrow> string + unit"
  store_loaded :: "net_error + trust_store"
  port_bound :: "sock_addr \<Rightarrow> bool"
  firewall_script :: "string list \<Rightarrow> string + bool"
  daemon_started :: "string + unit"
  record_accepted :: "service_info \<Rightarrow> string + unit"
  record_registered :: "service_info \<Rightarrow> string + unit"

definition service_start ::
    "start_world \<Rightarrow> (bytes \<Rightarrow> string) \<Rightarrow> device_id \<Rightarrow> facts_of_host \<Rightarrow> common_options \<Rightarrow> nat option \<Rightarrow>
       start_error + trust_store \<times> discovery" where
  "service_start w hex self_id about options pairing_port =
     rbind (case offered_model options of
              Some m \<Rightarrow> map_err ReadingModel (model_readable w m)
            | None \<Rightarrow> Inr ()) (\<lambda>_.
     rbind (map_err StoreUnreadable (store_loaded w)) (\<lambda>store.
     rbind (if port_bound w (bind_addr (serve_port options)) then Inr () else Inl (PortUnavailable (serve_port options))) (\<lambda>_.
     rbind (configure_firewall (firewall_script w) options pairing_port) (\<lambda>_.
     rbind (map_err NotAdvertised (new_discovery (daemon_started w))) (\<lambda>d.
       case advertise_role hex (record_accepted w) (record_registered w)
              \<lparr>ad_id = self_id, ad_name = fh_name about, ad_platform = fh_platform about, ad_memory = fh_memory about,
               ad_port = serve_port options\<rparr>
              (if pairing_port \<noteq> None then ''master'' else ''worker'') pairing_port d of
         (Inl e, _) \<Rightarrow> Inl (NotAdvertised e)
       | (Inr _, d) \<Rightarrow> Inr (store, d))))))"

section \<open>Accepting connections\<close>

text \<open>
  What an endpoint's \<open>accept\<close> returns within the time limit of one turn: a connection, why one was
  refused, nothing in time, or that the endpoint has closed, which ends the loop.
\<close>

datatype 'c accepted = Arrived 'c | Failure net_error | Quiet | EndpointClosed

fun serve_worker :: "'c accepted list \<Rightarrow> 'c list" where
  "serve_worker [] = []"
| "serve_worker (Arrived c # es) = c # serve_worker es"
| "serve_worker (Failure e # es) = serve_worker es"
| "serve_worker (Quiet # es) = serve_worker es"
| "serve_worker (EndpointClosed # es) = []"

section \<open>Lemmas\<close>

lemma serve_worker_exact:
  "serve_worker es =
     List.map_filter (\<lambda>ev. case ev of Arrived c \<Rightarrow> Some c | _ \<Rightarrow> None) (takeWhile (\<lambda>ev. ev \<noteq> EndpointClosed) es)"
  by (induction es rule: serve_worker.induct) (simp_all add: map_filter_simps)

lemma serve_worker_open:
  "EndpointClosed \<notin> set es \<Longrightarrow> serve_worker (es @ fs) = serve_worker es @ serve_worker fs"
  by (induction es rule: serve_worker.induct) auto

definition matches :: "device_id option \<Rightarrow> device_id \<Rightarrow> bool" where
  "matches expected i \<longleftrightarrow> (case expected of None \<Rightarrow> True | Some e \<Rightarrow> i = e)"

text \<open>The connection is the first that answers as expected; the failures are those before it.\<close>

definition refusal_of :: "net_error + device_id \<Rightarrow> refusal" where
  "refusal_of r = (case r of Inl e \<Rightarrow> DialFailed e | Inr _ \<Rightarrow> OtherIdentity)"

definition answers_as :: "device_id option \<Rightarrow> net_error + device_id \<Rightarrow> bool" where
  "answers_as expected r \<longleftrightarrow> (case r of Inl _ \<Rightarrow> False | Inr i \<Rightarrow> matches expected i)"

lemma connect_loop_exact:
  "connect_loop dial expected addrs fs =
     (case find (\<lambda>a. answers_as expected (dial a)) addrs of
        Some a \<Rightarrow> Inr (projr (dial a))
      | None \<Rightarrow> Inl (fs @ map (\<lambda>a. (a, refusal_of (dial a))) addrs))"
proof (induction addrs arbitrary: fs)
  case (Cons a as)
  then show ?case
    by (cases "dial a") (auto simp: answers_as_def matches_def refusal_of_def split: option.split)
qed simp

lemma service_connect_Inr:
  assumes "service_connect dial addrs expected = Inr i"
  obtains a where "a \<in> set addrs" "dial a = Inr i" "matches expected i"
proof -
  from assms obtain a where a: "find (\<lambda>a. answers_as expected (dial a)) addrs = Some a" "i = projr (dial a)"
    by (auto simp: service_connect_def connect_loop_exact split: option.splits)
  from a(1) have "a \<in> set addrs" "answers_as expected (dial a)" by (auto simp: find_Some_iff)
  with a(2) that show thesis by (auto simp: answers_as_def split: sum.splits)
qed

lemma service_start_Inr:
  assumes "service_start w hex i about options pp = Inr (store, d)"
  shows "store_loaded w = Inr store \<and> port_bound w (bind_addr (serve_port options)) \<and>
    firewall_script w (firewall_args options pp) = Inr True \<and>
    registered d = {fullname (show_id hex i)} \<and> daemon_up d \<and> advertised d = Some (fullname (show_id hex i))"
  using assms
  by (auto simp: service_start_def rbind_eq_Inr map_err_eq_Inr configure_firewall_def new_discovery_def advertise_role_def
      service_of_def Let_def split: if_splits sum.splits option.splits prod.splits)

section \<open>Properties\<close>

text \<open>Connecting to a device that was chosen never ends at another. The connection is with the
  first address that answers as the device expected, or answers at all when none was; otherwise
  every address is listed with what it did.\<close>

theorem service_connect_exact:
  "service_connect dial addrs expected =
     (case find (\<lambda>a. answers_as expected (dial a)) addrs of
        Some a \<Rightarrow> Inr (projr (dial a))
      | None \<Rightarrow> Inl (map (\<lambda>a. (a, refusal_of (dial a))) addrs))"
  unfolding service_connect_def connect_loop_exact append_Nil by (rule refl)

end
