(* ===== verification/Pairing.thy ===== *)
theory Pairing
  imports Activation_Stream Transport Net_Addr
begin

text \<open>
  \<open>crates/lattice-net/src/pairing.rs\<close>: pairing over a six-digit code. The SPAKE2 exchange, the MAC,
  the hash, the curve check and the serialisation come from other packages; they are the fields of
  a \<open>primitives\<close> record, and the laws below state what is relied on of them. Texts are ASCII, and
  keys are given by their bytes. The properties show that two devices that enter the same code over
  one connection learn each other's keys, and that a confirmation is believed only when it was made
  in the same exchange, over the same connection and for the same secret.
\<close>

section \<open>The code\<close>

datatype pairing_code = PairingCode (as_str: string)

text \<open>\<open>{:06}\<close> of the number drawn.\<close>

definition code_generate :: "nat \<Rightarrow> pairing_code" where
  "code_generate n = (let s = show_nat n in PairingCode (replicate (6 - length s) (CHR ''0'') @ s))"

definition code_parse :: "string \<Rightarrow> net_error + pairing_code" where
  "code_parse text =
     (let trimmed = trim text in
      if \<not> (length trimmed = 6 \<and> list_all is_digit trimmed) then Inl MalformedPairingCode
      else Inr (PairingCode trimmed))"

section \<open>What other packages provide\<close>

record confirm_body =
  cb_public_key :: bytes
  cb_name :: string
  cb_platform :: string

record confirm =
  body :: bytes
  mac :: bytes

record 'st primitives =
  sha256 :: "bytes \<Rightarrow> bytes"
  hmac :: "bytes \<Rightarrow> bytes \<Rightarrow> bytes"
  spake_start :: "bytes \<Rightarrow> bytes \<Rightarrow> bytes \<Rightarrow> 'st \<times> bytes"
  spake_finish :: "'st \<Rightarrow> bytes \<Rightarrow> string + bytes"
  valid_key :: "bytes \<Rightarrow> string + bytes"
  body_codec :: "confirm_body postcard"
  confirm_codec :: "confirm postcard"

definition PAIRING_CONTEXT :: bytes where
  "PAIRING_CONTEXT = map (\<lambda>c. of_char c) ''lattice-pairing-v1''"

definition CONFIRM_LABEL :: bytes where
  "CONFIRM_LABEL = map (\<lambda>c. of_char c) ''lattice-pairing-confirm-v1''"

section \<open>The exchange\<close>

text \<open>A device as it takes part: its public key, name and platform.\<close>

record party =
  party_key :: bytes
  party_name :: string
  party_platform :: string

record 'st pairing =
  spake :: 'st
  ours :: bytes
  binding :: bytes

record awaiting_confirm =
  mac_key :: bytes
  transcript :: bytes
  our_public_key :: bytes

definition derive :: "'st primitives \<Rightarrow> bytes \<Rightarrow> bytes \<Rightarrow> bytes" where
  "derive E shared label = hmac E shared label"

definition tag :: "'st primitives \<Rightarrow> bytes \<Rightarrow> bytes \<Rightarrow> bytes \<Rightarrow> bytes" where
  "tag E key script b = hmac E key (script @ b)"

text \<open>\<open>random\<close> is the scalar the SPAKE2 package draws.\<close>

definition pairing_start :: "'st primitives \<Rightarrow> bytes \<Rightarrow> pairing_code \<Rightarrow> bytes \<Rightarrow> 'st pairing \<times> bytes" where
  "pairing_start E random code bound =
     (case spake_start E (map (\<lambda>c. of_char c) (as_str code)) PAIRING_CONTEXT random of
        (s, msg) \<Rightarrow> (\<lparr>spake = s, ours = msg, binding = bound\<rparr>, msg))"

definition transcript_of :: "bytes \<Rightarrow> bytes \<Rightarrow> bytes \<Rightarrow> bytes" where
  "transcript_of us theirs bound =
     (let (first, second) = (if us \<le> theirs then (us, theirs) else (theirs, us))
      in first @ second @ bound)"

definition key_exchange ::
    "'st primitives \<Rightarrow> 'st pairing \<Rightarrow> bytes \<Rightarrow> party \<Rightarrow> net_error + awaiting_confirm \<times> confirm" where
  "key_exchange E st peer_message me =
     (if peer_message = ours st then Inl PairingReflected
      else rbind (map_err (\<lambda>_. PairingFailed) (spake_finish E (spake st) peer_message)) (\<lambda>shared.
           let script = transcript_of (ours st) peer_message (binding st);
               key = derive E shared CONFIRM_LABEL
           in rbind (encode_msg (body_codec E)
                      \<lparr>cb_public_key = party_key me, cb_name = party_name me, cb_platform = party_platform me\<rparr>) (\<lambda>b.
              Inr (\<lparr>mac_key = key, transcript = script, our_public_key = party_key me\<rparr>,
                   \<lparr>body = b, mac = tag E key script b\<rparr>))))"

definition finish_pairing :: "'st primitives \<Rightarrow> nat \<Rightarrow> awaiting_confirm \<Rightarrow> confirm \<Rightarrow> net_error + paired_peer" where
  "finish_pairing E now a c =
     (if tag E (mac_key a) (transcript a) (body c) \<noteq> mac c then Inl PairingFailed
      else rbind (decode_msg (body_codec E) (body c)) (\<lambda>b.
           rbind (map_err (\<lambda>_. PairingFailed) (valid_key E (cb_public_key b))) (\<lambda>key.
           if key = our_public_key a then Inl PairingReflected
           else Inr (new_peer (sha256 E) now key (cb_name b) (cb_platform b)))))"

definition MAX_FRAME :: nat where "MAX_FRAME = 4096"

text \<open>The exchange on an open stream; the bytes sent are returned beside the result.\<close>

definition exchange_on ::
    "'st primitives \<Rightarrow> nat \<Rightarrow> bytes \<Rightarrow> pairing_code \<Rightarrow> bytes \<Rightarrow> party \<Rightarrow> tx \<Rightarrow> rx \<Rightarrow> (net_error + paired_peer) \<times> bytes" where
  "exchange_on E now random code bound me send recv =
     (case pairing_start E random code bound of (st, msg) \<Rightarrow>
      (case write_frame msg send of
         (Inl e, send) \<Rightarrow> (Inl e, sent send)
       | (Inr _, send) \<Rightarrow>
           (case read_frame MAX_FRAME recv of
              Inl e \<Rightarrow> (Inl e, sent send)
            | Inr (theirs, recv) \<Rightarrow>
                (case rbind (key_exchange E st theirs me) (\<lambda>(a, c).
                       rbind (encode_msg (confirm_codec E) c) (\<lambda>bs. Inr (a, bs))) of
                   Inl e \<Rightarrow> (Inl e, sent send)
                 | Inr (a, bs) \<Rightarrow>
                     (case write_frame bs send of
                        (Inl e, send) \<Rightarrow> (Inl e, sent send)
                      | (Inr _, send) \<Rightarrow>
                          (rbind (read_frame MAX_FRAME recv) (\<lambda>(bs, _).
                           rbind (decode_msg (confirm_codec E) bs) (finish_pairing E now a)), sent send))))))"

definition exchange ::
    "'st primitives \<Rightarrow> nat \<Rightarrow> bytes \<Rightarrow> pairing_code \<Rightarrow> role \<Rightarrow> channel \<Rightarrow> bytes \<Rightarrow> party \<Rightarrow>
       (net_error + paired_peer) \<times> bytes" where
  "exchange E now random code r ch bound me =
     (case control_stream r ch of
        Inl e \<Rightarrow> (Inl e, [])
      | Inr (send, recv) \<Rightarrow> exchange_on E now random code bound me send recv)"

section \<open>What is relied on\<close>

text \<open>Symmetric SPAKE2: two runs with one password and different messages end with one secret.\<close>

definition spake_law :: "'st primitives \<Rightarrow> bool" where
  "spake_law E \<longleftrightarrow>
     (\<forall>pw i r1 r2 s1 m1 s2 m2. spake_start E pw i r1 = (s1, m1) \<longrightarrow> spake_start E pw i r2 = (s2, m2) \<longrightarrow> m1 \<noteq> m2 \<longrightarrow>
        (\<exists>k. spake_finish E s1 m2 = Inr k \<and> spake_finish E s2 m1 = Inr k))"

definition body_of :: "party \<Rightarrow> confirm_body" where
  "body_of p = \<lparr>cb_public_key = party_key p, cb_name = party_name p, cb_platform = party_platform p\<rparr>"

text \<open>A party whose key is a key, and whose confirmation fits a frame.\<close>

definition party_ok :: "'st primitives \<Rightarrow> party \<Rightarrow> bool" where
  "party_ok E p \<longleftrightarrow> valid_key E (party_key p) = Inr (party_key p) \<and>
     (\<exists>b. to_bytes (body_codec E) (body_of p) = Inr b \<and>
        (\<forall>k d. \<exists>bs. to_bytes (confirm_codec E) \<lparr>body = b, mac = hmac E k d\<rparr> = Inr bs \<and> length bs \<le> MAX_FRAME))"

definition first_message :: "'st primitives \<Rightarrow> bytes \<Rightarrow> pairing_code \<Rightarrow> bytes" where
  "first_message E random code = snd (spake_start E (map (\<lambda>c. of_char c) (as_str code)) PAIRING_CONTEXT random)"

definition peer_of :: "'st primitives \<Rightarrow> nat \<Rightarrow> party \<Rightarrow> paired_peer" where
  "peer_of E now p = new_peer (sha256 E) now (party_key p) (party_name p) (party_platform p)"

section \<open>Lemmas\<close>

lemma transcript_comm: "transcript_of a b x = transcript_of b a x"
  by (auto simp: transcript_of_def Let_def)

lemma start_message:
  "pairing_start E random code bound = (st, msg) \<Longrightarrow>
     msg = first_message E random code \<and> ours st = msg \<and> binding st = bound \<and>
     spake_start E (map (\<lambda>c. of_char c) (as_str code)) PAIRING_CONTEXT random = (spake st, msg)"
  by (auto simp: pairing_start_def first_message_def split: prod.splits)

lemma key_exchange_Inr:
  "key_exchange E st theirs me = Inr (a, c) \<longleftrightarrow>
     theirs \<noteq> ours st \<and> (\<exists>shared b. spake_finish E (spake st) theirs = Inr shared \<and>
       to_bytes (body_codec E) (body_of me) = Inr b \<and>
       a = \<lparr>mac_key = derive E shared CONFIRM_LABEL, transcript = transcript_of (ours st) theirs (binding st),
            our_public_key = party_key me\<rparr> \<and>
       c = \<lparr>body = b, mac = tag E (mac_key a) (transcript a) b\<rparr>)"
  by (auto simp: key_exchange_def Let_def rbind_eq_Inr map_err_eq_Inr encode_msg_def body_of_def)

lemma finish_Inr:
  "finish_pairing E now a c = Inr p \<longleftrightarrow>
     tag E (mac_key a) (transcript a) (body c) = mac c \<and>
     (\<exists>b key. of_bytes (body_codec E) (body c) = Inr b \<and> valid_key E (cb_public_key b) = Inr key \<and>
        key \<noteq> our_public_key a \<and> p = new_peer (sha256 E) now key (cb_name b) (cb_platform b))"
  by (auto simp: finish_pairing_def rbind_eq_Inr map_err_eq_Inr decode_msg_def)

text \<open>A confirmation made in the same exchange is believed.\<close>

lemma finish_matching:
  assumes "postcard_law (body_codec E)" and "party_ok E p" and "party_key p \<noteq> our_public_key a"
    and "to_bytes (body_codec E) (body_of p) = Inr b"
  shows "finish_pairing E now a \<lparr>body = b, mac = tag E (mac_key a) (transcript a) b\<rparr> = Inr (peer_of E now p)"
proof -
  have "of_bytes (body_codec E) b = Inr (body_of p)" using assms(1,4) by (simp add: postcard_law_def)
  then show ?thesis using assms(2,3)
    by (simp add: finish_pairing_def decode_msg_def party_ok_def body_of_def peer_of_def)
qed

lemma MAX_FRAME_u32: "n \<le> MAX_FRAME \<Longrightarrow> n \<le> u32_max"
  by (simp add: MAX_FRAME_def)

lemma write_small:
  "open_tx s \<Longrightarrow> length bs \<le> MAX_FRAME \<Longrightarrow> write_frame bs s = (Inr (), s\<lparr>sent := sent s @ frame bs\<rparr>)"
  by (rule write_frame_sent) (auto simp: accepts_def open_tx_def dest: MAX_FRAME_u32)

lemma read_small:
  "length bs \<le> MAX_FRAME \<Longrightarrow> pending r = frame bs @ rest \<Longrightarrow> read_frame MAX_FRAME r = Inr (bs, r\<lparr>pending := rest\<rparr>)"
  by (rule read_frame_frame) (auto dest: MAX_FRAME_u32)

text \<open>The first thing an end sends is its message.\<close>

lemma sends_message:
  assumes "open_tx s" and "length (first_message E random code) \<le> MAX_FRAME"
  obtains rest where "snd (exchange_on E now random code bound me s r) = sent s @ frame (first_message E random code) @ rest"
proof -
  obtain st msg where st: "pairing_start E random code bound = (st, msg)" by fastforce
  note m = start_message [OF st]
  let ?s = "s\<lparr>sent := sent s @ frame msg\<rparr>"
  have w: "write_frame msg s = (Inr (), ?s)" using assms m write_small by auto
  have ext: "\<exists>more. sent (snd (write_frame bs ?s)) = sent ?s @ more" for bs
    using assms(1) by (auto simp: write_frame_def write_all_def accepts_def open_tx_def split: if_splits)
  have "\<exists>rest. snd (exchange_on E now random code bound me s r) = sent ?s @ rest"
  proof -
    { fix bs
      have "\<exists>rest. snd (case write_frame bs ?s of (Inl e, send) \<Rightarrow> (Inl e, sent send)
          | (Inr _, send) \<Rightarrow> (X send, sent send)) = sent ?s @ rest" for X :: "tx \<Rightarrow> net_error + paired_peer"
        using ext [of bs] by (cases "write_frame bs ?s"; cases "fst (write_frame bs ?s)") auto }
    then show ?thesis using w st
      by (auto simp: exchange_on_def split: sum.split)
  qed
  then show thesis using that m by auto
qed

lemma sends_both:
  assumes "open_tx s" and "pairing_start E random code bound = (st, msg)" and "length msg \<le> MAX_FRAME"
    and "pending r = frame theirs @ rest" and "length theirs \<le> MAX_FRAME"
    and "key_exchange E st theirs me = Inr (a, c)" and "to_bytes (confirm_codec E) c = Inr bs" and "length bs \<le> MAX_FRAME"
  shows "exchange_on E now random code bound me s r =
    (rbind (read_frame MAX_FRAME (r\<lparr>pending := rest\<rparr>)) (\<lambda>(bs, _).
     rbind (decode_msg (confirm_codec E) bs) (finish_pairing E now a)), sent s @ frame msg @ frame bs)"
proof -
  let ?s = "s\<lparr>sent := sent s @ frame msg\<rparr>"
  have "write_frame msg s = (Inr (), ?s)" using assms(1,3) by (rule write_small)
  moreover have "write_frame bs ?s = (Inr (), ?s\<lparr>sent := sent ?s @ frame bs\<rparr>)"
    using assms(1,8) by (intro write_small) simp_all
  ultimately show ?thesis using assms read_small [OF assms(5,4)]
    by (simp add: exchange_on_def encode_msg_def)
qed

text \<open>Two ends of one stream, each reading what the other writes.\<close>

lemma exchange_meets:
  assumes laws: "postcard_law (body_codec E)" "postcard_law (confirm_codec E)" "spake_law E"
    and ok: "party_ok E A" "party_ok E B" and keys: "party_key A \<noteq> party_key B"
    and small: "length (first_message E ra code) \<le> MAX_FRAME" "length (first_message E rb code) \<le> MAX_FRAME"
    and differ: "first_message E ra code \<noteq> first_message E rb code"
    and tx: "open_tx sa" "open_tx sb"
    and wire: "pending r1 = snd (exchange_on E now rb code bound B sb r2) \<and> sent sb = []"
      "sent sa @ pending r2 = snd (exchange_on E now ra code bound A sa r1)"
  shows "fst (exchange_on E now ra code bound A sa r1) = Inr (peer_of E now B)"
    and "fst (exchange_on E now rb code bound B sb r2) = Inr (peer_of E now A)"
proof -
  obtain sta ma where a: "pairing_start E ra code bound = (sta, ma)" by fastforce
  obtain stb mb where b: "pairing_start E rb code bound = (stb, mb)" by fastforce
  note ma = start_message [OF a] and mb = start_message [OF b]
  obtain k where k: "spake_finish E (spake sta) mb = Inr k" "spake_finish E (spake stb) ma = Inr k"
    using laws(3) ma mb differ unfolding spake_law_def by metis
  obtain ba where ba: "to_bytes (body_codec E) (body_of A) = Inr ba"
    "\<And>x d. \<exists>bs. to_bytes (confirm_codec E) \<lparr>body = ba, mac = hmac E x d\<rparr> = Inr bs \<and> length bs \<le> MAX_FRAME"
    using ok(1) by (auto simp: party_ok_def)
  obtain bb where bb: "to_bytes (body_codec E) (body_of B) = Inr bb"
    "\<And>x d. \<exists>bs. to_bytes (confirm_codec E) \<lparr>body = bb, mac = hmac E x d\<rparr> = Inr bs \<and> length bs \<le> MAX_FRAME"
    using ok(2) by (auto simp: party_ok_def)
  define key script where "key = derive E k CONFIRM_LABEL" and "script = transcript_of ma mb bound"
  define ca cb where "ca = \<lparr>body = ba, mac = tag E key script ba\<rparr>" and "cb = \<lparr>body = bb, mac = tag E key script bb\<rparr>"
  let ?aw = "\<lambda>p. \<lparr>mac_key = key, transcript = script, our_public_key = party_key p\<rparr>"
  have kea: "key_exchange E sta mb A = Inr (?aw A, ca)"
    using k ma mb ba differ by (simp add: key_exchange_Inr key_def script_def ca_def)
  have keb: "key_exchange E stb ma B = Inr (?aw B, cb)"
    using k ma mb bb differ by (simp add: key_exchange_Inr key_def script_def cb_def transcript_comm [of "first_message E rb code"])
  obtain fa where fa: "to_bytes (confirm_codec E) ca = Inr fa" "length fa \<le> MAX_FRAME"
    using ba(2) by (force simp: ca_def tag_def)
  obtain fb where fb: "to_bytes (confirm_codec E) cb = Inr fb" "length fb \<le> MAX_FRAME"
    using bb(2) by (force simp: cb_def tag_def)
  obtain xb where "snd (exchange_on E now rb code bound B sb r2) = sent sb @ frame mb @ xb"
    using sends_message [OF tx(2) small(2)] mb by metis
  with wire(1) have r1: "pending r1 = frame mb @ xb" by simp
  obtain xa where "snd (exchange_on E now ra code bound A sa r1) = sent sa @ frame ma @ xa"
    using sends_message [OF tx(1) small(1)] ma by metis
  with wire(2) have r2: "pending r2 = frame ma @ xa" by simp
  have sma: "length ma \<le> MAX_FRAME" "length mb \<le> MAX_FRAME" using small ma mb by auto
  note ea = sends_both [OF tx(1) a sma(1) r1 sma(2) kea fa, of now]
  note eb = sends_both [OF tx(2) b sma(2) r2 sma(1) keb fb, of now]
  have xb: "xb = frame fb" using wire(1) unfolding r1 eb by auto
  have xa: "xa = frame fa" using wire(2) unfolding r2 ea by simp
  have da: "of_bytes (confirm_codec E) fb = Inr cb" "of_bytes (confirm_codec E) fa = Inr ca"
    using laws(2) fa fb by (simp_all add: postcard_law_def)
  have f: "finish_pairing E now (?aw A) cb = Inr (peer_of E now B)" "finish_pairing E now (?aw B) ca = Inr (peer_of E now A)"
    using finish_matching [OF laws(1) ok(2) _ bb(1), of "?aw A" now] finish_matching [OF laws(1) ok(1) _ ba(1), of "?aw B" now] keys
    by (simp_all add: ca_def cb_def)
  have "read_frame MAX_FRAME (r1\<lparr>pending := xb\<rparr>) = Inr (fb, r1\<lparr>pending := []\<rparr>)"
    using read_small [OF fb(2), of "r1\<lparr>pending := xb\<rparr>" "[]"] by (simp add: xb)
  then show "fst (exchange_on E now ra code bound A sa r1) = Inr (peer_of E now B)"
    using ea f(1) da by (simp add: decode_msg_def)
  have "read_frame MAX_FRAME (r2\<lparr>pending := xa\<rparr>) = Inr (fa, r2\<lparr>pending := []\<rparr>)"
    using read_small [OF fa(2), of "r2\<lparr>pending := xa\<rparr>" "[]"] by (simp add: xa)
  then show "fst (exchange_on E now rb code bound B sb r2) = Inr (peer_of E now A)"
    using eb f(2) da by (simp add: decode_msg_def)
qed

lemma dialer_stream:
  "open_tx s \<Longrightarrow> sent s = [] \<Longrightarrow>
     control_stream Dialer (Inr (s, r)) = Inr (s\<lparr>sent := encode_header control_header\<rparr>, r)"
  by (simp add: control_stream_def open_stream_def write_unlimited open_tx_def)

lemma listener_stream:
  assumes "pending r = encode_header control_header @ rest"
  shows "control_stream Listener (Inr (s, r)) = Inr (s, r\<lparr>pending := rest\<rparr>)"
proof -
  have "read_exact HEADER_LEN r = Inr (encode_header control_header, r\<lparr>pending := rest\<rparr>)" using assms by simp
  then show ?thesis
    by (simp add: control_stream_def accept_stream_def decode_encode_header control_header_def del: read_exact_append)
qed

lemma exchange_completes:
  assumes laws: "postcard_law (body_codec E)" "postcard_law (confirm_codec E)" "spake_law E"
    and ok: "party_ok E A" "party_ok E B" and keys: "party_key A \<noteq> party_key B"
    and small: "length (first_message E ra code) \<le> MAX_FRAME" "length (first_message E rb code) \<le> MAX_FRAME"
    and differ: "first_message E ra code \<noteq> first_message E rb code"
    and tx: "open_tx sa" "open_tx sb" "sent sa = []" "sent sb = []"
    and dialer: "dialer = exchange E now ra code Dialer (Inr (sa, r1)) (channel_binding_of (sha256 E) certA certB) A"
    and listener: "listener = exchange E now rb code Listener (Inr (sb, r2)) (channel_binding_of (sha256 E) certB certA) B"
    and wire: "pending r1 = snd listener" "pending r2 = snd dialer"
  shows "fst dialer = Inr (peer_of E now B) \<and> fst listener = Inr (peer_of E now A)"
proof -
  let ?b = "channel_binding_of (sha256 E) certA certB"
  let ?sa = "sa\<lparr>sent := encode_header control_header\<rparr>"
  have d: "dialer = exchange_on E now ra code ?b A ?sa r1"
    using tx dialer by (simp add: exchange_def dialer_stream)
  from sends_message [of ?sa E ra code now ?b A r1] tx(1) small(1) d
  obtain rest where rest: "pending r2 = encode_header control_header @ rest" using wire(2) by force
  have l: "listener = exchange_on E now rb code ?b B sb (r2\<lparr>pending := rest\<rparr>)"
    using listener by (simp add: exchange_def listener_stream [OF rest] channel_binding_comm [of _ certB])
  have w1: "pending r1 = snd (exchange_on E now rb code ?b B sb (r2\<lparr>pending := rest\<rparr>)) \<and> sent sb = []"
    using wire(1) l tx(4) by simp
  have w2: "sent ?sa @ pending (r2\<lparr>pending := rest\<rparr>) = snd (exchange_on E now ra code ?b A ?sa r1)"
    using wire(2) d rest by simp
  have o: "open_tx ?sa" using tx(1) by simp
  note m = exchange_meets [OF laws ok keys small differ o tx(2) w1 w2]
  show ?thesis using m d l by simp
qed

section \<open>Properties\<close>

text \<open>C20: Pairing works. Two devices that enter the same code and run the exchange over one
  connection, each reading what the other writes, both succeed, and each learns exactly the other's
  key, name and platform, under the id that is the hash of that key.\<close>

theorem pairing_completes:
  assumes laws: "postcard_law (body_codec E)" "postcard_law (confirm_codec E)" "spake_law E"
    and ok: "party_ok E A" "party_ok E B" and keys: "party_key A \<noteq> party_key B"
    and small: "length (first_message E ra code) \<le> MAX_FRAME" "length (first_message E rb code) \<le> MAX_FRAME"
    and differ: "first_message E ra code \<noteq> first_message E rb code"
    and tx: "open_tx sa" "open_tx sb" "sent sa = []" "sent sb = []"
    and dialer: "dialer = exchange E now ra code Dialer (Inr (sa, r1)) (channel_binding_of (sha256 E) certA certB) A"
    and listener: "listener = exchange E now rb code Listener (Inr (sb, r2)) (channel_binding_of (sha256 E) certB certA) B"
    and wire: "pending r1 = snd listener" "pending r2 = snd dialer"
  shows "fst dialer = Inr (peer_of E now B) \<and> fst listener = Inr (peer_of E now A)"
  by (rule exchange_completes [OF assms])

text \<open>C6: A confirmation proves what it says. If a device accepts a confirmation another device made,
  and the MAC has no collision among the strings involved, then both held the same secret, saw the
  same two messages and ran over connections with the same binding, so nobody relayed the exchange
  and nobody changed the confirmation: the peer recorded has the confirming device's key, name and
  platform, and is not the device itself.\<close>

theorem pairing_authentic:
  assumes "postcard_law (body_codec E)"
    and mine: "key_exchange E st theirs A = Inr (a, mine)"
    and yours: "key_exchange E st' theirs' B = Inr (b, c)"
    and valid: "valid_key E (party_key B) = Inr (party_key B)"
    and lengths: "length (ours st) = n" "length theirs = n" "length (ours st') = n" "length theirs' = n"
      "length (binding st) = m" "length (binding st') = m"
    and inj: "inj_on (\<lambda>(k, d). hmac E k d)
      {(s, CONFIRM_LABEL), (s', CONFIRM_LABEL), (mac_key a, transcript a @ body c), (mac_key b, transcript b @ body c)}"
    and secrets: "spake_finish E (spake st) theirs = Inr s" "spake_finish E (spake st') theirs' = Inr s'"
    and accepted: "finish_pairing E now a c = Inr p"
  shows "s = s' \<and> {ours st, theirs} = {ours st', theirs'} \<and> binding st = binding st' \<and>
    p = peer_of E now B \<and> party_key A \<noteq> party_key B"
proof -
  from mine secrets(1) have a: "mac_key a = derive E s CONFIRM_LABEL"
    "transcript a = transcript_of (ours st) theirs (binding st)" "our_public_key a = party_key A"
    by (auto simp: key_exchange_Inr)
  from yours secrets(2) obtain bb where b: "mac_key b = derive E s' CONFIRM_LABEL"
    "transcript b = transcript_of (ours st') theirs' (binding st')"
    "to_bytes (body_codec E) (body_of B) = Inr bb" "c = \<lparr>body = bb, mac = tag E (mac_key b) (transcript b) bb\<rparr>"
    by (auto simp: key_exchange_Inr)
  from accepted b(4) have "hmac E (mac_key a) (transcript a @ body c) = hmac E (mac_key b) (transcript b @ body c)"
    by (auto simp: finish_Inr tag_def)
  then have eq: "(mac_key a, transcript a @ body c) = (mac_key b, transcript b @ body c)"
    using inj_onD [OF inj, of "(mac_key a, transcript a @ body c)" "(mac_key b, transcript b @ body c)"] by simp
  then have "hmac E s CONFIRM_LABEL = hmac E s' CONFIRM_LABEL" using a b by (simp add: derive_def)
  then have s: "s = s'" using inj_onD [OF inj, of "(s, CONFIRM_LABEL)" "(s', CONFIRM_LABEL)"] by simp
  from eq have "transcript_of (ours st) theirs (binding st) = transcript_of (ours st') theirs' (binding st')"
    using a b by simp
  then have t: "{ours st, theirs} = {ours st', theirs'} \<and> binding st = binding st'"
    using lengths by (auto simp: transcript_of_def Let_def split: if_splits)
  have "of_bytes (body_codec E) (body c) = Inr (body_of B)" using assms(1) b by (simp add: postcard_law_def)
  with accepted valid a have "p = peer_of E now B" "party_key A \<noteq> party_key B"
    by (auto simp: finish_Inr body_of_def peer_of_def)
  with s t show ?thesis by simp
qed


lemma dropWhile_ws: "list_all is_ws w \<Longrightarrow> dropWhile is_ws (w @ s) = dropWhile is_ws s"
  by (induction w) simp_all

lemma trim_padded:
  assumes "list_all is_ws u" and "list_all is_ws w" and "list_all (\<lambda>c. \<not> is_ws c) s"
  shows "trim (u @ s @ w) = s"
proof (cases "s = []")
  case True
  have "\<forall>x \<in> set (u @ w). is_ws x" using assms(1,2) by (auto simp: list_all_iff)
  then have "dropWhile is_ws (u @ w) = []" by (simp only: dropWhile_eq_Nil_conv)
  then have "trim (u @ w) = []" by (simp only: trim_def) simp
  with True show ?thesis by simp
next
  case False
  then have "dropWhile is_ws (s @ w) = s @ w" using assms(3) by (cases s) simp_all
  moreover have "dropWhile is_ws (rev s) = rev s" using assms(3) by (intro dropWhile_none) (simp add: list_all_rev)
  ultimately show ?thesis using assms by (simp add: trim_def dropWhile_ws)
qed

lemma digit_not_ws: "is_digit c \<Longrightarrow> \<not> is_ws c"
  by (auto simp: is_digit_def is_ws_def)

lemma digits_val_zeros: "digits_val (replicate k (CHR ''0'') @ s) = digits_val s"
  by (induction k) (simp_all add: digits_val_def digit_val_def)

text \<open>Every code drawn can be typed. The number drawn is shown as exactly six digits, different
  numbers as different codes, and what is shown, typed with any white space around it, is read as the
  same code; a text is accepted only for the six digits left after trimming it.\<close>

theorem code_exact:
  assumes "n < 1000000" and "list_all is_ws u" and "list_all is_ws w"
  shows "code_parse (u @ as_str (code_generate n) @ w) = Inr (code_generate n) \<and>
    length (as_str (code_generate n)) = 6 \<and> list_all is_digit (as_str (code_generate n)) \<and>
    digits_val (as_str (code_generate n)) = n \<and>
    (code_parse text = Inr c) = (as_str c = trim text \<and> length (trim text) = 6 \<and> list_all is_digit (trim text))"
proof -
  have l: "length (show_nat n) \<le> 6" using assms(1) by (intro show_nat_width) simp_all
  then have six: "length (as_str (code_generate n)) = 6" by (simp add: code_generate_def Let_def)
  have z: "is_digit (CHR ''0'')" by (simp add: is_digit_def)
  have dig: "list_all is_digit (as_str (code_generate n))"
    using show_nat_digits [of n] z by (auto simp: code_generate_def Let_def list_all_iff)
  have val: "digits_val (as_str (code_generate n)) = n"
    by (simp add: code_generate_def Let_def digits_val_zeros)
  have "list_all (\<lambda>c. \<not> is_ws c) (as_str (code_generate n))" using dig by (auto simp: list_all_iff digit_not_ws)
  from trim_padded [OF assms(2,3) this] six dig
  have p: "code_parse (u @ as_str (code_generate n) @ w) = Inr (code_generate n)"
    by (simp add: code_parse_def Let_def)
  have q: "(code_parse text = Inr c) = (as_str c = trim text \<and> length (trim text) = 6 \<and> list_all is_digit (trim text))"
    by (cases c) (auto simp: code_parse_def Let_def)
  from p six dig val q show ?thesis by blast
qed

lemma code_exact_witness:
  "code_parse ('' '' @ as_str (code_generate 123) @ '' '') = Inr (code_generate 123) \<and> digits_val (as_str (code_generate 123)) = 123"
  using code_exact [of 123 "'' ''" "'' ''"] by (simp add: is_ws_def)

section \<open>An instance\<close>

definition example_alice :: party where
  "example_alice = \<lparr>party_key = [1], party_name = ''alice'', party_platform = ''linux''\<rparr>"

definition example_bob :: party where
  "example_bob = \<lparr>party_key = [2], party_name = ''bob'', party_platform = ''macos''\<rparr>"

definition example_bodies :: "confirm_body postcard" where
  "example_bodies =
     \<lparr>to_bytes = (\<lambda>b. if b = body_of example_alice then Inr [1] else if b = body_of example_bob then Inr [2] else Inl ''''),
      of_bytes = (\<lambda>bs. if bs = [1] then Inr (body_of example_alice) else if bs = [2] then Inr (body_of example_bob) else Inl '''')\<rparr>"

definition example_confirms :: "confirm postcard" where
  "example_confirms =
     \<lparr>to_bytes = (\<lambda>c. case body c of [b] \<Rightarrow> Inr (b # mac c) | _ \<Rightarrow> Inl ''''),
      of_bytes = (\<lambda>bs. case bs of [] \<Rightarrow> Inl '''' | b # m \<Rightarrow> Inr \<lparr>body = [b], mac = m\<rparr>)\<rparr>"

definition example_primitives :: "(bytes \<Rightarrow> bytes \<Rightarrow> bytes) \<Rightarrow> bytes primitives" where
  "example_primitives h =
     \<lparr>sha256 = (\<lambda>bs. bs), hmac = h, spake_start = (\<lambda>pw i r. (pw, r)), spake_finish = (\<lambda>st m. Inr st),
      valid_key = Inr, body_codec = example_bodies, confirm_codec = example_confirms\<rparr>"

lemma example_parties: "body_of example_alice \<noteq> body_of example_bob" "party_key example_alice \<noteq> party_key example_bob"
  by (simp_all add: body_of_def example_alice_def example_bob_def)

lemma example_laws:
  "postcard_law example_bodies" "postcard_law example_confirms" "spake_law (example_primitives h)"
proof -
  show "postcard_law example_bodies" by (simp add: postcard_law_def example_bodies_def)
  have "of_bytes example_confirms bs = Inr c" if "to_bytes example_confirms c = Inr bs" for c bs
    using that by (cases c) (auto simp: example_confirms_def split: list.splits)
  then show "postcard_law example_confirms" by (simp add: postcard_law_def)
  show "spake_law (example_primitives h)" by (auto simp: spake_law_def example_primitives_def)
qed

lemma example_party_ok:
  assumes "\<And>k d. length (h k d) \<le> 9"
  shows "party_ok (example_primitives h) example_alice" "party_ok (example_primitives h) example_bob"
proof -
  have "length (h k d) \<le> 4095" for k d using assms [of k d] by simp
  then show "party_ok (example_primitives h) example_alice" "party_ok (example_primitives h) example_bob"
    using example_parties
    by (auto simp: party_ok_def example_primitives_def example_bodies_def example_confirms_def MAX_FRAME_def)
qed

definition example_sender :: tx where
  "example_sender = \<lparr>sent = [], limit = None, finished = False, tx_fault = ''''\<rparr>"

text \<open>A run over the bytes the other party sends.\<close>

lemma example_pairing_run:
  defines "E \<equiv> example_primitives (\<lambda>_ _. [7])"
  assumes p: "to_bytes example_bodies (body_of me) = Inr [x]" "of_bytes example_bodies [y] = Inr (body_of you)"
      "party_key me = [x]" "party_key you = [y]" "x \<noteq> y"
    and o: "open_tx s" "r \<noteq> r'" "pending rcv = frame [r'] @ frame [y, 7]"
  shows "exchange_on E 0 [r] code bound me s rcv = (Inr (peer_of E 0 you), sent s @ frame [r] @ frame [x, 7])"
proof -
  obtain st where st: "pairing_start E [r] code bound = (st, [r])"
    by (simp add: pairing_start_def E_def example_primitives_def)
  obtain a where a: "key_exchange E st [r'] me = Inr (a, \<lparr>body = [x], mac = [7]\<rparr>)" "our_public_key a = [x]"
    using start_message [OF st] o(2) p(1,3)
    by (auto simp: key_exchange_Inr tag_def E_def example_primitives_def)
  have b: "finish_pairing E 0 a \<lparr>body = [y], mac = [7]\<rparr> = Inr (peer_of E 0 you)"
    using a(2) p by (simp add: finish_Inr E_def example_primitives_def tag_def peer_of_def body_of_def)
  have f: "read_frame MAX_FRAME (rcv\<lparr>pending := frame [y, 7]\<rparr>) = Inr ([y, 7], rcv\<lparr>pending := []\<rparr>)"
    using read_small [of "[y, 7]" "rcv\<lparr>pending := frame [y, 7]\<rparr>" "[]"] by (simp add: MAX_FRAME_def)
  have d: "decode_msg (confirm_codec E) [y, 7] = Inr \<lparr>body = [y], mac = [7]\<rparr>"
    by (simp add: decode_msg_def E_def example_primitives_def example_confirms_def)
  have "exchange_on E 0 [r] code bound me s rcv =
      (rbind (read_frame MAX_FRAME (rcv\<lparr>pending := frame [y, 7]\<rparr>)) (\<lambda>(bs, _).
         rbind (decode_msg (confirm_codec E) bs) (finish_pairing E 0 a)), sent s @ frame [r] @ frame [x, 7])"
    using o by (intro sends_both [OF _ st _ _ _ a(1)]) (simp_all add: MAX_FRAME_def E_def example_primitives_def example_confirms_def)
  then show ?thesis by (simp add: f d b)
qed

definition example_binding :: "bytes \<Rightarrow> bytes \<Rightarrow> bytes" where
  "example_binding = channel_binding_of (sha256 (example_primitives (\<lambda>_ _. [7])))"

lemma example_ends:
  "exchange (example_primitives (\<lambda>_ _. [7])) 0 [3] (PairingCode ''123456'') Dialer
      (Inr (example_sender, \<lparr>pending = frame [4] @ frame [2, 7], rx_fault = ''''\<rparr>))
      (example_binding [5] [6]) example_alice =
      (Inr (peer_of (example_primitives (\<lambda>_ _. [7])) 0 example_bob), encode_header control_header @ frame [3] @ frame [1, 7])"
   "exchange (example_primitives (\<lambda>_ _. [7])) 0 [4] (PairingCode ''123456'') Listener
      (Inr (example_sender, \<lparr>pending = encode_header control_header @ frame [3] @ frame [1, 7], rx_fault = ''''\<rparr>))
      (example_binding [6] [5]) example_bob =
      (Inr (peer_of (example_primitives (\<lambda>_ _. [7])) 0 example_alice), frame [4] @ frame [2, 7])"
proof -
  let ?E = "example_primitives (\<lambda>_ _. [7]) :: bytes primitives"
  let ?code = "PairingCode ''123456''"
  let ?b = "channel_binding_of (sha256 ?E) [5] [6]" and ?b' = "channel_binding_of (sha256 ?E) [6] [5]"
  let ?h = "encode_header control_header"
  let ?r1 = "\<lparr>pending = frame [4] @ frame [2, 7], rx_fault = ''''\<rparr>"
  let ?r2 = "\<lparr>pending = ?h @ frame [3] @ frame [1, 7], rx_fault = ''''\<rparr>"
  have o: "open_tx example_sender" "sent example_sender = []" by (simp_all add: open_tx_def example_sender_def)
  have bodies: "to_bytes example_bodies (body_of example_alice) = Inr [1]" "of_bytes example_bodies [2] = Inr (body_of example_bob)"
    "to_bytes example_bodies (body_of example_bob) = Inr [2]" "of_bytes example_bodies [1] = Inr (body_of example_alice)"
    using example_parties by (simp_all add: example_bodies_def)
  have d: "exchange ?E 0 [3] ?code Dialer (Inr (example_sender, ?r1)) ?b example_alice =
      (Inr (peer_of ?E 0 example_bob), ?h @ frame [3] @ frame [1, 7])"
    using o bodies example_pairing_run [of example_alice 1 2 example_bob "example_sender\<lparr>sent := ?h\<rparr>" 3 4 ?r1 ?code ?b]
    by (simp add: exchange_def dialer_stream example_alice_def example_bob_def)
  have l: "exchange ?E 0 [4] ?code Listener (Inr (example_sender, ?r2)) ?b' example_bob =
      (Inr (peer_of ?E 0 example_alice), frame [4] @ frame [2, 7])"
    using o bodies example_pairing_run [of example_bob 2 1 example_alice example_sender 4 3 "?r2\<lparr>pending := frame [3] @ frame [1, 7]\<rparr>" ?code ?b']
    by (simp add: exchange_def listener_stream [of ?r2 "frame [3] @ frame [1, 7]"] example_alice_def example_bob_def)
  from d show "exchange ?E 0 [3] ?code Dialer (Inr (example_sender, ?r1)) (example_binding [5] [6]) example_alice =
      (Inr (peer_of ?E 0 example_bob), ?h @ frame [3] @ frame [1, 7])"
    unfolding example_binding_def .
  from l show "exchange ?E 0 [4] ?code Listener (Inr (example_sender, ?r2)) (example_binding [6] [5]) example_bob =
      (Inr (peer_of ?E 0 example_alice), frame [4] @ frame [2, 7])"
    unfolding example_binding_def .
qed

lemma pairing_completes_witness:
  "fst (exchange (example_primitives (\<lambda>_ _. [7])) 0 [3] (PairingCode ''123456'') Dialer
      (Inr (example_sender, \<lparr>pending = frame [4] @ frame [2, 7], rx_fault = ''''\<rparr>))
      (example_binding [5] [6]) example_alice) =
      Inr (peer_of (example_primitives (\<lambda>_ _. [7])) 0 example_bob) \<and>
   fst (exchange (example_primitives (\<lambda>_ _. [7])) 0 [4] (PairingCode ''123456'') Listener
      (Inr (example_sender, \<lparr>pending = encode_header control_header @ frame [3] @ frame [1, 7], rx_fault = ''''\<rparr>))
      (example_binding [6] [5]) example_bob) =
      Inr (peer_of (example_primitives (\<lambda>_ _. [7])) 0 example_alice)"
  (is "?claim")
proof -
  let ?E = "example_primitives (\<lambda>_ _. [7]) :: bytes primitives"
  have o: "open_tx example_sender" "sent example_sender = []" by (simp_all add: open_tx_def example_sender_def)
  show ?claim
    unfolding example_binding_def
    by (rule pairing_completes [OF _ _ _ _ _ _ _ _ _ o(1) o(1) o(2) o(2) refl refl])
      (use example_laws example_party_ok [of "\<lambda>_ _. [7]"] example_parties example_ends [unfolded example_binding_def] in
        \<open>simp_all add: first_message_def MAX_FRAME_def example_primitives_def\<close>)
qed

lemma pairing_authentic_witness:
  "finish_pairing (example_primitives (@)) 0
     \<lparr>mac_key = [9] @ CONFIRM_LABEL, transcript = [3, 4, 8], our_public_key = [1]\<rparr>
     \<lparr>body = [2], mac = ([9] @ CONFIRM_LABEL) @ [3, 4, 8, 2]\<rparr> = Inr (peer_of (example_primitives (@)) 0 example_bob)"
proof -
  let ?E = "example_primitives (@)"
  let ?st = "\<lparr>spake = [9], ours = [3], binding = [8]\<rparr>" and ?st' = "\<lparr>spake = [9], ours = [4], binding = [8]\<rparr>"
  let ?a = "\<lambda>k. \<lparr>mac_key = [9] @ CONFIRM_LABEL, transcript = [3, 4, 8], our_public_key = k\<rparr>"
  let ?c = "\<lambda>b. \<lparr>body = [b], mac = ([9] @ CONFIRM_LABEL) @ [3, 4, 8, b]\<rparr>"
  have bodies: "to_bytes example_bodies (body_of example_alice) = Inr [1]" "to_bytes example_bodies (body_of example_bob) = Inr [2]"
    "of_bytes example_bodies [2] = Inr (body_of example_bob)"
    using example_parties by (simp_all add: example_bodies_def)
  have mine: "key_exchange ?E ?st [4] example_alice = Inr (?a [1], ?c 1)"
    using bodies by (auto simp: key_exchange_Inr example_primitives_def derive_def tag_def transcript_of_def example_alice_def)
  have yours: "key_exchange ?E ?st' [3] example_bob = Inr (?a [2], ?c 2)"
    using bodies by (auto simp: key_exchange_Inr example_primitives_def derive_def tag_def transcript_of_def example_bob_def)
  obtain p where p: "finish_pairing ?E 0 (?a [1]) (?c 2) = Inr p"
    using bodies by (auto simp: finish_pairing_def example_primitives_def tag_def decode_msg_def body_of_def example_bob_def)
  have "p = peer_of ?E 0 example_bob"
    using pairing_authentic [OF _ mine yours _ _ _ _ _ _ _ _ _ _ p, of 1 1 "[9]" "[9]"] example_laws
    by (simp add: example_primitives_def)
  with p show ?thesis by simp
qed

end
