(* ===== verification/Pairing_Session.thy ===== *)
theory Pairing_Session
  imports Pairing
begin

text \<open>
  \<open>crates/latticed/src/pairing_session.rs\<close>: a pairing that both sides have saved before either
  reports it. After the exchange the peer is written to the trust store, and only then do the two
  ends tell each other so on a second stream. The time limit of the whole session is given as where
  it struck, if it did. The properties show what a reported pairing guarantees here and at the other
  end, and what a failed one can leave behind.
\<close>

definition SAVED :: bytes where "SAVED = map (\<lambda>c. of_char c) ''saved''"

datatype session_error =
    CheckTheCode net_error
  | IdentityMismatch
  | SavingFailed net_error
  | ConfirmationStream net_error
  | FinishingConfirmation string
  | NotConfirmed
  | ReadingEnd string
  | DeliveringConfirmation string
  | PeerStopped
  | TimedOut

text \<open>
  How the peer's half of the confirmation stream ends after the bytes read (\<open>None\<close> for a clean end),
  and what \<open>quinn\<close> reports of the delivery of ours: an error, or the code the peer stopped it with.
\<close>

record endings =
  recv_end :: "string option"
  send_stopped :: "string + nat option"

definition read_to_end :: "nat \<Rightarrow> string option \<Rightarrow> rx \<Rightarrow> string + bytes" where
  "read_to_end largest ending recv =
     (if length (pending recv) > largest then Inl ''stream too long''
      else case ending of Some e \<Rightarrow> Inl e | None \<Rightarrow> Inr (pending recv))"

text \<open>The confirmation; the bytes sent are returned beside the result.\<close>

definition confirm_saved :: "role \<Rightarrow> channel \<Rightarrow> endings \<Rightarrow> (session_error + unit) \<times> bytes" where
  "confirm_saved r ch ends =
     (case control_stream r ch of
        Inl e \<Rightarrow> (Inl (ConfirmationStream e), [])
      | Inr (send, recv) \<Rightarrow>
          (case write_frame SAVED send of
             (Inl e, send) \<Rightarrow> (Inl (ConfirmationStream e), sent send)
           | (Inr _, send) \<Rightarrow>
               (case finish send of
                  (Inl e, send) \<Rightarrow> (Inl (FinishingConfirmation e), sent send)
                | (Inr _, send) \<Rightarrow>
                    (rbind (map_err ConfirmationStream (read_frame (length SAVED) recv)) (\<lambda>(bs, recv).
                       if bs \<noteq> SAVED then Inl NotConfirmed
                       else rbind (map_err ReadingEnd (read_to_end 0 (recv_end ends) recv)) (\<lambda>_.
                            rbind (map_err DeliveringConfirmation (send_stopped ends)) (\<lambda>why.
                              if why \<noteq> None then Inl PeerStopped else Inr ()))), sent send))))"

datatype expiry = InTime | WhilePairing | AfterSaving

text \<open>
  The session on a connection to \<open>remote\<close>, whose first control stream is \<open>ch\<close> and whose second is
  \<open>ch'\<close>. The bytes returned are those sent on the second.
\<close>

definition session_exchange ::
    "'st primitives \<Rightarrow> (paired_peer list \<Rightarrow> string + bytes) \<Rightarrow> nat \<Rightarrow> bytes \<Rightarrow> pairing_code \<Rightarrow> role \<Rightarrow> channel \<Rightarrow> channel \<Rightarrow>
       endings \<Rightarrow> expiry \<Rightarrow> bytes \<Rightarrow> device_id \<Rightarrow> party \<Rightarrow> trust_store \<times> bytes disk \<Rightarrow>
       (session_error + device_id) \<times> bytes \<times> trust_store \<times> bytes disk" where
  "session_exchange E to_json now random code r ch ch' ends late bound remote me st =
     (if late = WhilePairing then (Inl TimedOut, [], st)
      else case fst (exchange E now random code r ch bound me) of
        Inl e \<Rightarrow> (Inl (CheckTheCode e), [], st)
      | Inr peer \<Rightarrow>
          if device_id peer \<noteq> remote then (Inl IdentityMismatch, [], st)
          else (case trust_insert to_json peer st of
                  (Inl e, st) \<Rightarrow> (Inl (SavingFailed e), [], st)
                | (Inr _, st) \<Rightarrow>
                    (case confirm_saved r ch' ends of
                       (result, bs) \<Rightarrow>
                         (if late = AfterSaving then Inl TimedOut else rbind result (\<lambda>_. Inr (device_id peer)), bs, st))))"

section \<open>Lemmas\<close>

lemma trust_insert_saved:
  assumes "json_laws from_json to_json" and "store_wf ps" and "trust_insert to_json p (ps, d) = (Inr u, ps', d')"
  shows "trust_load from_json d' = Inr ps' \<and> trust_get ps' = (trust_get ps)(device_id p \<mapsto> p)"
proof -
  from assms(3) have "ps' = bt_insert (device_id p) p ps" "trust_save to_json ps' d = (Inr u, d')"
    by (auto simp: trust_insert_def Let_def split: prod.splits)
  with trust_save_loads [OF assms(1) store_wf_insert [OF assms(2)]] trust_insert_get [OF assms(3)] show ?thesis by metis
qed

lemma session_cases:
  assumes "session_exchange E to_json now random code r ch ch' ends late bound remote me st = (res, bs, st')"
  obtains (untouched) e where "res = Inl e" "bs = []" "st' = st"
  | (unsaved) p e where "fst (exchange E now random code r ch bound me) = Inr p" "device_id p = remote"
      "trust_insert to_json p st = (Inl e, st')" "res = Inl (SavingFailed e)" "bs = []"
  | (saved) p u res' where "fst (exchange E now random code r ch bound me) = Inr p" "device_id p = remote"
      "trust_insert to_json p st = (Inr u, st')" "confirm_saved r ch' ends = (res', bs)"
      "res = (if late = AfterSaving then Inl TimedOut else rbind res' (\<lambda>_. Inr remote))"
proof (cases "late = WhilePairing")
  case True
  with assms show thesis by (auto simp: session_exchange_def intro: untouched)
next
  case False
  show thesis
  proof (cases "fst (exchange E now random code r ch bound me)")
    case (Inl e)
    with False assms show thesis by (auto simp: session_exchange_def intro: untouched)
  next
    case (Inr p)
    show thesis
    proof (cases "device_id p = remote")
      case False
      with \<open>late \<noteq> WhilePairing\<close> Inr assms show thesis by (auto simp: session_exchange_def intro: untouched)
    next
      case True
      obtain ri sti where i: "trust_insert to_json p st = (ri, sti)" by (metis surj_pair)
      obtain rc bc where c: "confirm_saved r ch' ends = (rc, bc)" by fastforce
      show thesis
      proof (cases ri)
        case (Inl e)
        with False Inr True i assms show thesis by (intro unsaved [of p e]) (auto simp: session_exchange_def)
      next
        case (Inr u)
        with False \<open>fst _ = Inr p\<close> True i c assms show thesis
          by (intro saved [of p u rc]) (auto simp: session_exchange_def)
      qed
    qed
  qed
qed

lemma confirm_saved_Inr:
  assumes "fst (confirm_saved r (Inr (send, recv)) ends) = Inr ()"
  shows "pending recv = (if r = Dialer then [] else take HEADER_LEN (pending recv)) @ frame SAVED \<and>
    recv_end ends = None \<and> send_stopped ends = Inr None"
proof -
  from assms obtain s0 r0 where c: "control_stream r (Inr (send, recv)) = Inr (s0, r0)"
    by (cases "control_stream r (Inr (send, recv))") (auto simp: confirm_saved_def)
  from c assms obtain r1 where f: "read_frame (length SAVED) r0 = Inr (SAVED, r1)" "pending r1 = []"
      and e: "recv_end ends = None" "send_stopped ends = Inr None"
    by (auto simp: confirm_saved_def prod.case_eq_if rbind_eq_Inr map_err_eq_Inr read_to_end_def
        split: sum.splits if_splits option.splits)
  from read_frame_Inr [OF f(1)] f(2) have p: "pending r0 = frame SAVED" by simp
  have "pending recv = (if r = Dialer then [] else take HEADER_LEN (pending recv)) @ pending r0"
  proof (cases r)
    case Dialer
    with c show ?thesis by (auto simp: control_stream_def open_stream_def split: prod.splits sum.splits)
  next
    case Listener
    with c obtain bs where "read_exact HEADER_LEN recv = Inr (bs, r0)"
      by (auto simp: control_stream_def accept_stream_def rbind_eq_Inr map_err_eq_Inr split: if_splits)
    then have "HEADER_LEN = length bs" "pending recv = bs @ pending r0" by (simp_all add: read_exact_Inr)
    with Listener show ?thesis by simp
  qed
  with p e show ?thesis by simp
qed

section \<open>Properties\<close>

text \<open>What a session leaves behind. A reported pairing is with the device at the other end of the
  connection, which is recorded exactly as the exchange established it, in memory and in the file,
  with every other peer untouched. A failed session has changed nothing, or has recorded that one
  device, whose exchange had succeeded.\<close>

theorem session_exact:
  assumes "json_laws from_json to_json" and "store_wf ps"
    and "session_exchange E to_json now random code r ch ch' ends late bound remote me (ps, d) = (res, bs, ps', d')"
  shows "case res of
      Inr i \<Rightarrow> i = remote \<and> (\<exists>p. fst (exchange E now random code r ch bound me) = Inr p \<and> device_id p = remote \<and>
        trust_get ps' = (trust_get ps)(remote \<mapsto> p) \<and> trust_load from_json d' = Inr ps')
    | Inl e \<Rightarrow> (ps' = ps \<and> d' = d) \<or> (\<exists>p. fst (exchange E now random code r ch bound me) = Inr p \<and>
        device_id p = remote \<and> trust_get ps' = (trust_get ps)(remote \<mapsto> p))"
  using assms(3)
proof (cases rule: session_cases)
  case untouched
  then show ?thesis by simp
next
  case (unsaved p e)
  then show ?thesis using trust_insert_get [of to_json p ps d] by (auto simp: fun_eq_iff)
next
  case (saved p u res')
  from trust_insert_saved [OF assms(1,2) saved(3)] saved(1,2,5) show ?thesis
    by (auto simp: rbind_def split: sum.splits)
qed

text \<open>C15: Neither side believes in a pairing the other has not saved. When one end reports success and
  the second stream it read is the one the other end wrote, then the other end's exchange succeeded
  as well, and it has its peer on record in memory and in its file.\<close>

theorem session_mutual:
  assumes "json_laws from_json to_json" and "store_wf ps"
    and "session_exchange E' to_json' now' random' code' r' c1 (Inr (send, recv)) ends' late' bound' remote' me' st = (Inr i, bs', st')"
    and other: "session_exchange E to_json now random code r ch ch' ends late bound remote me (ps, d) = (res, bs, ps', d')"
    and wire: "pending recv = bs"
  shows "\<exists>p. fst (exchange E now random code r ch bound me) = Inr p \<and> device_id p = remote \<and>
    trust_get ps' remote = Some p \<and> trust_load from_json d' = Inr ps'"
proof -
  from assms(3) have "fst (confirm_saved r' (Inr (send, recv)) ends') = Inr ()"
    by (rule session_cases) (auto simp: rbind_def split: if_splits sum.splits)
  from confirm_saved_Inr [OF this] have "length (frame SAVED) \<le> length (pending recv)"
    by (metis length_append le_add2)
  then have "bs \<noteq> []" using wire by auto
  from other show ?thesis
  proof (rule session_cases)
    fix p u res'
    assume s: "fst (exchange E now random code r ch bound me) = Inr p" "device_id p = remote"
      "trust_insert to_json p (ps, d) = (Inr u, ps', d')"
    from trust_insert_saved [OF assms(1,2) s(3)] s show ?thesis by auto
  qed (use \<open>bs \<noteq> []\<close> in auto)
qed

text \<open>The saved-confirmation is exact. An end is satisfied only by the confirmation itself, on a
  control stream that ends right after it, with its own confirmation delivered.\<close>

theorem saved_confirmation:
  assumes "open_tx send" and "sent send = []"
  shows "(fst (confirm_saved Dialer (Inr (send, recv)) ends) = Inr ()) =
    (pending recv = frame SAVED \<and> recv_end ends = None \<and> send_stopped ends = Inr None)"
proof
  assume "fst (confirm_saved Dialer (Inr (send, recv)) ends) = Inr ()"
  from confirm_saved_Inr [OF this] show "pending recv = frame SAVED \<and> recv_end ends = None \<and> send_stopped ends = Inr None"
    by simp
next
  assume h: "pending recv = frame SAVED \<and> recv_end ends = None \<and> send_stopped ends = Inr None"
  let ?s = "send\<lparr>sent := encode_header control_header\<rparr>"
  have "length SAVED = 5" by (simp add: SAVED_def)
  then have w: "write_frame SAVED ?s = (Inr (), ?s\<lparr>sent := sent ?s @ frame SAVED\<rparr>)"
    using assms(1) by (intro write_small) (simp_all add: MAX_FRAME_def)
  have "read_frame (length SAVED) recv = Inr (SAVED, recv\<lparr>pending := []\<rparr>)"
    using h \<open>length SAVED = 5\<close> by (intro read_frame_frame) simp_all
  then show "fst (confirm_saved Dialer (Inr (send, recv)) ends) = Inr ()"
    using w h assms by (simp add: confirm_saved_def dialer_stream finish_def open_tx_def read_to_end_def)
qed

section \<open>An instance\<close>

definition example_E :: "bytes primitives" where
  "example_E = example_primitives (\<lambda>_ _. [7])"

definition example_session ::
    "bytes \<Rightarrow> role \<Rightarrow> bytes \<Rightarrow> bytes \<Rightarrow> bytes \<Rightarrow> party \<Rightarrow> party \<Rightarrow>
       (session_error + device_id) \<times> bytes \<times> trust_store \<times> bytes disk" where
  "example_session random r wire wire' bound me you =
     session_exchange example_E (\<lambda>ps. if ps = [peer_of example_E 0 you] then Inr [1] else Inl '''') 0 random (PairingCode ''123456'') r
       (Inr (example_sender, \<lparr>pending = wire, rx_fault = ''''\<rparr>)) (Inr (example_sender, \<lparr>pending = wire', rx_fault = ''''\<rparr>))
       \<lparr>recv_end = None, send_stopped = Inr None\<rparr> InTime bound (DeviceId (party_key you)) me
       ([], \<lparr>content = Missing, mkdir_result = Inr (), write_result = Inr ()\<rparr>)"

definition example_json :: "party \<Rightarrow> bytes \<Rightarrow> string + paired_peer list" where
  "example_json you bs = Inr [peer_of example_E 0 you]"

lemma example_json_laws:
  "json_laws (example_json you) (\<lambda>ps. if ps = [peer_of example_E 0 you] then Inr [1] else Inl '''')"
  by (simp add: json_laws_def example_json_def)

lemma example_saved_alice:
  "example_session [3] Dialer (frame [4] @ frame [2, 7]) (frame SAVED) (example_binding [5] [6]) example_alice example_bob =
     (Inr (DeviceId [2]), encode_header control_header @ frame SAVED, [(DeviceId [2], peer_of example_E 0 example_bob)],
      \<lparr>content = Present [1] default_mode, mkdir_result = Inr (), write_result = Inr ()\<rparr>)"
proof -
  let ?r = "\<lparr>pending = frame SAVED, rx_fault = ''''\<rparr>"
  let ?e = "\<lparr>recv_end = None, send_stopped = Inr None\<rparr>"
  have o: "open_tx example_sender" "sent example_sender = []" by (simp_all add: open_tx_def example_sender_def)
  have c: "fst (confirm_saved Dialer (Inr (example_sender, ?r)) ?e) = Inr ()"
    by (simp add: saved_confirmation [OF o])
  let ?s = "example_sender\<lparr>sent := encode_header control_header\<rparr>"
  have "length SAVED = 5" by (simp add: SAVED_def)
  then have w: "write_frame SAVED ?s = (Inr (), ?s\<lparr>sent := sent ?s @ frame SAVED\<rparr>)"
    using o by (intro write_small) (simp_all add: MAX_FRAME_def)
  have s: "snd (confirm_saved Dialer (Inr (example_sender, ?r)) ?e) = encode_header control_header @ frame SAVED"
    using w o by (simp add: confirm_saved_def dialer_stream finish_def example_sender_def)
  have "confirm_saved Dialer (Inr (example_sender, ?r)) ?e = (Inr (), encode_header control_header @ frame SAVED)"
    using c s by (metis prod.collapse)
  moreover have "device_id (peer_of example_E 0 example_bob) = DeviceId [2]"
    by (simp add: peer_of_def new_peer_def from_public_key_def example_bob_def example_E_def example_primitives_def)
  ultimately show ?thesis
    using example_ends(1)
    by (simp add: example_session_def session_exchange_def trust_insert_def Let_def trust_save_def write_file_def
        bt_values_def example_bob_def example_E_def)
qed

lemma example_saved_bob:
  "example_session [4] Listener (encode_header control_header @ frame [3] @ frame [1, 7])
     (encode_header control_header @ frame SAVED) (example_binding [6] [5]) example_bob example_alice =
     (Inr (DeviceId [1]), frame SAVED, [(DeviceId [1], peer_of example_E 0 example_alice)],
      \<lparr>content = Present [1] default_mode, mkdir_result = Inr (), write_result = Inr ()\<rparr>)"
proof -
  let ?r = "\<lparr>pending = encode_header control_header @ frame SAVED, rx_fault = ''''\<rparr>"
  let ?e = "\<lparr>recv_end = None, send_stopped = Inr None\<rparr>"
  have o: "open_tx example_sender" "sent example_sender = []" by (simp_all add: open_tx_def example_sender_def)
  have "length SAVED = 5" by (simp add: SAVED_def)
  then have w: "write_frame SAVED example_sender = (Inr (), example_sender\<lparr>sent := frame SAVED\<rparr>)"
    using o write_small [of example_sender SAVED] by (simp add: MAX_FRAME_def)
  have "read_frame (length SAVED) (?r\<lparr>pending := frame SAVED\<rparr>) = Inr (SAVED, ?r\<lparr>pending := []\<rparr>)"
    using \<open>length SAVED = 5\<close> read_frame_frame [of SAVED "length SAVED" "?r\<lparr>pending := frame SAVED\<rparr>" "[]"] by simp
  then have "confirm_saved Listener (Inr (example_sender, ?r)) ?e = (Inr (), frame SAVED)"
    using w by (simp add: confirm_saved_def listener_stream [of ?r "frame SAVED"] finish_def read_to_end_def example_sender_def)
  moreover have "device_id (peer_of example_E 0 example_alice) = DeviceId [1]"
    by (simp add: peer_of_def new_peer_def from_public_key_def example_alice_def example_E_def example_primitives_def)
  ultimately show ?thesis
    using example_ends(2)
    by (simp add: example_session_def session_exchange_def trust_insert_def Let_def trust_save_def write_file_def
        bt_values_def example_alice_def example_E_def)
qed

lemma session_exact_witness:
  "trust_load (example_json example_bob) \<lparr>content = Present [1] default_mode, mkdir_result = Inr (), write_result = Inr ()\<rparr> =
     Inr [(DeviceId [2], peer_of example_E 0 example_bob)]"
  using session_exact [OF example_json_laws [of example_bob] store_wf_Nil example_saved_alice [unfolded example_session_def]]
  by auto

lemma session_mutual_witness:
  "trust_get [(DeviceId [1], peer_of example_E 0 example_alice)] (DeviceId [1]) = Some (peer_of example_E 0 example_alice)"
  using session_mutual [OF example_json_laws [of example_alice] store_wf_Nil
      example_saved_alice [unfolded example_session_def] example_saved_bob [unfolded example_session_def]] example_ends(2)
  by (auto simp: example_E_def example_alice_def)

end
