(* ===== verification/Worker_Loop.thy ===== *)
theory Worker_Loop
  imports Startup Pairing_Session Control
begin

text \<open>
  \<open>crates/latticed/src/startup/worker.rs\<close>: a worker looks for its master, pairs once, registers and
  serves until the connection ends, for ever. One turn of its loop is a function of what it meets; the
  effects it has are listed in order. The properties show which master a worker can end up with, that
  it lets a device use its GPU only while that device is its registered master, and that the remembered
  master is always a complete one.
\<close>

section \<open>The remembered master\<close>

record target =
  t_id :: "device_id option"
  t_addrs :: "sock_addr list"
  t_pairing_port :: nat

definition target_valid :: "target \<Rightarrow> bool" where
  "target_valid t \<longleftrightarrow> \<not> (t_id t = None \<or> t_addrs t = [] \<or> t_pairing_port t = 0 \<or>
     list_ex (\<lambda>a. \<not> is_ipv4 (ip a) \<or> port a = 0) (t_addrs t))"

datatype saved_error = SavedUnreadable string | SavedMalformed string | SavedInvalid | SavedUnwritable string

definition read_saved :: "(bytes \<Rightarrow> string + target) \<Rightarrow> bytes stored \<Rightarrow> saved_error + target option" where
  "read_saved from_json d =
     (case d of
        Present bs _ \<Rightarrow>
          rbind (map_err SavedMalformed (from_json bs)) (\<lambda>t.
            if \<not> target_valid t then Inl SavedInvalid else Inr (Some t))
      | Missing \<Rightarrow> Inr None
      | Unreadable e \<Rightarrow> Inl (SavedUnreadable e))"

text \<open>
  The file is written beside the old one and renamed over it. A write that fails may have left any
  part of its bytes in the file beside it; a rename replaces the old file at once or not at all.
\<close>

record saved_files =
  saved_file :: "bytes stored"
  pending_file :: "bytes stored"

definition write_saved ::
    "(target \<Rightarrow> string + bytes) \<Rightarrow> bytes stored \<Rightarrow> string + unit \<Rightarrow> string + unit \<Rightarrow> target \<Rightarrow> saved_files \<Rightarrow>
       (saved_error + unit) \<times> saved_files" where
  "write_saved to_json partial writing renaming t d =
     (case to_json t of
        Inl e \<Rightarrow> (Inl (SavedMalformed e), d)
      | Inr bs \<Rightarrow>
          (case writing of
             Inl e \<Rightarrow> (Inl (SavedUnwritable e), d\<lparr>pending_file := partial\<rparr>)
           | Inr _ \<Rightarrow>
               (let d = d\<lparr>pending_file := Present bs default_mode\<rparr> in
                case renaming of
                  Inl e \<Rightarrow> (Inl (SavedUnwritable e), d)
                | Inr _ \<Rightarrow> (Inr (), d\<lparr>saved_file := pending_file d, pending_file := Missing\<rparr>))))"

section \<open>Choosing a master\<close>

datatype worker_error =
    UnusableAddress
  | BadMaster net_error
  | OwnId
  | BrowseFailed net_error
  | MultipleMasters device_id device_id
  | CouldNotPair worker_error
  | BadCode net_error
  | NoInput string
  | PairingUnreachable locate_error
  | PairingIdentityDiffers
  | SessionFailed session_error
  | NotAccepted response
  | SavingTarget saved_error

record worker_options =
  wo_engine_dir :: "string option"
  wo_require_gpu :: bool
  wo_device :: "string option"
  wo_common :: common_options
  wo_master :: "string option"
  wo_code :: "string option"
  wo_pairing_port :: nat

definition explicit_address :: "(string \<Rightarrow> sock_addr option) \<Rightarrow> string \<Rightarrow> worker_error + sock_addr option" where
  "explicit_address v6 text =
     (let addr = (case parse_sock v6 text of
                    Some a \<Rightarrow> Some a
                  | None \<Rightarrow> map_option (\<lambda>i. \<lparr>ip = i, port = 47900\<rparr>) (parse_v4 text))
      in case addr of
           Some a \<Rightarrow> if \<not> is_ipv4 (ip a) \<or> port a = 0 \<or> is_unspecified (ip a) then Inl UnusableAddress else Inr (Some a)
         | None \<Rightarrow> Inr None)"

function browse_loop :: "unhex \<Rightarrow> device_id \<Rightarrow> service_event list \<Rightarrow> (device_id, discovered_peer) btree \<Rightarrow>
    (device_id, discovered_peer) btree" where
  "browse_loop unhex self_id es peers =
     (case next_event unhex es of
        (Some (Found p), es') \<Rightarrow>
          browse_loop unhex self_id es' (if found_id p \<noteq> self_id then bt_insert (found_id p) p peers else peers)
      | (Some (Lost i), es') \<Rightarrow> browse_loop unhex self_id es' (bt_remove i peers)
      | (None, es') \<Rightarrow> peers)"
  by pat_completeness auto
termination
  by (relation "measure (\<lambda>(_, _, es, _). length es)") (auto dest: next_event_shorter sym)

declare browse_loop.simps [simp del]

definition browse :: "unhex \<Rightarrow> net_error + unit \<Rightarrow> device_id \<Rightarrow> service_event list \<Rightarrow> worker_error + discovered_peer list" where
  "browse unhex started self_id es =
     rbind (map_err BrowseFailed started) (\<lambda>_. Inr (bt_values (browse_loop unhex self_id es [])))"

definition candidate :: "device_id option \<Rightarrow> discovered_peer \<Rightarrow> bool" where
  "candidate wanted p \<longleftrightarrow>
     found_role p = Some ''master'' \<and> found_protocol p = PROTOCOL_VERSION \<and>
     matches wanted (found_id p) \<and> list_ex (\<lambda>a. is_ipv4 (ip a)) (found_addrs p)"

definition select_master :: "discovered_peer list \<Rightarrow> device_id option \<Rightarrow> worker_error + discovered_peer option" where
  "select_master peers wanted =
     (case filter (candidate wanted) peers of
        [] \<Rightarrow> Inr None
      | [first] \<Rightarrow> Inr (Some first)
      | first # second # _ \<Rightarrow> Inl (MultipleMasters (found_id first) (found_id second)))"

definition find_target ::
    "(string \<Rightarrow> sock_addr option) \<Rightarrow> unhex \<Rightarrow> net_error + unit \<Rightarrow> service_event list \<Rightarrow> worker_options \<Rightarrow> target option \<Rightarrow>
       device_id \<Rightarrow> worker_error + target option" where
  "find_target v6 unhex started es options saved self_id =
     (let search = (\<lambda>requested.
          if requested = Some self_id then Inl OwnId
          else rbind (browse unhex started self_id es) (\<lambda>peers.
               rbind (select_master peers requested) (\<lambda>found.
                 case found of
                   Some peer \<Rightarrow>
                     Inr (Some \<lparr>t_id = Some (found_id peer), t_addrs = usable (found_addrs peer),
                       t_pairing_port = (case found_pairing_port peer of Some p \<Rightarrow> p | None \<Rightarrow> wo_pairing_port options)\<rparr>)
                 | None \<Rightarrow> Inr (case saved of Some t \<Rightarrow> if t_id t = requested then Some t else None | None \<Rightarrow> None))))
      in case wo_master options of
           Some text \<Rightarrow>
             rbind (explicit_address v6 text) (\<lambda>explicit.
               case explicit of
                 Some addr \<Rightarrow>
                   Inr (Some \<lparr>t_id = (case saved of Some t \<Rightarrow> if addr \<in> set (t_addrs t) then t_id t else None | None \<Rightarrow> None),
                     t_addrs = [addr], t_pairing_port = wo_pairing_port options\<rparr>)
               | None \<Rightarrow> rbind (map_err BadMaster (parse_id unhex text)) (\<lambda>i. search (Some i)))
         | None \<Rightarrow> search (case saved of Some t \<Rightarrow> t_id t | None \<Rightarrow> None))"

section \<open>One turn of the loop\<close>

text \<open>
  What a turn meets: the events of its browse, the answers to its dials, what is typed, how a pairing
  session with the device at the other end goes, and how the master answers the registration.
\<close>

datatype registration = Replied response | RequestFailed net_error | RegistrationTimedOut

record turn_world =
  tw_started :: "net_error + unit"
  tw_events :: "service_event list"
  tw_trusts :: "device_id \<Rightarrow> bool"
  tw_dial :: "sock_addr \<Rightarrow> net_error + device_id"
  tw_pair_bind :: "sock_addr \<Rightarrow> net_error + unit"
  tw_pair_dial :: "sock_addr \<Rightarrow> net_error + device_id"
  tw_typed :: "string + string"
  tw_session :: "pairing_code \<Rightarrow> device_id \<Rightarrow> session_error + device_id"
  tw_redial :: "sock_addr \<Rightarrow> net_error + device_id"
  tw_register :: registration
  tw_save :: "saved_error + unit"

text \<open>\<open>t_addrs\<close> is indexed at 0 for a message: \<open>None\<close> would be that panic.\<close>

definition pair :: "turn_world \<Rightarrow> target \<Rightarrow> pairing_code option \<Rightarrow> (worker_error + target) option" where
  "pair w t code =
     (if t_addrs t = [] then None
      else Some
        (rbind (case code of Some c \<Rightarrow> Inr c
                | None \<Rightarrow> rbind (map_err NoInput (tw_typed w)) (\<lambda>s. map_err BadCode (code_parse s))) (\<lambda>code.
         rbind (map_err PairingUnreachable (connect_any (tw_pair_bind w) (tw_pair_dial w)
                 (map (\<lambda>a. \<lparr>ip = ip a, port = t_pairing_port t\<rparr>) (t_addrs t)))) (\<lambda>remote.
           if \<not> matches (t_id t) remote then Inl PairingIdentityDiffers
           else rbind (map_err SessionFailed (tw_session w code remote)) (\<lambda>i. Inr (t\<lparr>t_id := Some i\<rparr>))))))"

datatype notice =
    NoMaster
  | MasterUnavailable "(sock_addr \<times> refusal) list"
  | PairingSaved "(sock_addr \<times> refusal) list"
  | Retrying string

datatype effect =
    Said string
  | Serving device_id
  | Closing device_id
  | Ended device_id
  | Authorizing "device_id option"
  | Saving target

record worker_state =
  ws_saved :: "target option"
  ws_code :: "pairing_code option"
  ws_error :: string

definition report_once :: "string \<Rightarrow> string \<Rightarrow> effect list \<times> string" where
  "report_once previous message = (if previous \<noteq> message then ([Said message], message) else ([], previous))"

text \<open>How a turn ends: the loop goes on, stops with an error, or panics.\<close>

datatype turn_end = Again worker_state | Stop worker_error | TurnPanic

definition again :: "(notice \<Rightarrow> string) \<Rightarrow> notice \<Rightarrow> worker_state \<Rightarrow> effect list \<times> turn_end" where
  "again text n st = (case report_once (ws_error st) (text n) of (es, m) \<Rightarrow> (es, Again (st\<lparr>ws_error := m\<rparr>)))"

definition retry_of :: "(net_error \<Rightarrow> string) \<Rightarrow> registration \<Rightarrow> (response + string) option" where
  "retry_of show_error r =
     (case r of
        Replied WorkerRegistered \<Rightarrow> None
      | Replied (Refused why) \<Rightarrow> Some (if why = MASTER_BUSY then Inr why else Inl (Refused why))
      | RequestFailed e \<Rightarrow> Some (Inr (''Master disconnected during registration: '' @ show_error e))
      | RegistrationTimedOut \<Rightarrow> Some (Inr ''Master registration timed out'')
      | Replied other \<Rightarrow> Some (Inl other))"

definition connected ::
    "(notice \<Rightarrow> string) \<Rightarrow> (net_error \<Rightarrow> string) \<Rightarrow> turn_world \<Rightarrow> device_id \<Rightarrow> target \<Rightarrow> worker_state \<Rightarrow> effect list \<times> turn_end" where
  "connected text show_error w remote t st =
     (case retry_of show_error (tw_register w) of
        Some (Inl other) \<Rightarrow> ([Serving remote, Closing remote], Stop (NotAccepted other))
      | Some (Inr reason) \<Rightarrow>
          (case again text (Retrying reason) (st\<lparr>ws_saved := Some (t\<lparr>t_id := Some remote\<rparr>)\<rparr>) of
             (es, e) \<Rightarrow> ([Serving remote, Closing remote] @ es, e))
      | None \<Rightarrow>
          (let t = t\<lparr>t_id := Some remote\<rparr> in
           case tw_save w of
             Inl e \<Rightarrow> ([Serving remote, Authorizing (Some remote)], Stop (SavingTarget e))
           | Inr _ \<Rightarrow> ([Serving remote, Authorizing (Some remote), Saving t, Ended remote, Authorizing None],
                      Again (st\<lparr>ws_saved := Some t, ws_error := []\<rparr>))))"

definition turn ::
    "(string \<Rightarrow> sock_addr option) \<Rightarrow> unhex \<Rightarrow> (notice \<Rightarrow> string) \<Rightarrow> (net_error \<Rightarrow> string) \<Rightarrow> worker_options \<Rightarrow> device_id \<Rightarrow>
       turn_world \<Rightarrow> worker_state \<Rightarrow> effect list \<times> turn_end" where
  "turn v6 unhex text show_error options self_id w st =
     (case find_target v6 unhex (tw_started w) (tw_events w) options (ws_saved st) self_id of
        Inl e \<Rightarrow> ([], Stop e)
      | Inr None \<Rightarrow> again text NoMaster st
      | Inr (Some t) \<Rightarrow>
          (let trusted = (case t_id t of Some i \<Rightarrow> tw_trusts w i | None \<Rightarrow> False);
               connection = (if ws_code st = None then map_err Some (service_connect (tw_dial w) (t_addrs t) (t_id t)) else Inl None)
           in case connection of
                Inr remote \<Rightarrow> connected text show_error w remote t st
              | Inl failures \<Rightarrow>
                  if trusted \<and> ws_code st = None then again text (MasterUnavailable (the failures)) st
                  else
                    (case pair w t (ws_code st) of
                       None \<Rightarrow> ([], TurnPanic)
                     | Some (Inl e) \<Rightarrow> ([], Stop (CouldNotPair e))
                     | Some (Inr t) \<Rightarrow>
                         (let st = st\<lparr>ws_code := None, ws_saved := Some t\<rparr> in
                          case service_connect (tw_redial w) (t_addrs t) (t_id t) of
                            Inr remote \<Rightarrow> connected text show_error w remote t st
                          | Inl failures \<Rightarrow> again text (PairingSaved failures) st))))"



section \<open>Starting\<close>

text \<open>What the machine says of its engine: the environment, the files, what the GPU helper of an engine
  directory lists, and whether a directory could be created.\<close>

record gpu_host =
  gh_env_dir :: "string option"
  gh_home :: "string option"
  gh_text :: "string \<Rightarrow> string option"
  gh_is_file :: "string \<Rightarrow> bool"
  gh_devices :: "string \<Rightarrow> string + gpu_device list"
  gh_mkdir :: "string \<Rightarrow> string + unit"
  gh_refusal :: "select_error \<Rightarrow> string"

definition worker_gpu :: "gpu_host \<Rightarrow> worker_options \<Rightarrow> string \<Rightarrow> string + worker \<times> runtime" where
  "worker_gpu h options dir =
     rbind (Runtime.locate (wo_engine_dir options) (gh_env_dir h) (gh_home h) (gh_text h) (gh_is_file h)) (\<lambda>eng.
     rbind (rbind (gh_devices h eng) (\<lambda>ds. map_err (gh_refusal h) (select_device ds (wo_device options)))) (\<lambda>d.
     runtime_new (gh_mkdir h) eng d dir))"

text \<open>
  \<open>gpu\<close> is what finding the engine, listing its devices and selecting one came to. A worker that was
  told to use a GPU, or which engine or device, does not start without; any other serves the network
  only. The result is the state the loop starts in, the service, and the runtime if there is one.
\<close>

datatype setup_error =
    BadSuppliedCode net_error
  | SavedMaster saved_error
  | ServiceNotStarted start_error
  | NoRuntime string

definition worker_setup ::
    "(bytes \<Rightarrow> string + target) \<Rightarrow> bytes stored \<Rightarrow> (nat option \<Rightarrow> start_error + 's) \<Rightarrow> string + 'r \<Rightarrow> worker_options \<Rightarrow>
       setup_error + worker_state \<times> 's \<times> 'r option" where
  "worker_setup from_json file start gpu options =
     rbind (case wo_code options of
              None \<Rightarrow> Inr None
            | Some s \<Rightarrow> map_err BadSuppliedCode (rbind (code_parse s) (\<lambda>c. Inr (Some c)))) (\<lambda>code.
     rbind (map_err SavedMaster (read_saved from_json file)) (\<lambda>saved.
     rbind (map_err ServiceNotStarted (start None)) (\<lambda>service.
     let st = \<lparr>ws_saved = saved, ws_code = code, ws_error = []\<rparr> in
     case gpu of
       Inr r \<Rightarrow> Inr (st, service, Some r)
     | Inl e \<Rightarrow>
         if wo_require_gpu options \<or> wo_engine_dir options \<noteq> None \<or> wo_device options \<noteq> None then Inl (NoRuntime e)
         else Inr (st, service, None))))"

section \<open>Lemmas\<close>

interpretation masters: browsing unhex "browse_loop unhex i" "keep_step (\<lambda>p. found_id p \<noteq> i) (\<lambda>p. p)" "\<lambda>s. s" for unhex i
  by unfold_locales (subst browse_loop.simps, simp add: keep_step_def split: prod.split option.split peer_event.split)

text \<open>A master that is there at the end of the window, among those acceptable as \<open>wanted\<close>.\<close>

definition master_there :: "device_id \<Rightarrow> device_id option \<Rightarrow> peer_event list \<Rightarrow> discovered_peer \<Rightarrow> bool" where
  "master_there self wanted vs p \<longleftrightarrow> live_at (\<lambda>p. found_id p \<noteq> self) vs (found_id p) = Some p \<and> candidate wanted p"

lemma browse_loop_entries:
  "(i, p) \<in> set (browse_loop unhex self es []) \<longleftrightarrow> live_at (\<lambda>p. found_id p \<noteq> self) (window unhex es) i = Some p"
  using kept [of "\<lambda>p. found_id p \<noteq> self" "\<lambda>p. p" "window unhex es" i]
  by (simp add: masters.over_window option.map_ident bt_get_iff [symmetric])

lemma browse_loop_id: "(i, p) \<in> set (browse_loop unhex self es []) \<Longrightarrow> found_id p = i"
  unfolding browse_loop_entries by (metis live_at_Some)

lemma browsed_candidates:
  "set (filter (candidate wanted) (bt_values (browse_loop unhex self es []))) =
     {p. master_there self wanted (window unhex es) p}"
proof (rule set_eqI)
  fix p
  have "p \<in> snd ` set (browse_loop unhex self es []) \<longleftrightarrow> (found_id p, p) \<in> set (browse_loop unhex self es [])"
    (is "_ \<longleftrightarrow> (_, p) \<in> ?M")
  proof
    assume "p \<in> snd ` ?M"
    then obtain i where "(i, p) \<in> ?M" by auto
    then show "(found_id p, p) \<in> ?M" using browse_loop_id [of i p] by simp
  qed (rule image_eqI [of _ _ "(found_id p, p)"], simp_all)
  then show "p \<in> set (filter (candidate wanted) (bt_values (browse_loop unhex self es []))) \<longleftrightarrow>
      p \<in> {p. master_there self wanted (window unhex es) p}"
    by (simp add: master_there_def bt_values_def browse_loop_entries [symmetric] conj_commute)
qed

lemma browsed_distinct: "distinct (map found_id (filter P (bt_values (browse_loop unhex self es []))))"
proof -
  let ?m = "browse_loop unhex self es []"
  have "map found_id (bt_values ?m) = map fst ?m"
    by (auto simp: bt_values_def browse_loop_id)
  moreover have "bt_wf ?m" using kept masters.over_window by metis
  ultimately show ?thesis
    using bt_wf_distinct [of ?m] by (metis distinct_map_filter)
qed

definition dialable :: "target option \<Rightarrow> bool" where
  "dialable s \<longleftrightarrow> (case s of None \<Rightarrow> True | Some t \<Rightarrow> t_addrs t \<noteq> [] \<and> list_all (\<lambda>a. is_ipv4 (ip a)) (t_addrs t))"

lemma target_valid_dialable: "target_valid t \<Longrightarrow> dialable (Some t)"
  by (auto simp: target_valid_def dialable_def list_ex_iff list_all_iff)

lemma read_saved_dialable: "read_saved from_json file = Inr saved \<Longrightarrow> dialable saved"
  by (auto simp: read_saved_def rbind_eq_Inr target_valid_dialable split: stored.splits if_splits) (simp add: dialable_def)

lemma setup_dialable:
  assumes "worker_setup from_json file start gpu options = Inr (st, service, r)"
  shows "dialable (ws_saved st)"
proof -
  from assms have "read_saved from_json file = Inr (ws_saved st)"
    by (cases gpu) (auto simp: worker_setup_def rbind_eq_Inr map_err_eq_Inr Let_def split: if_splits)
  then show ?thesis by (rule read_saved_dialable)
qed

text \<open>A runtime is for a GPU the machine has, and, when one was named, for that one; it starts without a master.\<close>

lemma worker_gpu_selected:
  assumes "worker_gpu h options dir = Inr (k, r)"
  shows "is_gpu (own_device k) \<and> (\<forall>n. wo_device options = Some n \<longrightarrow> gpu_name (own_device k) = n) \<and> r = new_runtime \<and>
    (\<exists>ds. gh_devices h (engine_dir k) = Inr ds \<and> own_device k \<in> set ds) \<and> worker_dir k = dir"
proof -
  from assms obtain ds d where ds: "gh_devices h (engine_dir k) = Inr ds" and d: "select_device ds (wo_device options) = Inr d"
    and k: "k = \<lparr>engine_dir = engine_dir k, own_device = d, worker_dir = dir\<rparr>" and r: "r = new_runtime"
    by (auto simp: worker_gpu_def runtime_new_def Let_def result_simps)
  have "own_device k = d" "worker_dir k = dir" by (subst k, simp)+
  moreover have "gpu_name d = n" if "wo_device options = Some n" for n
    using d that by (auto simp: select_device_def ok_or_def find_Some_iff split: option.splits)
  ultimately show ?thesis using ds r select_device_Inr [OF d] by simp
qed

lemma usable_ipv4: "list_all (\<lambda>a. is_ipv4 (ip a)) (usable addrs)"
  by (simp add: usable_def list_all_iff)

lemma usable_nonempty: "list_ex (\<lambda>a. is_ipv4 (ip a)) addrs \<Longrightarrow> usable addrs \<noteq> []"
  by (auto simp: usable_def list_ex_iff sort_key_bool filter_empty_conv)

lemma select_master_Some:
  assumes "select_master peers wanted = Inr (Some p)"
  shows "p \<in> set peers \<and> candidate wanted p \<and> filter (candidate wanted) peers = [p]"
proof -
  from assms have f: "filter (candidate wanted) peers = [p]"
    by (auto simp: select_master_def split: list.splits)
  have "p \<in> set (filter (candidate wanted) peers)" unfolding f by simp
  then have "p \<in> set peers \<and> candidate wanted p" by simp
  with f show ?thesis by simp
qed

text \<open>The three ways to a target: an address given, a record seen, the remembered master.\<close>

lemma find_target_Some:
  assumes "find_target v6 unhex started es options saved self_id = Inr (Some t)"
  obtains (given) s addr where "wo_master options = Some s" "explicit_address v6 s = Inr (Some addr)"
      "t_addrs t = [addr]" "t_id t = (case saved of Some s \<Rightarrow> if addr \<in> set (t_addrs s) then t_id s else None | None \<Rightarrow> None)"
  | (seen) wanted p where "wanted \<noteq> Some self_id" "candidate wanted p" "t_id t = Some (found_id p)" "t_addrs t = usable (found_addrs p)"
      "case wo_master options of None \<Rightarrow> wanted = (case saved of Some s \<Rightarrow> t_id s | None \<Rightarrow> None)
       | Some text \<Rightarrow> \<exists>i. parse_id unhex text = Inr i \<and> wanted = Some i"
  | (remembered) wanted where "wanted \<noteq> Some self_id" "saved = Some t" "t_id t = wanted"
      "case wo_master options of None \<Rightarrow> True | Some text \<Rightarrow> \<exists>i. parse_id unhex text = Inr i \<and> wanted = Some i"
proof -
  have search: thesis
    if w: "wanted \<noteq> Some self_id" "select_master peers wanted = Inr found"
      "(case found of
          Some peer \<Rightarrow> Inr (Some \<lparr>t_id = Some (found_id peer), t_addrs = usable (found_addrs peer),
            t_pairing_port = (case found_pairing_port peer of Some p \<Rightarrow> p | None \<Rightarrow> wo_pairing_port options)\<rparr>)
        | None \<Rightarrow> Inr (case saved of Some t \<Rightarrow> if t_id t = wanted then Some t else None | None \<Rightarrow> None)) =
        (Inr (Some t) :: worker_error + target option)"
      "case wo_master options of None \<Rightarrow> wanted = (case saved of Some s \<Rightarrow> t_id s | None \<Rightarrow> None)
       | Some text \<Rightarrow> \<exists>i. parse_id unhex text = Inr i \<and> wanted = Some i" for wanted peers found
  proof (cases found)
    case None
    with w show thesis by (intro remembered [of wanted]) (auto split: option.splits if_splits)
  next
    case (Some p)
    with w select_master_Some [of peers wanted p] show thesis by (intro seen [of wanted p]) auto
  qed
  show thesis
  proof (cases "wo_master options")
    case None
    with assms show thesis
      by (auto simp: find_target_def Let_def rbind_eq_Inr map_err_eq_Inr split: if_splits intro: search)
  next
    case (Some s)
    show thesis
    proof (cases "explicit_address v6 s")
      case (Inr explicit)
      with Some assms show thesis
        by (cases explicit)
          (auto simp: find_target_def Let_def rbind_eq_Inr map_err_eq_Inr split: if_splits intro: search given)
    qed (use Some assms in \<open>auto simp: find_target_def Let_def\<close>)
  qed
qed

lemma explicit_ipv4: "explicit_address v6 s = Inr (Some a) \<Longrightarrow> is_ipv4 (ip a) \<and> port a \<noteq> 0 \<and> \<not> is_unspecified (ip a)"
  by (auto simp: explicit_address_def Let_def split: option.splits if_splits)

lemma find_target_dialable:
  assumes "find_target v6 unhex started es options saved self_id = Inr (Some t)" and "dialable saved"
  shows "dialable (Some t)"
  using assms(1)
proof (cases rule: find_target_Some)
  case (given s a)
  then show ?thesis by (simp add: dialable_def explicit_ipv4)
next
  case (seen wanted p)
  then show ?thesis by (simp add: dialable_def candidate_def usable_ipv4 usable_nonempty)
next
  case (remembered wanted)
  with assms(2) show ?thesis by simp
qed

lemma pair_Inr:
  assumes "pair w t code = Some (Inr t')"
  obtains c remote i where "matches (t_id t) remote" "tw_session w c remote = Inr i" "t' = t\<lparr>t_id := Some i\<rparr>"
  using assms by (auto simp: pair_def rbind_eq_Inr map_err_eq_Inr split: if_splits)

definition turn_target ::
    "(string \<Rightarrow> sock_addr option) \<Rightarrow> unhex \<Rightarrow> worker_options \<Rightarrow> device_id \<Rightarrow> turn_world \<Rightarrow> worker_state \<Rightarrow> worker_error + target option" where
  "turn_target v6 unhex options self_id w st =
     find_target v6 unhex (tw_started w) (tw_events w) options (ws_saved st) self_id"

lemma turn_outcomes:
  assumes "turn v6 unhex say show_error options self_id w st = (es, e)"
  obtains (stopped) er where "es = []" "e = Stop er"
  | (panicked) t where "turn_target v6 unhex options self_id w st = Inr (Some t)" "t_addrs t = []" "es = []" "e = TurnPanic"
  | (waiting) n st' where "(es, e) = again say n st'"
      "ws_saved st' = ws_saved st \<or> (\<exists>t t'. turn_target v6 unhex options self_id w st = Inr (Some t) \<and>
         pair w t (ws_code st) = Some (Inr t') \<and> ws_saved st' = Some t')"
  | (met) t t' r st' where "turn_target v6 unhex options self_id w st = Inr (Some t)"
      "t' = t \<or> pair w t (ws_code st) = Some (Inr t')" "matches (t_id t') r" "(es, e) = connected say show_error w r t' st'"
proof (cases "turn_target v6 unhex options self_id w st")
  case (Inl er)
  with assms show thesis by (auto simp: turn_def turn_target_def intro: stopped)
next
  case (Inr found)
  show thesis
  proof (cases found)
    case None
    with Inr assms show thesis by (intro waiting [of NoMaster st]) (auto simp: turn_def turn_target_def)
  next
    case (Some t)
    note t = Inr [unfolded Some]
    let ?conn = "if ws_code st = None then map_err Some (service_connect (tw_dial w) (t_addrs t) (t_id t)) else Inl None"
    show thesis
    proof (cases ?conn)
      case (Inr r)
      then have "service_connect (tw_dial w) (t_addrs t) (t_id t) = Inr r" by (auto simp: map_err_eq_Inr split: if_splits)
      then have "matches (t_id t) r" by (rule service_connect_Inr)
      moreover have "(es, e) = connected say show_error w r t st"
        using assms t Inr by (simp add: turn_def turn_target_def Let_def)
      ultimately show thesis using t by (intro met [of t t r st]) auto
    next
      case (Inl failures)
      show thesis
      proof (cases "(case t_id t of Some i \<Rightarrow> tw_trusts w i | None \<Rightarrow> False) \<and> ws_code st = None")
        case True
        then have "(es, e) = again say (MasterUnavailable (the failures)) st"
          using assms t Inl by (simp add: turn_def turn_target_def Let_def)
        then show thesis by (rule waiting) simp
      next
        case False
        note skip = this
        have paired: "(es, e) = (case pair w t (ws_code st) of
                       None \<Rightarrow> ([], TurnPanic)
                     | Some (Inl e) \<Rightarrow> ([], Stop (CouldNotPair e))
                     | Some (Inr t) \<Rightarrow>
                         (let st = st\<lparr>ws_code := None, ws_saved := Some t\<rparr> in
                          case service_connect (tw_redial w) (t_addrs t) (t_id t) of
                            Inr remote \<Rightarrow> connected say show_error w remote t st
                          | Inl failures \<Rightarrow> again say (PairingSaved failures) st))"
          using assms [unfolded turn_def Let_def t [unfolded turn_target_def] sum.case option.case Inl if_not_P [OF skip]]
          unfolding Let_def by (rule sym)
        show thesis
        proof (cases "pair w t (ws_code st)")
          case None
          then have "t_addrs t = []" by (simp add: pair_def split: if_splits)
          with t None paired show thesis by (intro panicked [of t]) auto
        next
          case (Some res)
          show thesis
          proof (cases res)
            case (Inl er)
            with Some paired show thesis by (intro stopped [of "CouldNotPair er"]) auto
          next
            case (Inr t')
            let ?st = "st\<lparr>ws_code := None, ws_saved := Some t'\<rparr>"
            show thesis
            proof (cases "service_connect (tw_redial w) (t_addrs t') (t_id t')")
              case (Inl fs)
              with Some Inr paired t show thesis by (intro waiting [of "PairingSaved fs" ?st]) auto
            next
              case r: (Inr r)
              then have "matches (t_id t') r" by (rule service_connect_Inr)
              with Some Inr r paired t show thesis by (intro met [of t t' r ?st]) auto
            qed
          qed
        qed
      qed
    qed
  qed
qed

lemma again_result: "(es, e) = again say n st \<Longrightarrow>
    list_all (\<lambda>x. \<exists>m. x = Said m) es \<and> (\<exists>m. e = Again (st\<lparr>ws_error := m\<rparr>))"
  by (auto simp: again_def report_once_def split: if_splits)

text \<open>What happens with a connection: the registration decides.\<close>

lemma connected_result:
  assumes "(es, e) = connected say show_error w r t st"
  obtains (served) "tw_register w = Replied WorkerRegistered"
      "es = [Serving r, Authorizing (Some r), Saving (t\<lparr>t_id := Some r\<rparr>), Ended r, Authorizing None]"
      "e = Again (st\<lparr>ws_saved := Some (t\<lparr>t_id := Some r\<rparr>), ws_error := []\<rparr>)"
  | (unsaved) er where "tw_register w = Replied WorkerRegistered" "es = [Serving r, Authorizing (Some r)]" "e = Stop er"
  | (closed) rest where "es = [Serving r, Closing r] @ rest" "list_all (\<lambda>x. \<exists>m. x = Said m) rest"
      "(\<exists>m. e = Again (st\<lparr>ws_saved := Some (t\<lparr>t_id := Some r\<rparr>), ws_error := m\<rparr>)) \<or> (\<exists>er. e = Stop er)"
proof (cases "retry_of show_error (tw_register w)")
  case None
  then have "tw_register w = Replied WorkerRegistered"
    by (auto simp: retry_of_def split: registration.splits response.splits if_splits)
  with None assms show thesis
    by (cases "tw_save w") (auto simp: connected_def Let_def intro: served unsaved)
next
  case (Some q)
  show thesis
  proof (cases q)
    case (Inl other)
    with Some assms show thesis by (intro closed [of "[]"]) (auto simp: connected_def)
  next
    case (Inr reason)
    obtain rs e' where a: "again say (Retrying reason) (st\<lparr>ws_saved := Some (t\<lparr>t_id := Some r\<rparr>)\<rparr>) = (rs, e')" by fastforce
    from again_result [OF a [symmetric]] Some Inr a assms show thesis
      by (intro closed [of rs]) (auto simp: connected_def)
  qed
qed













lemma turn_devices:
  assumes "turn v6 unhex say show_error options self_id w st = (es, e)"
    and "Serving i \<in> set es \<or> Authorizing (Some i) \<in> set es"
  obtains t t' where "turn_target v6 unhex options self_id w st = Inr (Some t)"
    "t' = t \<or> pair w t (ws_code st) = Some (Inr t')" "matches (t_id t') i"
    "Authorizing (Some i) \<in> set es \<Longrightarrow> tw_register w = Replied WorkerRegistered"
  using assms(1)
proof (cases rule: turn_outcomes)
  case (waiting n st')
  with again_result [OF waiting(1)] assms(2) show thesis by (auto simp: list_all_iff)
next
  case (met t t' r st')
  from met(4) have "r = i \<and> (Authorizing (Some i) \<in> set es \<longrightarrow> tw_register w = Replied WorkerRegistered)"
    by (rule connected_result) (use assms(2) in \<open>auto simp: list_all_iff\<close>)
  with met that show thesis by blast
qed (use assms(2) in simp_all)

lemma turn_saved:
  assumes "turn v6 unhex say show_error options self_id w st = (es, Again st')"
  obtains (kept) "ws_saved st' = ws_saved st"
  | (paired) t t' where "turn_target v6 unhex options self_id w st = Inr (Some t)"
      "t' = t \<or> pair w t (ws_code st) = Some (Inr t')" "ws_saved st' = Some t'"
  | (registered) t t' r where "turn_target v6 unhex options self_id w st = Inr (Some t)"
      "t' = t \<or> pair w t (ws_code st) = Some (Inr t')" "matches (t_id t') r" "ws_saved st' = Some (t'\<lparr>t_id := Some r\<rparr>)"
  using assms
proof (cases rule: turn_outcomes)
  case (waiting n s)
  from again_result [OF waiting(1)] have "ws_saved st' = ws_saved s" by auto
  from waiting(2) show thesis
  proof
    assume "\<exists>t t'. turn_target v6 unhex options self_id w st = Inr (Some t) \<and>
      pair w t (ws_code st) = Some (Inr t') \<and> ws_saved s = Some t'"
    then obtain t t' where "turn_target v6 unhex options self_id w st = Inr (Some t)" "pair w t (ws_code st) = Some (Inr t')"
      "ws_saved s = Some t'" by blast
    with \<open>ws_saved st' = ws_saved s\<close> show thesis by (intro paired [of t t']) simp_all
  qed (use \<open>ws_saved st' = ws_saved s\<close> in \<open>simp add: kept\<close>)
next
  case (met t t' r s)
  from met(4) have "ws_saved st' = Some (t'\<lparr>t_id := Some r\<rparr>)"
    by (rule connected_result) auto
  with met show thesis by (intro registered [of t t' r]) simp_all
qed simp_all



section \<open>Properties\<close>


text \<open>A turn that authorises a device was told by that device that it is its master. The answer to
  the registration accepted it, and the device is the one the turn had chosen, if it had chosen one.\<close>

theorem worker_registers:
  assumes "turn v6 unhex say show_error options self_id w st = (es, e)" and "Authorizing (Some i) \<in> set es"
  shows "tw_register w = Replied WorkerRegistered \<and>
    (\<exists>t t'. turn_target v6 unhex options self_id w st = Inr (Some t) \<and>
       (t' = t \<or> pair w t (ws_code st) = Some (Inr t')) \<and> matches (t_id t') i)"
  using turn_devices [OF assms(1), of i] assms(2) by metis


text \<open>C40: The worker's own messages cannot make it panic, and what it remembers stays usable. Starting
  from a remembered master with addresses to dial, or none, no turn indexes an empty list of
  addresses, and every turn again leaves one with addresses to dial, all of them IPv4, or none.\<close>

theorem worker_no_panic:
  assumes "turn v6 unhex say show_error options self_id w st = (es, e)" and "dialable (ws_saved st)"
  shows "e \<noteq> TurnPanic \<and> (case e of Again st' \<Rightarrow> dialable (ws_saved st') | _ \<Rightarrow> True)"
proof -
  have d: "dialable (Some t)" if "turn_target v6 unhex options self_id w st = Inr (Some t)" for t
    using find_target_dialable that assms(2) unfolding turn_target_def by blast
  have d': "dialable (Some t')" if "turn_target v6 unhex options self_id w st = Inr (Some t)"
    "t' = t \<or> pair w t (ws_code st) = Some (Inr t')" for t t'
    using that(2) d [OF that(1)] by (auto elim!: pair_Inr simp: dialable_def)
  have "e \<noteq> TurnPanic"
    using assms(1)
  proof (cases rule: turn_outcomes)
    case (panicked t)
    with d [OF panicked(1)] show ?thesis by (simp add: dialable_def)
  next
    case (waiting n st')
    with again_result [OF waiting(1)] show ?thesis by auto
  next
    case (met t t' r st')
    from met(4) show ?thesis by (rule connected_result) auto
  qed simp
  moreover have "dialable (ws_saved st')" if "e = Again st'" for st'
    using assms(1) [unfolded that]
    by (cases rule: turn_saved) (use assms(2) d' in \<open>auto simp: dialable_def\<close>)
  ultimately show ?thesis by (auto split: turn_end.split)
qed

text \<open>The remembered master survives. Saving replaces the file at once: after an error the old file
  is as it was, and after a success the next start reads exactly the target that was saved.\<close>

theorem saved_survives:
  assumes "\<forall>t bs. to_json t = Inr bs \<longrightarrow> from_json bs = Inr t"
  shows "case write_saved to_json partial writing renaming t d of
      (Inl _, d') \<Rightarrow> saved_file d' = saved_file d
    | (Inr _, d') \<Rightarrow> read_saved from_json (saved_file d') = (if target_valid t then Inr (Some t) else Inl SavedInvalid)"
  using assms by (auto simp: write_saved_def read_saved_def Let_def split: sum.split)

text \<open>C34: A worker never guesses its master. When it searches for one, on its first start or after a device
  it was told of, it takes the device that is announced at the end of the window as a master that fits,
  if it is the only one; if there are several it stops with an error that names two of them; and if
  there is none it falls back on what it remembers of the very master it searched for, or on nothing.\<close>

theorem master_unambiguous:
  assumes "wo_master options = None" and "requested = (case saved of Some t \<Rightarrow> t_id t | None \<Rightarrow> None)" and "requested \<noteq> Some self"
  shows "case find_target v6 unhex (Inr ()) es options saved self of
      Inl e \<Rightarrow> \<exists>p q. e = MultipleMasters (found_id p) (found_id q) \<and> found_id p \<noteq> found_id q \<and>
        master_there self requested (window unhex es) p \<and> master_there self requested (window unhex es) q
    | Inr None \<Rightarrow> saved = None \<and> (\<nexists>p. master_there self requested (window unhex es) p)
    | Inr (Some t) \<Rightarrow>
        (\<exists>p. {q. master_there self requested (window unhex es) q} = {p} \<and> t_id t = Some (found_id p) \<and> t_addrs t = usable (found_addrs p)) \<or>
        (\<nexists>p. master_there self requested (window unhex es) p) \<and> saved = Some t"
proof -
  let ?found = "filter (candidate requested) (bt_values (browse_loop unhex self es []))"
  note f = browsed_candidates [of requested unhex self es]
  have t: "find_target v6 unhex (Inr ()) es options saved self =
     rbind (select_master (bt_values (browse_loop unhex self es [])) requested) (\<lambda>found.
       case found of
         Some peer \<Rightarrow>
           Inr (Some \<lparr>t_id = Some (found_id peer), t_addrs = usable (found_addrs peer),
             t_pairing_port = (case found_pairing_port peer of Some p \<Rightarrow> p | None \<Rightarrow> wo_pairing_port options)\<rparr>)
       | None \<Rightarrow> Inr saved)"
    using assms by (cases saved) (auto simp: find_target_def Let_def browse_def map_err_def)
  show ?thesis
  proof (cases ?found rule: list.exhaust)
    case Nil
    with f(1) show ?thesis unfolding t by (simp add: select_master_def split: option.split)
  next
    case (Cons p ps)
    show ?thesis
    proof (cases ps)
      case Nil
      with Cons f(1) show ?thesis unfolding t by (auto simp: select_master_def)
    next
      case (Cons q qs)
      with \<open>?found = p # ps\<close> have pq: "?found = p # q # qs" by simp
      then have "found_id p \<noteq> found_id q"
        using browsed_distinct [of "candidate requested" unhex self es] by simp
      moreover have "master_there self requested (window unhex es) p" "master_there self requested (window unhex es) q"
        using f unfolding pq by auto
      moreover have "find_target v6 unhex (Inr ()) es options saved self = Inl (MultipleMasters (found_id p) (found_id q))"
        unfolding t by (simp add: select_master_def pq)
      ultimately show ?thesis by auto
    qed
  qed
qed

section \<open>An instance\<close>

lemma master_unambiguous_witness:
  "\<exists>t. find_target (\<lambda>_. None) unhex_text (Inr ()) [Resolved (example_record ''master'' [V6 1, V4 2130706433, V4 167772161])]
        \<lparr>wo_engine_dir = None, wo_require_gpu = False, wo_device = None,
         wo_common = \<lparr>serve_port = 47900, offered_model = None, firewall_mode = Off\<rparr>,
         wo_master = None, wo_code = None, wo_pairing_port = 47901\<rparr> None (DeviceId [9]) = Inr (Some t)"
  (is "\<exists>t. find_target _ _ _ ?es ?o _ _ = _")
proof -
  let ?p = "example_found ''master'' [V6 1, V4 2130706433, V4 167772161]"
  have "window unhex_text ?es = [Found ?p]"
    by (simp add: window_def map_filter_simps example_is_found)
  moreover have "candidate None ?p \<and> found_id ?p \<noteq> DeviceId [9]"
    by (simp add: candidate_def matches_def example_found_def)
  ultimately have "master_there (DeviceId [9]) None (window unhex_text ?es) q \<longleftrightarrow> q = ?p" for q
    by (auto simp: master_there_def live_at_def split: if_splits)
  then show ?thesis
    using master_unambiguous [of ?o None None "DeviceId [9]" unhex_text ?es "\<lambda>_. None"]
    by (auto split: sum.splits option.splits)
qed

definition example_target :: target where
  "example_target = \<lparr>t_id = Some (DeviceId [1]), t_addrs = [\<lparr>ip = V4 3232237352, port = 47900\<rparr>], t_pairing_port = 47901\<rparr>"

definition example_world :: turn_world where
  "example_world =
     \<lparr>tw_started = Inr (), tw_events = [], tw_trusts = (\<lambda>_. True), tw_dial = (\<lambda>_. Inr (DeviceId [1])), tw_pair_bind = (\<lambda>_. Inr ()),
      tw_pair_dial = (\<lambda>_. Inl Rejected), tw_typed = Inl '''', tw_session = (\<lambda>_ r. Inr r), tw_redial = (\<lambda>_. Inl Rejected),
      tw_register = Replied WorkerRegistered, tw_save = Inr ()\<rparr>"

definition example_options :: worker_options where
  "example_options =
     \<lparr>wo_engine_dir = None, wo_require_gpu = False, wo_device = None,
      wo_common = \<lparr>serve_port = 47900, offered_model = None, firewall_mode = Off\<rparr>,
      wo_master = None, wo_code = None, wo_pairing_port = 47901\<rparr>"

definition example_state :: worker_state where
  "example_state = \<lparr>ws_saved = Some example_target, ws_code = None, ws_error = ''''\<rparr>"

definition example_turn :: "turn_world \<Rightarrow> effect list \<times> turn_end" where
  "example_turn w = turn (\<lambda>_. None) unhex_text (\<lambda>_. ''notice'') (\<lambda>_. '''') example_options (DeviceId [9]) w example_state"

lemma example_target_found:
  "turn_target (\<lambda>_. None) unhex_text example_options (DeviceId [9]) example_world example_state = Inr (Some example_target)"
  by (simp add: turn_target_def find_target_def example_options_def example_state_def example_world_def browse_def
      browse_loop.simps bt_values_def select_master_def example_target_def Let_def)

lemma example_turn_served:
  "example_turn example_world =
     ([Serving (DeviceId [1]), Authorizing (Some (DeviceId [1])), Saving example_target, Ended (DeviceId [1]), Authorizing None],
      Again example_state)"
proof -
  have c: "service_connect (\<lambda>_. Inr (DeviceId [1])) (t_addrs example_target) (t_id example_target) = Inr (DeviceId [1])"
    by (simp add: service_connect_def example_target_def)
  show ?thesis
    using example_target_found c
    by (simp add: example_turn_def turn_def turn_target_def connected_def retry_of_def)
      (simp add: example_world_def example_state_def example_target_def Let_def)
qed

lemma worker_registers_witness:
  "tw_register example_world = Replied WorkerRegistered"
  using worker_registers [OF example_turn_served [unfolded example_turn_def], of "DeviceId [1]"] by simp


lemma worker_no_panic_witness:
  "snd (example_turn (example_world\<lparr>tw_trusts := \<lambda>_. False, tw_dial := \<lambda>_. Inl Rejected\<rparr>)) \<noteq> TurnPanic"
proof -
  obtain es e where t: "example_turn (example_world\<lparr>tw_trusts := \<lambda>_. False, tw_dial := \<lambda>_. Inl Rejected\<rparr>) = (es, e)" by fastforce
  from worker_no_panic [OF t [unfolded example_turn_def]] t show ?thesis
    by (simp add: dialable_def example_state_def example_target_def)
qed

lemma saved_survives_witness:
  "read_saved (\<lambda>_. Inr example_target)
     (saved_file (snd (write_saved (\<lambda>t. if t = example_target then Inr [1] else Inl '''') Missing (Inr ()) (Inr ()) example_target
        \<lparr>saved_file = Missing, pending_file = Missing\<rparr>))) = Inr (Some example_target)"
  using saved_survives [of "\<lambda>t. if t = example_target then Inr [1] else Inl ''''" "\<lambda>_. Inr example_target" "\<lparr>saved_file = Missing, pending_file = Missing\<rparr>"
      example_target Missing "Inr ()" "Inr ()"]
  by (simp add: write_saved_def read_saved_def) (simp add: target_valid_def example_target_def)

end
