(* ===== verification/Master_Loop.thy ===== *)
theory Master_Loop
  imports Startup Pairing Node
begin

text \<open>
  \<open>crates/latticed/src/startup/master.rs\<close>: the master. Its handler takes the registrations of workers
  into a bounded queue and leaves every other request to the node; a task takes them out of the queue,
  keeps the registry of live workers, and tells every worker about the others each time one joins.
  The registry is shared with a watcher of every connection, which removes the connection once it has
  closed. The properties show that no acknowledged registration is lost and that the registry is
  exactly the latest connection of every worker that has not gone.
\<close>

section \<open>The handler\<close>

text \<open>Connections have an identity of their own, as \<open>Arc::ptr_eq\<close> compares them.\<close>

record worker_conn =
  wc_id :: nat
  wc_peer :: device_id

record joined =
  joined_conn :: worker_conn
  joined_port :: nat

definition QUEUE :: nat where "QUEUE = 32"

record ('t, 'q) master =
  master_node :: "('t, 'q) node"
  join_queue :: "joined list"
  queue_open :: bool

definition try_send :: "joined \<Rightarrow> ('t, 'q) master \<Rightarrow> bool \<times> ('t, 'q) master" where
  "try_send j m =
     (if queue_open m \<and> length (join_queue m) < QUEUE then (True, m\<lparr>join_queue := join_queue m @ [j]\<rparr>) else (False, m))"

definition master_handle :: "('t, 'q) surroundings \<Rightarrow> worker_conn \<Rightarrow> ('t, 'q) master handler" where
  "master_handle e c m dev q =
     (let node_answer = (case node_handle e (master_node m) dev q of (r, n) \<Rightarrow> (r, m\<lparr>master_node := n\<rparr>)) in
      case q of
        RegisterWorker p \<Rightarrow>
          if p \<noteq> 0 then
            (case try_send \<lparr>joined_conn = c, joined_port = p\<rparr> m of
               (True, m) \<Rightarrow> (Some WorkerRegistered, m)
             | (False, m) \<Rightarrow> (Some (Refused MASTER_BUSY), m))
          else (Some (Refused ''worker port must be nonzero''), m)
      | _ \<Rightarrow> node_answer)"

lemma master_handle_Hello:
  "master_handle e c m dev Hello = (fst (node_handle e (master_node m) dev Hello), m)"
  by (simp add: master_handle_def node_handle_Hello)

interpretation master_control: control_handler "master_handle e c" for e :: "('t, 'q) surroundings" and c
  by unfold_locales (simp_all add: master_handle_Hello node_handle_Hello)

text \<open>Every connection to the service is served by the node, with a handler of its own for control.\<close>

definition master_serve ::
    "('t, 'q) surroundings \<Rightarrow> worker_conn accepted list \<Rightarrow> (worker_conn \<times> ('t, 'q) master handler) list" where
  "master_serve e es = map (\<lambda>c. (c, master_handle e c)) (serve_worker es)"

section \<open>The registry of live workers\<close>

type_synonym registry = "(device_id, worker_conn) btree"

text \<open>A worker taken out of the queue: it is registered, and every live worker is sent its roster.\<close>

definition join :: "paired_peer list \<Rightarrow> worker_conn \<Rightarrow> registry \<Rightarrow> (worker_conn \<times> introduction list) list \<times> registry" where
  "join peers c live =
     (let live = bt_insert (wc_peer c) c live in
      (map (\<lambda>c. (c, roster_for (wc_peer c) peers)) (bt_values live), live))"

text \<open>The watcher of a connection, once it has closed.\<close>

definition leave :: "worker_conn \<Rightarrow> registry \<Rightarrow> registry" where
  "leave c live =
     (case bt_get live (wc_peer c) of
        Some current \<Rightarrow> (if wc_id current = wc_id c then bt_remove (wc_peer c) live else live)
      | None \<Rightarrow> live)"

text \<open>
  What the probe of a joined worker concludes: the link is dialled at the port the worker gave, on the
  address its connection came from, and must be with the same device.
\<close>

datatype link_check = Verified nat | IdentityChanged | NotReachable net_error | ProbeFailed net_error | ProbeTimedOut

definition check_link ::
    "sock_addr \<Rightarrow> (sock_addr \<Rightarrow> net_error + device_id) \<Rightarrow> net_error + nat \<Rightarrow> bool \<Rightarrow> joined \<Rightarrow> link_check" where
  "check_link came_from dial measured in_time j =
     (if \<not> in_time then ProbeTimedOut
      else case dial (came_from\<lparr>port := joined_port j\<rparr>) of
        Inl e \<Rightarrow> NotReachable e
      | Inr i \<Rightarrow>
          if i \<noteq> wc_peer (joined_conn j) then IdentityChanged
          else (case measured of Inl e \<Rightarrow> ProbeFailed e | Inr k \<Rightarrow> Verified k))"

section \<open>The pairing loop\<close>

text \<open>
  Every connection that arrives is answered with the code shown at that time, and a new code is drawn
  after it, whatever came of it. \<open>codes\<close> are the numbers drawn; the attempts are returned in order.
\<close>

fun pairing_loop :: "(nat \<Rightarrow> nat) \<Rightarrow> nat \<Rightarrow> worker_conn accepted list \<Rightarrow> (pairing_code \<times> worker_conn) list" where
  "pairing_loop codes k [] = []"
| "pairing_loop codes k (Arrived c # es) = (code_generate (codes k), c) # pairing_loop codes (Suc k) es"
| "pairing_loop codes k (Failure e # es) = pairing_loop codes k es"
| "pairing_loop codes k (Quiet # es) = pairing_loop codes k es"
| "pairing_loop codes k (EndpointClosed # es) = []"

record master_options =
  mo_common :: common_options
  mo_pairing_port :: nat

datatype master_error = SamePorts | PairingPort net_error | ServiceFailed start_error | ProbePort net_error

definition master_start ::
    "net_error + unit \<Rightarrow> (nat option \<Rightarrow> start_error + 's) \<Rightarrow> net_error + unit \<Rightarrow> master_options \<Rightarrow> master_error + 's" where
  "master_start pairing_bound start probe_bound options =
     (if serve_port (mo_common options) = mo_pairing_port options then Inl SamePorts
      else rbind (map_err PairingPort pairing_bound) (\<lambda>_.
           rbind (map_err ServiceFailed (start (Some (mo_pairing_port options)))) (\<lambda>service.
           rbind (map_err ProbePort probe_bound) (\<lambda>_. Inr service))))"

section \<open>The steps of a master\<close>

text \<open>
  \<open>acknowledged\<close> and \<open>taken\<close> are the registrations that were answered and those taken out of the queue,
  in order; \<open>watched\<close> the connections that have a watcher, and \<open>gone\<close> those a watcher has seen closed.
  \<open>peer_at\<close> is the device at the other end of each connection.
\<close>

record ('t, 'q) master_system =
  ms_master :: "('t, 'q) master"
  ms_live :: registry
  watched :: "worker_conn list"
  gone :: "worker_conn set"
  acknowledged :: "joined list"
  taken :: "joined list"

definition acknowledges :: "response option \<Rightarrow> request \<Rightarrow> worker_conn \<Rightarrow> joined list" where
  "acknowledges r q c =
     (case q of
        RegisterWorker p \<Rightarrow> (if r = Some WorkerRegistered then [\<lparr>joined_conn = c, joined_port = p\<rparr>] else [])
      | _ \<Rightarrow> [])"

definition after_answer :: "('t, 'q) surroundings \<Rightarrow> worker_conn \<Rightarrow> request \<Rightarrow> ('t, 'q) master_system \<Rightarrow> ('t, 'q) master_system" where
  "after_answer e c q s =
     (case master_handle e c (ms_master s) (wc_peer c) q of
        (r, m) \<Rightarrow> s\<lparr>ms_master := m, acknowledged := acknowledged s @ acknowledges r q c\<rparr>)"

definition after_join :: "joined \<Rightarrow> joined list \<Rightarrow> paired_peer list \<Rightarrow> ('t, 'q) master_system \<Rightarrow> ('t, 'q) master_system" where
  "after_join j js peers s =
     s\<lparr>ms_master := (ms_master s)\<lparr>join_queue := js\<rparr>, taken := taken s @ [j],
       ms_live := snd (join peers (joined_conn j) (ms_live s)), watched := joined_conn j # watched s\<rparr>"

definition after_leave :: "worker_conn \<Rightarrow> ('t, 'q) master_system \<Rightarrow> ('t, 'q) master_system" where
  "after_leave c s =
     s\<lparr>ms_live := leave c (ms_live s), watched := remove1 c (watched s), gone := insert c (gone s)\<rparr>"

inductive master_step ::
    "(nat \<Rightarrow> device_id) \<Rightarrow> ('t, 'q) surroundings \<Rightarrow> ('t, 'q) master_system \<Rightarrow> ('t, 'q) master_system \<Rightarrow> bool" for peer_at e where
  answered: "wc_peer c = peer_at (wc_id c) \<Longrightarrow> master_step peer_at e s (after_answer e c q s)"
| joining: "join_queue (ms_master s) = j # js \<Longrightarrow> master_step peer_at e s (after_join j js peers s)"
| leaving: "c \<in> set (watched s) \<Longrightarrow> master_step peer_at e s (after_leave c s)"

definition new_master :: "('t, 'q) node \<Rightarrow> ('t, 'q) master_system" where
  "new_master n =
     \<lparr>ms_master = \<lparr>master_node = n, join_queue = [], queue_open = True\<rparr>, ms_live = [], watched = [], gone = {},
      acknowledged = [], taken = []\<rparr>"

inductive master_reachable ::
    "(nat \<Rightarrow> device_id) \<Rightarrow> ('t, 'q) surroundings \<Rightarrow> ('t, 'q) node \<Rightarrow> ('t, 'q) master_system \<Rightarrow> bool" for peer_at e n where
  started: "master_reachable peer_at e n (new_master n)"
| stepped: "master_reachable peer_at e n s \<Longrightarrow> master_step peer_at e s s' \<Longrightarrow> master_reachable peer_at e n s'"

section \<open>The invariant\<close>

definition latest :: "device_id \<Rightarrow> joined list \<Rightarrow> worker_conn option" where
  "latest i js = fold (\<lambda>j l. if wc_peer (joined_conn j) = i then Some (joined_conn j) else l) js None"

definition conn_ok :: "(nat \<Rightarrow> device_id) \<Rightarrow> worker_conn \<Rightarrow> bool" where
  "conn_ok peer_at c \<longleftrightarrow> wc_peer c = peer_at (wc_id c)"

definition queue_ok :: "(nat \<Rightarrow> device_id) \<Rightarrow> ('t, 'q) master_system \<Rightarrow> bool" where
  "queue_ok peer_at s \<longleftrightarrow>
     acknowledged s = taken s @ join_queue (ms_master s) \<and> length (join_queue (ms_master s)) \<le> QUEUE \<and>
     (\<forall>j \<in> set (acknowledged s). joined_port j \<noteq> 0 \<and> conn_ok peer_at (joined_conn j)) \<and>
     (\<forall>c \<in> set (watched s). conn_ok peer_at c)"

definition live_ok :: "('t, 'q) master_system \<Rightarrow> bool" where
  "live_ok s \<longleftrightarrow> bt_wf (ms_live s) \<and>
     (\<forall>i c. bt_get (ms_live s) i = Some c \<longrightarrow> latest i (taken s) = Some c \<and> wc_peer c = i \<and> c \<in> set (watched s)) \<and>
     (\<forall>i c. latest i (taken s) = Some c \<longrightarrow> c \<notin> gone s \<longrightarrow> bt_get (ms_live s) i = Some c)"

lemma live_okI:
  assumes "bt_wf (ms_live s)"
    and "\<And>i c. bt_get (ms_live s) i = Some c \<Longrightarrow> latest i (taken s) = Some c \<and> wc_peer c = i \<and> c \<in> set (watched s)"
    and "\<And>i c. latest i (taken s) = Some c \<Longrightarrow> c \<notin> gone s \<Longrightarrow> bt_get (ms_live s) i = Some c"
  shows "live_ok s"
  unfolding live_ok_def
proof (rule conjI [OF assms(1) conjI]; (rule allI)+; rule impI)
  fix i c
  assume "bt_get (ms_live s) i = Some c"
  then show "latest i (taken s) = Some c \<and> wc_peer c = i \<and> c \<in> set (watched s)" by (rule assms(2))
next
  fix i c
  assume "latest i (taken s) = Some c"
  then show "c \<notin> gone s \<longrightarrow> bt_get (ms_live s) i = Some c" by (intro impI assms(3))
qed

lemma latest_snoc:
  "latest i (js @ [j]) = (if wc_peer (joined_conn j) = i then Some (joined_conn j) else latest i js)"
  by (simp add: latest_def)

lemma latest_peer: "latest i js = Some c \<Longrightarrow> wc_peer c = i \<and> (\<exists>j \<in> set js. joined_conn j = c)"
  by (induction js rule: rev_induct) (auto simp: latest_def split: if_splits)

lemma same_conn: "conn_ok peer_at c \<Longrightarrow> conn_ok peer_at d \<Longrightarrow> wc_id c = wc_id d \<Longrightarrow> c = d"
  by (cases c; cases d) (simp add: conn_ok_def)

lemma handle_queue:
  assumes "master_handle e c m (wc_peer c) q = (r, m')"
  shows "join_queue m' = join_queue m @ acknowledges r q c \<and>
    (length (join_queue m) \<le> QUEUE \<longrightarrow> length (join_queue m') \<le> QUEUE) \<and>
    list_all (\<lambda>j. joined_port j \<noteq> 0 \<and> joined_conn j = c) (acknowledges r q c)"
  using assms
  by (cases q) (auto simp: master_handle_def acknowledges_def try_send_def prod.case_eq_if Let_def split: if_splits)

lemma queue_ok_step:
  assumes "queue_ok peer_at s" and "master_step peer_at e s s'"
  shows "queue_ok peer_at s'"
  using assms(2)
proof (cases rule: master_step.cases)
  case (answered c q)
  obtain r m where h: "master_handle e c (ms_master s) (wc_peer c) q = (r, m)" by fastforce
  from handle_queue [OF h] answered assms(1) h show ?thesis
    by (auto simp: queue_ok_def after_answer_def list_all_iff conn_ok_def)
next
  case (joining j js peers)
  with assms(1) show ?thesis by (auto simp: queue_ok_def after_join_def)
next
  case (leaving c)
  with assms(1) show ?thesis by (auto simp: queue_ok_def after_leave_def dest: notin_set_remove1)
qed

lemma live_ok_step:
  assumes "live_ok s" and "queue_ok peer_at s" and "master_step peer_at e s s'"
  shows "live_ok s'"
  using assms(3)
proof (cases rule: master_step.cases)
  case (answered c q)
  then have f: "ms_live s' = ms_live s" "taken s' = taken s" "watched s' = watched s" "gone s' = gone s"
    by (simp_all add: after_answer_def prod.case_eq_if)
  show ?thesis using assms(1) unfolding live_ok_def f .
next
  case (joining j js peers)
  let ?c = "joined_conn j"
  have f: "ms_live s' = bt_insert (wc_peer ?c) ?c (ms_live s)" "taken s' = taken s @ [j]" "watched s' = ?c # watched s" "gone s' = gone s"
    using joining by (simp_all add: after_join_def join_def Let_def)
  note ok = assms(1) [unfolded live_ok_def]
  have g: "bt_get (ms_live s') i = (if wc_peer ?c = i then Some ?c else bt_get (ms_live s) i)" for i
    by (simp add: f(1) bt_get_insert)
  have l: "latest i (taken s') = (if wc_peer ?c = i then Some ?c else latest i (taken s))" for i
    by (simp add: f(2) latest_snoc)
  have a: "latest i (taken s') = Some c \<and> wc_peer c = i \<and> c \<in> set (watched s')" if "bt_get (ms_live s') i = Some c" for i c
  proof (cases "wc_peer ?c = i")
    case False
    with that g have "bt_get (ms_live s) i = Some c" by simp
    with ok have "latest i (taken s) = Some c \<and> wc_peer c = i \<and> c \<in> set (watched s)" by metis
    with False l f(3) show ?thesis by simp
  qed (use that g l f(3) in auto)
  have b: "bt_get (ms_live s') i = Some c" if "latest i (taken s') = Some c" "c \<notin> gone s'" for i c
  proof (cases "wc_peer ?c = i")
    case False
    with that l f(4) have "latest i (taken s) = Some c" "c \<notin> gone s" by simp_all
    with ok have "bt_get (ms_live s) i = Some c" by metis
    with False g show ?thesis by simp
  qed (use that g l in auto)
  have "bt_wf (ms_live s')" using conjunct1 [OF ok] by (simp add: f(1) bt_wf_insert)
  then show ?thesis by (rule live_okI [OF _ a b])
next
  case (leaving c)
  have c: "conn_ok peer_at c" using assms(2) leaving(2) by (simp add: queue_ok_def)
  have same: "d = c" if "bt_get (ms_live s) i = Some d" "wc_id d = wc_id c" for i d
  proof -
    have "d \<in> set (watched s)" using assms(1) that(1) unfolding live_ok_def by metis
    then have "conn_ok peer_at d" using assms(2) by (simp add: queue_ok_def)
    then show ?thesis using c that(2) by (rule same_conn)
  qed
  note ok = assms(1) [unfolded live_ok_def]
  have key: "wc_peer d = i" if "bt_get (ms_live s) i = Some d" for i d
    using ok that by metis
  have l: "bt_get (leave c (ms_live s)) i = (if bt_get (ms_live s) i = Some c then None else bt_get (ms_live s) i)" for i
  proof (cases "bt_get (ms_live s) (wc_peer c) = Some c")
    case True
    then have r: "bt_get (leave c (ms_live s)) i = (if i = wc_peer c then None else bt_get (ms_live s) i)"
      by (simp add: leave_def bt_get_remove)
    show ?thesis
    proof (cases "i = wc_peer c")
      case False
      then have "bt_get (ms_live s) i \<noteq> Some c" using key [of i c] by metis
      with r False show ?thesis by simp
    qed (use r True in simp)
  next
    case False
    then have "leave c (ms_live s) = ms_live s"
      using same [of "wc_peer c"] by (cases "bt_get (ms_live s) (wc_peer c)") (auto simp: leave_def)
    moreover have "bt_get (ms_live s) i \<noteq> Some c" using False key [of i c] by metis
    ultimately show ?thesis by simp
  qed
  have w: "bt_wf (leave c (ms_live s))"
    using conjunct1 [OF ok] by (cases "bt_get (ms_live s) (wc_peer c)") (simp_all add: leave_def bt_wf_remove)
  have f: "ms_live s' = leave c (ms_live s)" "taken s' = taken s" "watched s' = remove1 c (watched s)"
      "gone s' = insert c (gone s)"
    using leaving by (simp_all add: after_leave_def)
  show ?thesis
  proof (rule live_okI)
    show "bt_wf (ms_live s')" using w by (simp add: f)
    fix i d
    { assume "bt_get (ms_live s') i = Some d"
      then have d: "bt_get (ms_live s) i = Some d" "d \<noteq> c" unfolding f(1) l by (simp_all split: if_splits)
      with ok have "latest i (taken s) = Some d \<and> wc_peer d = i \<and> d \<in> set (watched s)" by metis
      with d(2) show "latest i (taken s') = Some d \<and> wc_peer d = i \<and> d \<in> set (watched s')" by (simp add: f) }
    { assume "latest i (taken s') = Some d" "d \<notin> gone s'"
      then have "latest i (taken s) = Some d" "d \<notin> gone s" "d \<noteq> c" by (simp_all add: f)
      moreover from this have "bt_get (ms_live s) i = Some d" using ok by metis
      ultimately show "bt_get (ms_live s') i = Some d" unfolding f(1) l by simp }
  qed
qed

lemma master_ok_reachable:
  "master_reachable peer_at e n s \<Longrightarrow> queue_ok peer_at s \<and> live_ok s"
proof (induction rule: master_reachable.induct)
  case started
  then show ?case by (simp add: queue_ok_def live_ok_def new_master_def latest_def QUEUE_def)
next
  case (stepped s s')
  then show ?case using queue_ok_step live_ok_step by blast
qed

section \<open>Properties\<close>

text \<open>C23: No acknowledged registration is lost or reordered. In every reachable state the registrations
  that were acknowledged are those already taken up, followed by those in the queue, in order; the
  queue never holds more than its capacity, and every one of them names a port.\<close>

theorem registrations_kept:
  assumes "master_reachable peer_at e n s"
  shows "acknowledged s = taken s @ join_queue (ms_master s) \<and> length (join_queue (ms_master s)) \<le> QUEUE \<and>
    list_all (\<lambda>j. joined_port j \<noteq> 0) (acknowledged s)"
  using master_ok_reachable [OF assms] by (auto simp: queue_ok_def list_all_iff)

text \<open>C11: The registry is what it stands for. In every reachable state, whatever joins and disconnections
  have happened in whatever order, the connection registered for a worker is the one of its latest
  registration and is being watched; and unless that connection has been seen closed, it is
  registered, so the end of an old connection never evicts the new one.\<close>

theorem registry_exact:
  assumes "master_reachable peer_at e n s"
  shows "(bt_get (ms_live s) i = Some c \<longrightarrow> latest i (taken s) = Some c \<and> wc_peer c = i \<and> c \<in> set (watched s)) \<and>
    (latest i (taken s) = Some c \<and> c \<notin> gone s \<longrightarrow> bt_get (ms_live s) i = Some c)"
  using master_ok_reachable [OF assms] unfolding live_ok_def by metis

text \<open>A pairing code is good for one attempt. Whatever arrives at the pairing port, the attempts are
  made with the codes in the order they were drawn, each drawn for that attempt alone.\<close>

theorem codes_fresh:
  "map fst (pairing_loop codes k es) =
     map (\<lambda>n. code_generate (codes n)) [k..<k + length (pairing_loop codes k es)]"
proof (induction codes k es rule: pairing_loop.induct)
  case (2 codes k c es)
  then show ?case by (simp add: upt_conv_Cons del: upt_Suc)
qed simp_all

lemma pairing_loop_answers: "map snd (pairing_loop codes k es) = serve_worker es"
  by (induction codes k es rule: pairing_loop.induct) simp_all

section \<open>An instance\<close>

definition example_conn :: "nat \<Rightarrow> worker_conn" where
  "example_conn k = \<lparr>wc_id = k, wc_peer = DeviceId [5]\<rparr>"

definition example_joined :: "nat \<Rightarrow> joined" where
  "example_joined k = \<lparr>joined_conn = example_conn k, joined_port = 47900\<rparr>"

text \<open>A worker that registers, loses its connection and registers again before that is noticed.\<close>

definition example_rejoined :: "(int list, int) master_system" where
  "example_rejoined =
     after_leave (example_conn 1)
       (after_join (example_joined 2) [] []
         (after_answer example_surroundings (example_conn 2) (RegisterWorker 47900)
           (after_join (example_joined 1) [] []
             (after_answer example_surroundings (example_conn 1) (RegisterWorker 47900) (new_master example_node)))))"

lemmas example_steps = after_leave_def after_join_def after_answer_def master_handle_def try_send_def acknowledges_def
  new_master_def join_def leave_def QUEUE_def example_joined_def example_conn_def

lemma example_rejoined_reachable: "master_reachable (\<lambda>_. DeviceId [5]) example_surroundings example_node example_rejoined"
  unfolding example_rejoined_def
  by (rule stepped [OF stepped [OF stepped [OF stepped [OF stepped [OF started answered] joining] answered] joining] leaving])
    (simp_all add: example_steps Let_def prod.case_eq_if)

lemma example_rejoined_state:
  "acknowledged example_rejoined = [example_joined 1, example_joined 2]"
  "taken example_rejoined = [example_joined 1, example_joined 2]"
  "ms_live example_rejoined = [(DeviceId [5], example_conn 2)]"
  by (simp_all add: example_rejoined_def example_steps Let_def prod.case_eq_if bt_get_def)

lemma registrations_kept_witness:
  "join_queue (ms_master example_rejoined) = []"
  using registrations_kept [OF example_rejoined_reachable] by (simp add: example_rejoined_state)

lemma registry_exact_witness:
  "latest (DeviceId [5]) (taken example_rejoined) = Some (example_conn 2) \<and> example_conn 2 \<in> set (watched example_rejoined)"
  using registry_exact [OF example_rejoined_reachable, of "DeviceId [5]" "example_conn 2"]
  by (simp add: example_rejoined_state bt_get_def)

end
