(* ===== verification/Chat.thy ===== *)
theory Chat
  imports Locate Startup Plan Control Runtime Rpc
begin

text \<open>
  \<open>crates/latticed/src/chat.rs\<close>: a chat over the GPUs of this machine and its paired workers. It finds
  the workers, checks each of them, divides the layers among the devices, starts a proxy for each
  worker and runs the engine with a command line that names them. The properties show that only
  suitable, distinct, paired workers are used, and that the names, the shares and the devices on the
  engine's command line correspond one to one.
\<close>

section \<open>The options and the workers\<close>

record chat_options =
  co_model :: string
  co_context :: nat
  co_tokens :: nat
  co_prompt :: "string option"
  co_worker :: "string list"
  co_local :: bool
  co_device :: "string option"
  co_engine_dir :: "string option"
  co_reserve_mib :: nat

record worker =
  wk_id :: device_id
  wk_name :: string
  wk_caps :: engine_capabilities

datatype unfit = EnginesDiffer | WorkerBusy | NotGpu

datatype chat_error =
    EngineMissing string
  | ModelUnreadable string
  | InventoryFailed engine_error
  | ContextTooLong nat nat
  | DevicesFailed string
  | NoDevice select_error
  | ChatStore net_error
  | BadWorkerAddress
  | BadWorkerId net_error
  | NotPairedWorker device_id
  | ChatDiscovery net_error
  | WorkerUnavailable device_id
  | NoWorkers
  | WorkerUnreachable locate_error
  | WorkerIdentityDiffers
  | SelectedTwice device_id
  | CapabilityTimedOut
  | CapabilityFailed net_error
  | OlderWorker device_id
  | WorkerRefused device_id string
  | NoInference device_id response
  | WorkerUnfit device_id unfit
  | PlacementFailed plan_error
  | ProxyFailed net_error
  | LogFailed string
  | SpawnFailed string
  | WaitFailed string
  | ConnectionClosed device_id
  | SignalFailed string
  | EngineExited string
  | LogUnreadable string

definition check_worker :: "engine_capabilities \<Rightarrow> string \<Rightarrow> unfit + unit" where
  "check_worker caps wanted_rev =
     (if revision caps \<noteq> wanted_rev then Inl EnginesDiffer
      else if busy caps then Inl WorkerBusy
      else if \<not> (gpu_kind (device caps) = ''gpu'' \<or> gpu_kind (device caps) = ''igpu'') then Inl NotGpu
      else Inr ())"

section \<open>Finding workers\<close>

type_synonym located = "(device_id option \<times> sock_addr list) list"

text \<open>The targets named on the command line: addresses in order, and a set of ids (\<open>BTreeSet\<close>).\<close>

fun name_targets ::
    "(string \<Rightarrow> sock_addr option) \<Rightarrow> unhex \<Rightarrow> device_id set \<Rightarrow> device_id \<Rightarrow> string list \<Rightarrow> located \<Rightarrow> (device_id, unit) btree \<Rightarrow>
       chat_error + located \<times> (device_id, unit) btree" where
  "name_targets v6 unhex trusted self_id [] explicit wanted = Inr (explicit, wanted)"
| "name_targets v6 unhex trusted self_id (s # ss) explicit wanted =
     (case parse_sock v6 s of
        Some a \<Rightarrow>
          if \<not> is_ipv4 (ip a) \<or> port a = 0 \<or> is_unspecified (ip a) then Inl BadWorkerAddress
          else name_targets v6 unhex trusted self_id ss (explicit @ [(None, [a])]) wanted
      | None \<Rightarrow>
          rbind (map_err BadWorkerId (parse_id unhex s)) (\<lambda>i.
            if i = self_id \<or> i \<notin> trusted then Inl (NotPairedWorker i)
            else name_targets v6 unhex trusted self_id ss explicit (bt_insert i () wanted)))"

definition eligible :: "device_id set \<Rightarrow> device_id \<Rightarrow> bool \<Rightarrow> (device_id, unit) btree \<Rightarrow> discovered_peer \<Rightarrow> bool" where
  "eligible trusted self_id anyone wanted p \<longleftrightarrow>
     found_id p \<noteq> self_id \<and> found_id p \<in> trusted \<and> found_role p = Some ''worker'' \<and>
     found_protocol p = PROTOCOL_VERSION \<and> (anyone \<or> bt_get wanted (found_id p) \<noteq> None)"

function worker_browse ::
    "unhex \<Rightarrow> (discovered_peer \<Rightarrow> bool) \<Rightarrow> service_event list \<Rightarrow> (device_id, sock_addr list) btree \<Rightarrow> (device_id, sock_addr list) btree" where
  "worker_browse unhex ok es found =
     (case next_event unhex es of
        (Some (Found p), es') \<Rightarrow>
          worker_browse unhex ok es'
            (if ok p \<and> usable (found_addrs p) \<noteq> [] then bt_insert (found_id p) (usable (found_addrs p)) found else found)
      | (Some (Lost i), es') \<Rightarrow> worker_browse unhex ok es' (bt_remove i found)
      | (None, es') \<Rightarrow> found)"
  by pat_completeness auto
termination
  by (relation "measure (\<lambda>(_, _, es, _). length es)") (auto dest: next_event_shorter sym)

declare worker_browse.simps [simp del]

definition find_workers ::
    "(string \<Rightarrow> sock_addr option) \<Rightarrow> unhex \<Rightarrow> net_error + unit \<Rightarrow> service_event list \<Rightarrow> string list \<Rightarrow> device_id set \<Rightarrow> device_id \<Rightarrow>
       chat_error + located" where
  "find_workers v6 unhex started es requested trusted self_id =
     rbind (name_targets v6 unhex trusted self_id requested [] []) (\<lambda>(explicit, wanted).
       if wanted = [] \<and> explicit \<noteq> [] then Inr explicit
       else rbind (map_err ChatDiscovery started) (\<lambda>_.
         let found = worker_browse unhex (eligible trusted self_id (requested = []) wanted) es [] in
         case find (\<lambda>(i, _). bt_get found i = None) wanted of
           Some (i, _) \<Rightarrow> Inl (WorkerUnavailable i)
         | None \<Rightarrow> Inr (explicit @ map (\<lambda>(i, as). (Some i, as)) found)))"

section \<open>Connecting to them\<close>

text \<open>\<open>dial\<close> is what an address answers with, and \<open>ask\<close> what a worker answers; \<open>None\<close> is a time out.\<close>

record chat_world =
  cw_bind :: "sock_addr \<Rightarrow> net_error + unit"
  cw_dial :: "sock_addr \<Rightarrow> net_error + device_id"
  cw_ask :: "device_id \<Rightarrow> (net_error + response) option"

definition capability_of :: "device_id \<Rightarrow> (net_error + response) option \<Rightarrow> chat_error + engine_capabilities" where
  "capability_of i answered =
     (case answered of
        None \<Rightarrow> Inl CapabilityTimedOut
      | Some (Inl e) \<Rightarrow> Inl (CapabilityFailed e)
      | Some (Inr (InferenceInfoIs caps)) \<Rightarrow> Inr caps
      | Some (Inr (Refused why)) \<Rightarrow>
          if starts_with ''unintelligible request:'' why then Inl (OlderWorker i) else Inl (WorkerRefused i why)
      | Some (Inr other) \<Rightarrow> Inl (NoInference i other))"

fun connect_located ::
    "(bytes \<Rightarrow> string) \<Rightarrow> chat_world \<Rightarrow> trust_store \<Rightarrow> device_id \<Rightarrow> string \<Rightarrow> located \<Rightarrow> device_id set \<Rightarrow> worker list \<Rightarrow>
       chat_error + worker list" where
  "connect_located hex w store self_id wanted_rev [] seen workers = Inr workers"
| "connect_located hex w store self_id wanted_rev ((expected, addrs) # more_located) seen workers =
     rbind (map_err WorkerUnreachable (connect_any (cw_bind w) (cw_dial w) addrs)) (\<lambda>i.
       if \<not> matches expected i \<or> i = self_id then Inl WorkerIdentityDiffers
       else if i \<in> seen then Inl (SelectedTwice i)
       else
         rbind (capability_of i (cw_ask w i)) (\<lambda>caps.
         rbind (map_err (WorkerUnfit i) (check_worker caps wanted_rev)) (\<lambda>_.
         connect_located hex w store self_id wanted_rev more_located (insert i seen)
           (workers @ [\<lparr>wk_id = i, wk_name = (case trust_get store i of None \<Rightarrow> show_id hex i | Some p \<Rightarrow> paired_peer.name p),
                        wk_caps = caps\<rparr>]))))"

definition connect_workers ::
    "(string \<Rightarrow> sock_addr option) \<Rightarrow> unhex \<Rightarrow> (bytes \<Rightarrow> string) \<Rightarrow> net_error + unit \<Rightarrow> service_event list \<Rightarrow> chat_world \<Rightarrow>
       net_error + trust_store \<Rightarrow> device_id \<Rightarrow> string list \<Rightarrow> string \<Rightarrow> chat_error + worker list" where
  "connect_workers v6 unhex hex started es w loaded self_id requested wanted_rev =
     rbind (map_err ChatStore loaded) (\<lambda>store.
     rbind (find_workers v6 unhex started es requested (paired_peer.device_id ` set (trust_peers store)) self_id) (\<lambda>located.
       if located = [] then Inl NoWorkers
       else connect_located hex w store self_id wanted_rev located {} []))"

section \<open>Placing the model\<close>

text \<open>
  What a chat reads of its machine: the environment, the files of the engine and of the model, the
  helper that lists the GPUs. \<open>cm_connect\<close> is \<open>connect_workers\<close> with the network it runs in.
\<close>

record chat_machine =
  cm_engine_dir :: "string option"
  cm_home :: "string option"
  cm_text :: "string \<Rightarrow> string option"
  cm_is_file :: "string \<Rightarrow> bool"
  cm_canonical :: "string \<Rightarrow> string + string"
  cm_inventory :: "string \<Rightarrow> engine_error + model_inventory"
  cm_devices :: "string \<Rightarrow> string + gpu_device list"
  cm_connect :: "string list \<Rightarrow> string \<Rightarrow> chat_error + worker list"

record placed_chat =
  pc_engine :: string
  pc_model :: string
  pc_inventory :: model_inventory
  pc_workers :: "worker list"
  pc_devices :: "gpu_device list"
  pc_layers :: "nat list"

text \<open>\<open>None\<close> is the panic of the planner's \<open>expect\<close>.\<close>

definition place_chat :: "chat_machine \<Rightarrow> chat_options \<Rightarrow> (chat_error + placed_chat) option" where
  "place_chat m o' =
     (let prepared =
        rbind (map_err EngineMissing (Runtime.locate (co_engine_dir o') (cm_engine_dir m) (cm_home m) (cm_text m) (cm_is_file m))) (\<lambda>dir.
        rbind (map_err ModelUnreadable (cm_canonical m (co_model o'))) (\<lambda>gguf.
        rbind (map_err InventoryFailed (cm_inventory m gguf)) (\<lambda>inventory.
        if co_context o' > train_context (facts inventory)
        then Inl (ContextTooLong (co_context o') (train_context (facts inventory)))
        else rbind (map_err DevicesFailed (cm_devices m dir)) (\<lambda>ds.
             rbind (map_err NoDevice (select_device ds (co_device o'))) (\<lambda>local.
             rbind (if co_local o' then Inr [] else cm_connect m (co_worker o') ENGINE_REVISION) (\<lambda>workers.
               Inr (dir, gguf, inventory, workers, local)))))))
      in case prepared of
           Inl e \<Rightarrow> Some (Inl e)
         | Inr (dir, gguf, inventory, workers, local) \<Rightarrow>
             (let all_devices = map (\<lambda>w. device (wk_caps w)) workers @ [local] in
              map_option
                (\<lambda>r. rbind (map_err PlacementFailed r) (\<lambda>shares.
                   Inr \<lparr>pc_engine = dir, pc_model = gguf, pc_inventory = inventory, pc_workers = workers,
                        pc_devices = all_devices, pc_layers = shares\<rparr>))
                (build inventory (co_context o') all_devices (push_bit 20 (co_reserve_mib o')))))"

section \<open>The engine's command line\<close>

text \<open>A proxy listens on a port of its own of the loopback interface.\<close>

definition proxy_address :: "nat \<Rightarrow> string" where
  "proxy_address p = ''127.0.0.1:'' @ show_nat p"

fun bind_proxies :: "(device_id \<Rightarrow> net_error + nat) \<Rightarrow> worker list \<Rightarrow> chat_error + nat list" where
  "bind_proxies bind_proxy [] = Inr []"
| "bind_proxies bind_proxy (w # ws) =
     rbind (map_err ProxyFailed (bind_proxy (wk_id w))) (\<lambda>p. rbind (bind_proxies bind_proxy ws) (\<lambda>ps. Inr (p # ps)))"

definition device_names :: "placed_chat \<Rightarrow> string list" where
  "device_names c = map (\<lambda>i. ''RPC'' @ show_nat i) [0..<length (pc_workers c)] @ [gpu_name (last (pc_devices c))]"

definition engine_args :: "chat_options \<Rightarrow> placed_chat \<Rightarrow> nat list \<Rightarrow> string list" where
  "engine_args o' c ports =
     (let rpc = join '','' (map proxy_address ports) in
      (if rpc = [] then [] else [''--rpc'', rpc]) @
      [''--model'', pc_model c,
       ''--device'', join '','' (device_names c),
       ''--split-mode'', ''layer'', ''--gpu-layers'', ''all'',
       ''--tensor-split'', join '','' (map show_nat (pc_layers c)),
       ''--fit'', ''off'', ''--simple-io'', ''--log-verbosity'', ''4'',
       ''--cache-type-k'', ''f16'', ''--cache-type-v'', ''f16'',
       ''--ctx-size'', show_nat (co_context o'), ''--predict'', show_nat (co_tokens o')] @
      (case co_prompt o' of
         Some prompt \<Rightarrow> [''--prompt'', prompt, ''--single-turn'', ''--temp'', ''0'']
       | None \<Rightarrow> []))"

text \<open>The child's environment: the engine's own variables are taken out.\<close>

definition engine_env :: "(string \<rightharpoonup> string) \<Rightarrow> (string \<rightharpoonup> string)" where
  "engine_env vars =
     (\<lambda>n. if starts_with ''LLAMA_ARG_'' n then None else vars n)(''GGML_RPC_NO_RDMA'' \<mapsto> ''1'')"


section \<open>The end of a chat\<close>

definition log_tail :: "(bytes \<Rightarrow> string) \<Rightarrow> string + bytes \<Rightarrow> string + string" where
  "log_tail lossy written = rbind written (\<lambda>bs. Inr (lossy (drop (length bs - 8192) bs)))"

text \<open>What happens first while the engine runs: it exits, a worker's connection closes, or a signal.\<close>

datatype chat_event = Exited "string + bool" | WorkerClosed device_id | Signalled "string + unit"

record chat_end =
  ce_result :: "chat_error + unit"
  ce_killed :: bool
  ce_farewells :: "device_id list"

text \<open>
  The connections of workers are closed with a farewell unless a signal ended the chat. An engine that
  still runs when \<open>run\<close> returns is killed (\<open>kill_on_drop\<close>). No connection can close without a worker.
\<close>

definition end_chat :: "(bytes \<Rightarrow> string) \<Rightarrow> string + bytes \<Rightarrow> worker list \<Rightarrow> chat_event \<Rightarrow> chat_end" where
  "end_chat lossy written workers ev =
     (case ev of
        Signalled r \<Rightarrow> \<lparr>ce_result = map_err SignalFailed r, ce_killed = True, ce_farewells = []\<rparr>
      | WorkerClosed i \<Rightarrow>
          \<lparr>ce_result = Inl (ConnectionClosed i), ce_killed = True, ce_farewells = map wk_id workers\<rparr>
      | Exited r \<Rightarrow>
          \<lparr>ce_result = rbind (map_err WaitFailed r) (\<lambda>success.
             if success then Inr ()
             else rbind (map_err LogUnreadable (log_tail lossy written)) (\<lambda>tail. Inl (EngineExited tail))),
           ce_killed = isl r, ce_farewells = map wk_id workers\<rparr>)"



section \<open>Lemmas on the selection\<close>

definition address_ok :: "sock_addr \<Rightarrow> bool" where
  "address_ok a \<longleftrightarrow> is_ipv4 (ip a) \<and> port a \<noteq> 0 \<and> \<not> is_unspecified (ip a)"

text \<open>What one \<open>--worker\<close> argument asks for.\<close>

definition names_address :: "(string \<Rightarrow> sock_addr option) \<Rightarrow> string list \<Rightarrow> sock_addr list" where
  "names_address v6 ss = List.map_filter (parse_sock v6) ss"

definition names_device :: "(string \<Rightarrow> sock_addr option) \<Rightarrow> unhex \<Rightarrow> device_id \<Rightarrow> string \<Rightarrow> bool" where
  "names_device v6 unhex i s \<longleftrightarrow> parse_sock v6 s = None \<and> parse_id unhex s = Inr i"

lemma name_targets_Inr:
  "name_targets v6 unhex trusted self ss explicit wanted = Inr (e, w) \<Longrightarrow> bt_wf wanted \<Longrightarrow>
     e = explicit @ map (\<lambda>a. (None, [a])) (names_address v6 ss) \<and> bt_wf w \<and>
     list_all address_ok (names_address v6 ss) \<and>
     (\<forall>i. (bt_get w i \<noteq> None) = (bt_get wanted i \<noteq> None \<or> list_ex (names_device v6 unhex i) ss)) \<and>
     (\<forall>i. list_ex (names_device v6 unhex i) ss \<longrightarrow> i \<noteq> self \<and> i \<in> trusted)"
proof (induction ss arbitrary: explicit wanted)
  case Nil
  then show ?case by (simp add: names_address_def map_filter_simps)
next
  case (Cons s ss)
  show ?case
  proof (cases "parse_sock v6 s")
    case (Some a)
    with Cons.prems have ok: "address_ok a"
      and r: "name_targets v6 unhex trusted self ss (explicit @ [(None, [a])]) wanted = Inr (e, w)"
      by (auto simp: address_ok_def split: if_splits)
    from Cons.IH [OF r Cons.prems(2)] ok Some show ?thesis
      by (simp add: names_address_def map_filter_simps names_device_def)
  next
    case None
    with Cons.prems obtain i where i: "parse_id unhex s = Inr i" "i \<noteq> self" "i \<in> trusted"
      and r: "name_targets v6 unhex trusted self ss explicit (bt_insert i () wanted) = Inr (e, w)"
      by (auto simp: result_simps split: if_splits)
    have d: "names_device v6 unhex j s \<longleftrightarrow> j = i" for j using None i by (auto simp: names_device_def)
    from Cons.IH [OF r bt_wf_insert [OF Cons.prems(2)]] i None show ?thesis
      by (auto simp: names_address_def map_filter_simps d bt_get_insert)
  qed
qed

text \<open>What the loop keeps of an eligible record, and when.\<close>

interpretation finding: browsing unhex "worker_browse unhex ok"
    "keep_step (\<lambda>p. ok p \<and> usable (found_addrs p) \<noteq> []) (\<lambda>p. usable (found_addrs p))" "\<lambda>s. s" for unhex ok
  by unfold_locales (subst worker_browse.simps, simp add: keep_step_def split: prod.split option.split peer_event.split)

text \<open>Where a device can be dialled at the end of a window, if it is one of those wanted.\<close>

definition live_addrs :: "(discovered_peer \<Rightarrow> bool) \<Rightarrow> peer_event list \<Rightarrow> device_id \<Rightarrow> sock_addr list option" where
  "live_addrs ok vs i =
     map_option (\<lambda>p. usable (found_addrs p)) (live_at (\<lambda>p. ok p \<and> usable (found_addrs p) \<noteq> []) vs i)"

lemma browse_gets:
  "bt_wf (worker_browse unhex ok es []) \<and> bt_get (worker_browse unhex ok es []) i = live_addrs ok (window unhex es) i"
  unfolding finding.over_window live_addrs_def by (rule kept)

section \<open>Who takes part\<close>

definition wanted_peer ::
    "(string \<Rightarrow> sock_addr option) \<Rightarrow> unhex \<Rightarrow> string list \<Rightarrow> device_id set \<Rightarrow> device_id \<Rightarrow> discovered_peer \<Rightarrow> bool" where
  "wanted_peer v6 unhex requested trusted self p \<longleftrightarrow>
     found_id p \<noteq> self \<and> found_id p \<in> trusted \<and> found_role p = Some ''worker'' \<and> found_protocol p = PROTOCOL_VERSION \<and>
     (requested = [] \<or> list_ex (names_device v6 unhex (found_id p)) requested)"

lemma find_missing: "bt_wf wanted \<Longrightarrow> find (\<lambda>(i, u). bt_get found i = None) wanted = None \<Longrightarrow>
    bt_get wanted i \<noteq> None \<Longrightarrow> bt_get found i \<noteq> None"
  by (auto simp: find_None_iff bt_get_iff)

text \<open>C21: The workers of a chat are exactly those asked for. The addresses named on the command line come
  first, each usable as given; after them, in the order of their ids, every paired worker of this
  protocol that was named (or any, when none was named) and whose last record or departure in the
  window left it an address. A device named by its id is among them, or there is an error.\<close>

theorem chat_selects:
  assumes "find_workers v6 unhex started es requested trusted self = Inr located"
  shows "\<exists>live. located = map (\<lambda>a. (None, [a])) (names_address v6 requested) @ map (\<lambda>(i, as). (Some i, as)) live \<and>
    list_all address_ok (names_address v6 requested) \<and> bt_wf live \<and>
    (\<forall>i. bt_get live i = live_addrs (wanted_peer v6 unhex requested trusted self) (window unhex es) i \<and>
       (list_ex (names_device v6 unhex i) requested \<longrightarrow> bt_get live i \<noteq> None))"
proof -
  let ?L = "\<lambda>i. live_addrs (wanted_peer v6 unhex requested trusted self) (window unhex es) i"
  from assms obtain e w where t: "name_targets v6 unhex trusted self requested [] [] = Inr (e, w)"
    and rest: "(if w = [] \<and> e \<noteq> [] then Inr e
       else rbind (map_err ChatDiscovery started) (\<lambda>_.
         let found = worker_browse unhex (eligible trusted self (requested = []) w) es [] in
         case find (\<lambda>(i, _). bt_get found i = None) w of
           Some (i, _) \<Rightarrow> Inl (WorkerUnavailable i)
         | None \<Rightarrow> Inr (e @ map (\<lambda>(i, as). (Some i, as)) found))) = Inr located"
    by (auto simp: find_workers_def rbind_eq_Inr)
  from name_targets_Inr [OF t bt_wf_Nil] have e: "e = map (\<lambda>a. (None, [a])) (names_address v6 requested)"
    and w: "bt_wf w" and addr: "list_all address_ok (names_address v6 requested)"
    and named: "\<And>i. (bt_get w i \<noteq> None) = list_ex (names_device v6 unhex i) requested" by auto
  show ?thesis
  proof (cases "w = [] \<and> e \<noteq> []")
    case True
    then have "requested \<noteq> []" using t by auto
    moreover have none: "\<not> list_ex (names_device v6 unhex i) requested" for i using named [of i] True by simp
    ultimately have "?L i = None" for i by (simp add: live_addrs_def live_at_none_ok wanted_peer_def)
    with True rest e addr none show ?thesis by (intro exI [of _ "[]"]) simp
  next
    case False
    let ?found = "worker_browse unhex (eligible trusted self (requested = []) w) es []"
    have ok: "eligible trusted self (requested = []) w = wanted_peer v6 unhex requested trusted self"
      unfolding fun_eq_iff eligible_def wanted_peer_def named by simp
    from False rest have loc: "located = e @ map (\<lambda>(i, as). (Some i, as)) ?found"
      and f: "find (\<lambda>(i, _). bt_get ?found i = None) w = None"
      by (auto simp: rbind_eq_Inr Let_def split: option.splits)
    have "list_ex (names_device v6 unhex i) requested \<longrightarrow> bt_get ?found i \<noteq> None" for i
      using find_missing [OF w f, of i] named [of i] by blast
    with loc e addr browse_gets [of unhex "eligible trusted self (requested = []) w" es] ok show ?thesis
      by (intro exI [of _ ?found]) auto
  qed
qed

definition gpu_peer :: device_id where "gpu_peer = DeviceId [1, 2, 3, 4, 5, 6, 7, 8]"

lemma example_found_workers:
  "find_workers (\<lambda>_. None) unhex_text (Inr ()) example_events [] {gpu_peer} (DeviceId [9]) =
     Inr [(Some gpu_peer, [\<lparr>ip = V4 167772161, port = 47900\<rparr>, \<lparr>ip = V4 2130706433, port = 47900\<rparr>])]"
  by (simp add: find_workers_def finding.over_window keep_step_def example_window example_usable eligible_def Let_def)
    (simp add: example_found_def gpu_peer_def)

lemma chat_selects_witness:
  "\<exists>live. bt_get live gpu_peer = Some [\<lparr>ip = V4 167772161, port = 47900\<rparr>, \<lparr>ip = V4 2130706433, port = 47900\<rparr>] \<and>
     bt_get live (DeviceId [9]) = None"
proof -
  let ?L = "live_addrs (wanted_peer (\<lambda>_. None) unhex_text [] {gpu_peer} (DeviceId [9])) (window unhex_text example_events)"
  have "?L gpu_peer = Some [\<lparr>ip = V4 167772161, port = 47900\<rparr>, \<lparr>ip = V4 2130706433, port = 47900\<rparr>]"
    by (simp add: live_addrs_def live_at_def example_window example_usable wanted_peer_def) (simp add: example_found_def gpu_peer_def)
  moreover have "?L (DeviceId [9]) = None"
    by (simp add: live_addrs_def live_at_def example_window example_usable wanted_peer_def)
  ultimately show ?thesis using chat_selects [OF example_found_workers] by metis
qed

definition fit_worker :: "chat_world \<Rightarrow> device_id \<Rightarrow> string \<Rightarrow> worker \<Rightarrow> bool" where
  "fit_worker w self wanted_rev v \<longleftrightarrow>
     wk_id v \<noteq> self \<and> cw_ask w (wk_id v) = Some (Inr (InferenceInfoIs (wk_caps v))) \<and>
     revision (wk_caps v) = wanted_rev \<and> \<not> busy (wk_caps v) \<and> is_gpu (device (wk_caps v))"

lemma connect_located_Inr:
  "connect_located hex w store self wanted_rev ls seen ws = Inr out \<Longrightarrow>
     \<exists>new. out = ws @ new \<and> distinct (map wk_id new) \<and> wk_id ` set new \<inter> seen = {} \<and>
       list_all (fit_worker w self wanted_rev) new \<and>
       list_all2 (\<lambda>(expected, addrs) v. matches expected (wk_id v) \<and> connect_any (cw_bind w) (cw_dial w) addrs = Inr (wk_id v)) ls new"
proof (induction hex w store self wanted_rev ls seen ws rule: connect_located.induct)
  case (2 hex w store self wanted_rev expected addrs ls seen ws)
  from "2.prems" obtain i caps where c: "connect_any (cw_bind w) (cw_dial w) addrs = Inr i"
      "matches expected i" "i \<noteq> self" "i \<notin> seen" "capability_of i (cw_ask w i) = Inr caps" "check_worker caps wanted_rev = Inr ()"
    and r: "connect_located hex w store self wanted_rev ls (insert i seen)
        (ws @ [\<lparr>wk_id = i, wk_name = (case trust_get store i of None \<Rightarrow> show_id hex i | Some p \<Rightarrow> paired_peer.name p), wk_caps = caps\<rparr>]) = Inr out"
    by (auto simp: result_simps split: if_splits)
  let ?v = "\<lparr>wk_id = i, wk_name = (case trust_get store i of None \<Rightarrow> show_id hex i | Some p \<Rightarrow> paired_peer.name p), wk_caps = caps\<rparr>"
  have a: "cw_ask w i = Some (Inr (InferenceInfoIs caps))"
    using c(5) by (auto simp: capability_of_def split: option.splits sum.splits response.splits if_splits)
  have k: "fit_worker w self wanted_rev ?v"
    using c(3,6) a by (auto simp: check_worker_def is_gpu_def fit_worker_def split: if_splits)
  from "2.IH" [OF _ c(4) r] c(2,3) obtain new where "out = (ws @ [?v]) @ new"
      "distinct (map wk_id new)" "wk_id ` set new \<inter> insert i seen = {}" "list_all (fit_worker w self wanted_rev) new"
      "list_all2 (\<lambda>(expected, addrs) v. matches expected (wk_id v) \<and> connect_any (cw_bind w) (cw_dial w) addrs = Inr (wk_id v)) ls new"
    by auto
  with c k show ?case by (intro exI [of _ "?v # new"]) auto
qed simp

text \<open>C22: Only fit workers take part in a chat, and each of them once. When the workers are connected there
  is at least one, one for every target selected and in the same order: it answered at an address of
  that target with the identity asked for, it is not this device, it is no other target's device, and
  by its own report it runs this engine, is idle and has a GPU.\<close>

theorem chat_workers_fit:
  assumes "connect_workers v6 unhex hex started es w (Inr store) self requested wanted_rev = Inr ws"
  shows "ws \<noteq> [] \<and> distinct (map wk_id ws) \<and> list_all (fit_worker w self wanted_rev) ws \<and>
    (\<exists>located. find_workers v6 unhex started es requested (paired_peer.device_id ` set (trust_peers store)) self = Inr located \<and>
       list_all2 (\<lambda>(expected, addrs) v. matches expected (wk_id v) \<and> connect_any (cw_bind w) (cw_dial w) addrs = Inr (wk_id v))
         located ws)"
proof -
  from assms obtain located where l: "located \<noteq> []"
      "find_workers v6 unhex started es requested (paired_peer.device_id ` set (trust_peers store)) self = Inr located"
      "connect_located hex w store self wanted_rev located {} [] = Inr ws"
    by (auto simp: connect_workers_def result_simps split: if_splits)
  from connect_located_Inr [OF l(3)] l show ?thesis by auto
qed

section \<open>The command line\<close>

text \<open>\<open>s.split(c).collect()\<close>, as the engine reads its lists.\<close>

fun splits :: "char \<Rightarrow> string \<Rightarrow> string list" where
  "splits c [] = [[]]"
| "splits c (x # xs) =
     (if x = c then [] # splits c xs
      else case splits c xs of [] \<Rightarrow> [[x]] | s # ss \<Rightarrow> (x # s) # ss)"

lemma join_empty: "join sep xs = [] \<longleftrightarrow> xs = [] \<or> xs = [[]] \<or> (sep = [] \<and> list_all (\<lambda>x. x = []) xs)"
  by (induction sep xs rule: join.induct) auto

lemma splits_plain: "c \<notin> set s \<Longrightarrow> splits c s = [s]"
  by (induction s) auto

lemma splits_append: "c \<notin> set s \<Longrightarrow> splits c (s @ c # t) = s # splits c t"
  by (induction s) auto

lemma splits_join: "xs \<noteq> [] \<Longrightarrow> list_all (\<lambda>s. c \<notin> set s) xs \<Longrightarrow> splits c (join [c] xs) = xs"
  by (induction "[c]" xs rule: join.induct) (simp_all add: splits_plain splits_append)

lemma no_comma_nat: "CHR '','' \<notin> set (show_nat n)"
  using show_nat_digits [of n] by (auto simp: list_all_iff is_digit_def)

lemma bind_proxies_Inr: "bind_proxies f ws = Inr ps \<Longrightarrow> list_all2 (\<lambda>w p. f (wk_id w) = Inr p) ws ps"
  by (induction ws arbitrary: ps) (auto simp: result_simps)

lemma place_chat_Inr:
  assumes "place_chat m o' = Some (Inr c)"
  obtains local where "pc_devices c = map (\<lambda>w. device (wk_caps w)) (pc_workers c) @ [local]" "is_gpu local"
    "build (pc_inventory c) (co_context o') (pc_devices c) (push_bit 20 (co_reserve_mib o')) = Some (Inr (pc_layers c))"
    "co_context o' \<le> train_context (facts (pc_inventory c))"
    "if co_local o' then pc_workers c = [] else cm_connect m (co_worker o') ENGINE_REVISION = Inr (pc_workers c)"
  using assms
  by (auto simp: place_chat_def Let_def result_simps not_less split: sum.splits if_splits dest!: conjunct2 [OF select_device_Inr])

lemma built_shares:
  assumes "build m ctx ds reserve = Some (Inr shares)"
  shows "length shares = length ds \<and> sum_list shares = layers (facts m) + 1 \<and>
    (\<exists>ks. shares_ok m ctx ds reserve ks \<and> shares = incr_last ks)"
proof -
  have d: "dimensions_ok m" and c: "count_ok m ds"
    using assms by (auto simp: build_def count_ok_def Let_def not_le split: if_splits)
  from build_cases [OF d c, of ctx reserve] assms obtain ks
    where ks: "shares_ok m ctx ds reserve ks" "shares = incr_last ks"
    by (auto split: if_splits)
  from admissible_shape [OF ks(1) [unfolded shares_ok_def]]
  have s: "length ks = length ds" "sum_list ks = length (layer_bytes m)" by auto
  with c have "ks \<noteq> []" by (auto simp: count_ok_def)
  with incr_last_shape [OF this] s ks d show ?thesis by (auto simp: dimensions_ok_def Let_def)
qed


text \<open>C12: What the engine is told matches the machines. The command line of a placed chat names, separated
  by commas, the proxy of every worker in order, as many device names as there are GPUs with this
  machine's GPU last, and one share of layers for each of them; read back, the lists are these. The
  shares together are all layers and the output, and each fits the memory of the GPU at its place.\<close>

theorem chat_command_line:
  assumes "place_chat m o' = Some (Inr c)" and "bind_proxies f (pc_workers c) = Inr ports"
    and "CHR '','' \<notin> set (gpu_name (last (pc_devices c)))"
  shows "\<exists>local ks rpc names split pre post.
    engine_args o' c ports = (if pc_workers c = [] then [] else [''--rpc'', rpc]) @ pre @ [''--device'', names] @
      [''--split-mode'', ''layer'', ''--gpu-layers'', ''all'', ''--tensor-split'', split] @ post \<and>
    list_all2 (\<lambda>w p. f (wk_id w) = Inr p) (pc_workers c) ports \<and>
    (pc_workers c = [] \<or> splits CHR '','' rpc = map proxy_address ports) \<and>
    pc_devices c = map (\<lambda>w. device (wk_caps w)) (pc_workers c) @ [local] \<and> is_gpu local \<and>
    splits CHR '','' names = map (\<lambda>i. ''RPC'' @ show_nat i) [0..<length (pc_workers c)] @ [gpu_name local] \<and>
    splits CHR '','' split = map show_nat (pc_layers c) \<and>
    length (pc_layers c) = length (pc_devices c) \<and> sum_list (pc_layers c) = layers (facts (pc_inventory c)) + 1 \<and>
    pc_layers c = incr_last ks \<and>
    shares_ok (pc_inventory c) (co_context o') (pc_devices c) (push_bit 20 (co_reserve_mib o')) ks"
proof -
  from assms(1) obtain l where d: "pc_devices c = map (\<lambda>w. device (wk_caps w)) (pc_workers c) @ [l]" "is_gpu l"
    and b: "build (pc_inventory c) (co_context o') (pc_devices c) (push_bit 20 (co_reserve_mib o')) = Some (Inr (pc_layers c))"
    by (rule place_chat_Inr)
  from built_shares [OF b] obtain ks where ks: "length (pc_layers c) = length (pc_devices c)"
      "sum_list (pc_layers c) = layers (facts (pc_inventory c)) + 1" "pc_layers c = incr_last ks"
      "shares_ok (pc_inventory c) (co_context o') (pc_devices c) (push_bit 20 (co_reserve_mib o')) ks" by blast
  have p: "list_all2 (\<lambda>w p. f (wk_id w) = Inr p) (pc_workers c) ports" by (rule bind_proxies_Inr [OF assms(2)])
  then have same: "ports = [] \<longleftrightarrow> pc_workers c = []" by auto
  let ?rpc = "join '','' (map proxy_address ports)"
  have rpc: "ports \<noteq> [] \<Longrightarrow> splits CHR '','' ?rpc = map proxy_address ports"
    by (rule splits_join) (simp_all add: list_all_iff proxy_address_def no_comma_nat)
  have rpc_empty: "?rpc = [] \<longleftrightarrow> ports = []"
    by (auto simp: neq_Nil_conv proxy_address_def join_empty)
  have names: "splits CHR '','' (join '','' (device_names c)) = device_names c"
    using assms(3) by (intro splits_join) (auto simp: device_names_def list_all_iff no_comma_nat)
  have split: "splits CHR '','' (join '','' (map show_nat (pc_layers c))) = map show_nat (pc_layers c)"
    using ks(1) d(1) by (intro splits_join) (auto simp: list_all_iff no_comma_nat)
  have dn: "device_names c = map (\<lambda>i. ''RPC'' @ show_nat i) [0..<length (pc_workers c)] @ [gpu_name l]"
    by (simp add: device_names_def d(1))
  define pre where "pre = [''--model'', pc_model c]"
  define post where "post = [''--fit'', ''off'', ''--simple-io'', ''--log-verbosity'', ''4'',
       ''--cache-type-k'', ''f16'', ''--cache-type-v'', ''f16'',
       ''--ctx-size'', show_nat (co_context o'), ''--predict'', show_nat (co_tokens o')] @
      (case co_prompt o' of Some prompt \<Rightarrow> [''--prompt'', prompt, ''--single-turn'', ''--temp'', ''0''] | None \<Rightarrow> [])"
  have args: "engine_args o' c ports = (if pc_workers c = [] then [] else [''--rpc'', ?rpc]) @ pre @
      [''--device'', join '','' (device_names c)] @
      [''--split-mode'', ''layer'', ''--gpu-layers'', ''all'', ''--tensor-split'', join '','' (map show_nat (pc_layers c))] @ post"
    by (simp add: engine_args_def Let_def rpc_empty same pre_def post_def)
  have "pc_workers c = [] \<or> splits CHR '','' ?rpc = map proxy_address ports" using rpc same by blast
  note known = args p this d trans [OF names dn] split ks
  show ?thesis by (intro exI conjI, rule known) (rule known)+
qed


definition example_worker :: worker where
  "example_worker = \<lparr>wk_id = gpu_peer, wk_name = ''gpu'',
     wk_caps = \<lparr>revision = ENGINE_REVISION, device = example_gpu 8, busy = False\<rparr>\<rparr>"

definition example_chat_options :: chat_options where
  "example_chat_options = \<lparr>co_model = ''m.gguf'', co_context = 0, co_tokens = 16, co_prompt = Some ''hi'', co_worker = [],
     co_local = False, co_device = None, co_engine_dir = Some ''/e'', co_reserve_mib = 0\<rparr>"

definition example_machine :: chat_machine where
  "example_machine = \<lparr>cm_engine_dir = None, cm_home = None, cm_text = (\<lambda>_. Some ENGINE_REVISION), cm_is_file = (\<lambda>_. True),
     cm_canonical = Inr, cm_inventory = (\<lambda>_. Inr example_model), cm_devices = (\<lambda>_. Inr [example_gpu 3]),
     cm_connect = (\<lambda>_ _. Inr [example_worker])\<rparr>"

definition example_placed :: placed_chat where
  "example_placed = \<lparr>pc_engine = ''/e'', pc_model = ''m.gguf'', pc_inventory = example_model, pc_workers = [example_worker],
     pc_devices = [example_gpu 8, example_gpu 3], pc_layers = [1, 3]\<rparr>"

lemma example_placing: "place_chat example_machine example_chat_options = Some (Inr example_placed)"
proof -
  have l: "Runtime.locate (Some ''/e'') None None (\<lambda>_. Some ENGINE_REVISION) (\<lambda>_. True) = Inr ''/e''"
    by (simp add: Runtime.locate_def result_simps trim_no_ws ENGINE_REVISION_def is_ws_def)
  have g: "select_device [example_gpu 3] None = Inr (example_gpu 3)"
    by (simp add: select_device_def result_simps is_gpu_def example_gpu_def)
  show ?thesis
    by (simp add: place_chat_def example_machine_def example_chat_options_def l g result_simps example_plan example_placed_def
        example_worker_def)
qed

lemma chat_command_line_witness:
  "sum_list (pc_layers example_placed) = layers (facts (pc_inventory example_placed)) + 1 \<and>
   (\<exists>ports. bind_proxies (\<lambda>_. Inr 47902) (pc_workers example_placed) = Inr ports \<and>
     (\<exists>rpc pre. engine_args example_chat_options example_placed ports = [''--rpc'', rpc] @ pre \<and>
        splits CHR '','' rpc = map proxy_address ports))"
proof -
  have b: "bind_proxies (\<lambda>_. Inr 47902) (pc_workers example_placed) = Inr [47902]" and w: "pc_workers example_placed \<noteq> []"
    by (simp_all add: example_placed_def result_simps)
  have n: "CHR '','' \<notin> set (gpu_name (last (pc_devices example_placed)))"
    by (simp add: example_placed_def example_gpu_def)
  from chat_command_line [OF example_placing b n] w b show ?thesis by auto
qed

definition gpu_world :: chat_world where
  "gpu_world = \<lparr>cw_bind = (\<lambda>_. Inr ()), cw_dial = (\<lambda>a. if is_loopback (ip a) then Inr gpu_peer else Inl Rejected),
     cw_ask = (\<lambda>_. Some (Inr (InferenceInfoIs (wk_caps example_worker))))\<rparr>"

definition gpu_store :: trust_store where
  "gpu_store = [(gpu_peer, \<lparr>device_id = gpu_peer, public_key = [1], name = ''gpu'', platform = ''linux'',
     paired_at = 0, introduced_by = None\<rparr>)]"

lemma chat_workers_fit_witness:
  "connect_workers (\<lambda>_. None) unhex_text Discovery.hex_text (Inr ()) example_events gpu_world (Inr gpu_store) (DeviceId [9]) []
     ENGINE_REVISION = Inr [example_worker] \<and>
   list_all (fit_worker gpu_world (DeviceId [9]) ENGINE_REVISION) [example_worker]"
proof -
  have t: "paired_peer.device_id ` set (trust_peers gpu_store) = {gpu_peer}"
    by (simp add: gpu_store_def trust_peers_def bt_values_def)
  have "connect_workers (\<lambda>_. None) unhex_text Discovery.hex_text (Inr ()) example_events gpu_world (Inr gpu_store) (DeviceId [9]) []
     ENGINE_REVISION = Inr [example_worker]"
    unfolding connect_workers_def
    by (simp add: result_simps t example_found_workers gpu_world_def connect_any_def matches_def capability_of_def check_worker_def)
      (simp add: example_worker_def example_gpu_def gpu_peer_def trust_get_def bt_get_def gpu_store_def)
  from this chat_workers_fit [OF this] show ?thesis by blast
qed

section \<open>How a chat ends\<close>




text \<open>The engine never outlives the chat, and the part of its log that is shown is its end, of 8 KiB at most.\<close>

lemma engine_stopped: "ce_killed (end_chat lossy written ws ev) \<or> (\<exists>ok. ev = Exited (Inr ok))"
  by (cases ev) (auto simp: end_chat_def isl_def intro: sum.exhaust)

lemma log_tail_end:
  "log_tail lossy (Inr bs) = Inr (lossy (drop (length bs - 8192) bs)) \<and> length (drop (length bs - 8192) bs) = min (length bs) 8192"
  by (auto simp: log_tail_def result_simps)

text \<open>The engine sees none of its own variables of the surrounding environment.\<close>

lemma engine_env_clean: "starts_with ''LLAMA_ARG_'' n \<Longrightarrow> engine_env vars n = None"
  by (auto simp: engine_env_def starts_with_def)

end
