(* ===== verification/Host_Facts.thy ===== *)
theory Host_Facts
  imports Startup
begin

text \<open>
  \<open>crates/latticed/src/host.rs\<close>: what a machine says of itself. The name the system reports, the text of
  \<open>/proc/meminfo\<close> and the build's platform are given. The lemmas show what is read of them.
\<close>

section \<open>The code\<close>

text \<open>\<open>text.lines()\<close>: split at every newline, a carriage return before it dropped, no empty last line.\<close>

definition chomp :: "string \<Rightarrow> string" where
  "chomp s = (if s \<noteq> [] \<and> last s = CHR 0x0D then butlast s else s)"

fun lines_from :: "string \<Rightarrow> string \<Rightarrow> string list" where
  "lines_from acc [] = (if acc = [] then [] else [acc])"
| "lines_from acc (c # cs) = (if c = CHR 0x0A then chomp acc # lines_from [] cs else lines_from (acc @ [c]) cs)"

definition lines :: "string \<Rightarrow> string list" where
  "lines s = lines_from [] s"

text \<open>\<open>s.split_whitespace().next()\<close>.\<close>

definition first_word :: "string \<Rightarrow> string option" where
  "first_word s = (let t = dropWhile is_ws s in if t = [] then None else Some (takeWhile (\<lambda>c. \<not> is_ws c) t))"

text \<open>The product wraps around, as it does in a release build.\<close>

definition parse_meminfo :: "string \<Rightarrow> u64" where
  "parse_meminfo s =
     (case List.map_filter (strip_prefix ''MemTotal:'') (lines s) of
        [] \<Rightarrow> 0
      | found # _ \<Rightarrow>
          (case Option.bind (first_word found) (parse_uint u64_max) of
             None \<Rightarrow> 0
           | Some kb \<Rightarrow> of_nat kb * 1024))"

definition system_memory :: "string option \<Rightarrow> u64" where
  "system_memory meminfo = (case meminfo of None \<Rightarrow> 0 | Some s \<Rightarrow> parse_meminfo s)"

text \<open>The buffer of a successful call holds the name up to a NUL; \<open>lossy\<close> reads it as UTF-8.\<close>

definition hostname :: "(bytes \<Rightarrow> string) \<Rightarrow> bytes option \<Rightarrow> string" where
  "hostname lossy buf =
     (case buf of
        None \<Rightarrow> ''unknown''
      | Some bs \<Rightarrow>
          let n = lossy (takeWhile (\<lambda>b. b \<noteq> 0) bs) in
          case strip_suffix ''.local'' n of Some short \<Rightarrow> short | None \<Rightarrow> n)"

definition detect :: "(bytes \<Rightarrow> string) \<Rightarrow> string \<Rightarrow> string \<Rightarrow> bytes option \<Rightarrow> string option \<Rightarrow> facts_of_host" where
  "detect lossy os cpu buf meminfo =
     \<lparr>fh_name = hostname lossy buf, fh_platform = os @ ''-'' @ cpu, fh_memory = unat (system_memory meminfo)\<rparr>"

section \<open>Lemmas\<close>

lemma lines_from_plain: "CHR 0x0A \<notin> set l \<Longrightarrow> lines_from acc (l @ CHR 0x0A # s) = chomp (acc @ l) # lines_from [] s"
  by (induction l arbitrary: acc) auto

lemma lines_append: "lines (concat (map (\<lambda>l. l @ [CHR 0x0A]) ls) @ s) = map chomp ls @ lines s" if "list_all (\<lambda>l. CHR 0x0A \<notin> set l) ls"
  using that by (induction ls) (simp_all add: lines_def lines_from_plain)

lemma first_word_padded:
  assumes "list_all is_ws pad" and "w \<noteq> []" and "list_all (\<lambda>c. \<not> is_ws c) w" and "is_ws (CHR '' '')"
  shows "first_word (pad @ w @ CHR '' '' # rest) = Some w"
proof -
  have d: "dropWhile is_ws (pad @ w @ CHR '' '' # rest) = w @ CHR '' '' # rest"
    using assms(1-3) by (induction pad) (auto simp: neq_Nil_conv)
  have t: "takeWhile (\<lambda>c. \<not> is_ws c) (w @ CHR '' '' # rest) = w"
    using assms(3,4) by (induction w) auto
  show ?thesis using d t by (simp add: first_word_def Let_def)
qed

lemma digits_not_ws: "list_all is_digit s \<Longrightarrow> list_all (\<lambda>c. \<not> is_ws c) s"
  by (auto simp: list_all_iff is_digit_def is_ws_def)

lemma strip_prefix_None: "\<not> starts_with p l \<Longrightarrow> strip_prefix p l = None"
  by (simp add: starts_with_def strip_prefix_def)

lemma not_starts_chomp: "\<not> starts_with p l \<Longrightarrow> \<not> starts_with p (chomp l)"
  by (auto simp: chomp_def starts_with_def butlast_conv_take min_def split: if_splits)

lemma map_filter_append: "List.map_filter f (xs @ ys) = List.map_filter f xs @ List.map_filter f ys"
  by (simp add: List.map_filter_def)

lemma show_nat_not_Nil: "show_nat n \<noteq> []"
  by (simp add: show_nat.simps [of n])

text \<open>The memory total is found wherever its line stands: for a text of lines that ends like the kernel's,
  the first line of that name decides, and the total is its number of kibibytes in bytes, exactly so as
  long as that fits 64 bits.\<close>

theorem meminfo_exact:
  assumes "list_all (\<lambda>l. CHR 0x0A \<notin> set l \<and> \<not> starts_with ''MemTotal:'' l) before" and "list_all is_ws pad"
    and "CHR 0x0A \<notin> set pad" and "kb \<le> u64_max"
  shows "parse_meminfo (concat (map (\<lambda>l. l @ [CHR 0x0A]) (before @ [''MemTotal:'' @ pad @ show_nat kb @ '' kB''])) @ rest) =
    of_nat kb * 1024"
proof -
  let ?w = "pad @ show_nat kb @ '' kB''"
  let ?ls = "before @ [''MemTotal:'' @ ?w]"
  have nl: "list_all (\<lambda>l. CHR 0x0A \<notin> set l) ?ls"
    using assms(1,3) show_nat_digits [of kb] by (auto simp: list_all_iff is_digit_def)
  have none: "List.map_filter (strip_prefix ''MemTotal:'') (map chomp before) = []"
    using assms(1) by (induction before) (auto simp: map_filter_simps strip_prefix_None not_starts_chomp)
  define total where "total = ''MemTotal:'' @ ?w"
  have c: "chomp total = total" "strip_prefix ''MemTotal:'' total = Some ?w"
    unfolding total_def by (simp_all only: strip_prefix_append) (simp add: chomp_def)
  have "List.map_filter (strip_prefix ''MemTotal:'') (map chomp ?ls @ lines rest) =
      ?w # List.map_filter (strip_prefix ''MemTotal:'') (lines rest)"
    unfolding total_def [symmetric] by (simp add: map_filter_append none c map_filter_simps)
  moreover have "first_word ?w = Some (show_nat kb)"
    using first_word_padded [OF assms(2) _ digits_not_ws [OF show_nat_digits], of kb "''kB''"] show_nat_not_Nil
    by (simp add: is_ws_def)
  ultimately show ?thesis
    by (simp only: parse_meminfo_def lines_append [OF nl] list.case) (simp add: parse_show_nat [OF assms(4)])
qed

lemma meminfo_exact_witness:
  "parse_meminfo (''MemFree: 5 kB'' @ [CHR 0x0A] @ ''MemTotal:  '' @ show_nat 32 @ '' kB'' @ [CHR 0x0A] @ ''Swap: 1'') = 32768"
  using meminfo_exact [of "[''MemFree: 5 kB'']" "''  ''" 32 "''Swap: 1''"]
  by (simp add: starts_with_def is_ws_def)

end
