(* ===== verification/Commands.thy ===== *)
theory Commands
  imports Locate Host_Facts Node Pairing_Session Mesh Probe
begin

text \<open>
  The commands of \<open>crates/latticed/src/main.rs\<close> beside those with files of their own: pairing by hand
  (\<open>host\<close>, \<open>pair\<close>), the list of paired devices (\<open>peers\<close>, \<open>unpair\<close>), introducing them to one another
  (\<open>provision\<close>), serving, probing a link, and what \<open>generate\<close> does before the pipeline runs. The
  properties show that pairing by hand makes two devices trust each other, and that provisioning makes
  all the devices it reached know one another.
\<close>

section \<open>Pairing by hand\<close>

datatype command_error =
    StoreError net_error
  | CodeError net_error
  | TargetError locate_error
  | EndpointError net_error
  | DiscoveryError net_error
  | NobodyConnected
  | PairingNotDone net_error
  | NotPaired device_id
  | UnknownWire string
  | HeaderUnreadable engine_error
  | ModelNotReadable string engine_error
  | TooFewPeers nat
  | ProbeError net_error
  | GenerateError run_error

text \<open>A connection as a command sees it: the device at its other end, its streams, and the binding of its channel.\<close>

record open_conn =
  oc_peer :: device_id
  oc_channel :: channel
  oc_binding :: bytes

text \<open>What the two pairing commands share: the exchange, then the store, read only now, with the new peer.\<close>

definition pair_and_save ::
    "'st primitives \<Rightarrow> (bytes \<Rightarrow> string + paired_peer list) \<Rightarrow> (paired_peer list \<Rightarrow> string + bytes) \<Rightarrow> nat \<Rightarrow> bytes \<Rightarrow>
       pairing_code \<Rightarrow> role \<Rightarrow> open_conn \<Rightarrow> party \<Rightarrow> bytes disk \<Rightarrow> (command_error + paired_peer) \<times> bytes disk" where
  "pair_and_save E from_json to_json now random code r conn me d =
     (case fst (exchange E now random code r (oc_channel conn) (oc_binding conn) me) of
        Inl e \<Rightarrow> (Inl (PairingNotDone e), d)
      | Inr peer \<Rightarrow>
          (case trust_load from_json d of
             Inl e \<Rightarrow> (Inl (StoreError e), d)
           | Inr ps \<Rightarrow>
               (case trust_insert to_json peer (ps, d) of
                  (Inl e, _, d) \<Rightarrow> (Inl (StoreError e), d)
                | (Inr _, _, d) \<Rightarrow> (Inr peer, d))))"

record host_world =
  hw_bind :: "sock_addr \<Rightarrow> net_error + unit"
  hw_local :: "net_error + sock_addr"
  hw_daemon :: "string + unit"
  hw_accept_info :: "service_info \<Rightarrow> string + unit"
  hw_register :: "service_info \<Rightarrow> string + unit"
  hw_incoming :: "(net_error + open_conn) option"

definition advertisement_of :: "device_id \<Rightarrow> facts_of_host \<Rightarrow> sock_addr \<Rightarrow> advertisement" where
  "advertisement_of self about at =
     \<lparr>ad_id = self, ad_name = fh_name about, ad_platform = fh_platform about, ad_memory = fh_memory about, ad_port = port at\<rparr>"

definition host_listen :: "(bytes \<Rightarrow> string) \<Rightarrow> host_world \<Rightarrow> device_id \<Rightarrow> facts_of_host \<Rightarrow> nat \<Rightarrow> command_error + open_conn" where
  "host_listen hex w self about at =
     rbind (map_err EndpointError (hw_bind w (bind_addr at))) (\<lambda>_.
     rbind (map_err EndpointError (hw_local w)) (\<lambda>addr.
     rbind (map_err DiscoveryError (new_discovery (hw_daemon w))) (\<lambda>disc.
     rbind (map_err DiscoveryError (fst (advertise hex (hw_accept_info w) (hw_register w) (advertisement_of self about addr) disc))) (\<lambda>_.
     rbind (ok_or NobodyConnected (hw_incoming w)) (map_err EndpointError)))))"

definition party_of :: "bytes \<Rightarrow> facts_of_host \<Rightarrow> party" where
  "party_of key about = \<lparr>party_key = key, party_name = fh_name about, party_platform = fh_platform about\<rparr>"

text \<open>One code, one connection, one attempt. \<open>number\<close> is the code drawn.\<close>

definition host_pairing ::
    "(bytes \<Rightarrow> string) \<Rightarrow> 'st primitives \<Rightarrow> (bytes \<Rightarrow> string + paired_peer list) \<Rightarrow> (paired_peer list \<Rightarrow> string + bytes) \<Rightarrow> nat \<Rightarrow>
       bytes \<Rightarrow> nat \<Rightarrow> host_world \<Rightarrow> device_id \<Rightarrow> bytes \<Rightarrow> facts_of_host \<Rightarrow> nat \<Rightarrow> bytes disk \<Rightarrow>
       (command_error + paired_peer) \<times> bytes disk" where
  "host_pairing hex E from_json to_json now random number w self key about at d =
     (case host_listen hex w self about at of
        Inl e \<Rightarrow> (Inl e, d)
      | Inr conn \<Rightarrow>
          pair_and_save E from_json to_json now random (code_generate number) Listener conn (party_of key about) d)"

record pair_world =
  pw_v6 :: "string \<Rightarrow> sock_addr option"
  pw_unhex :: unhex
  pw_started :: "net_error + unit"
  pw_events :: "service_event list"
  pw_bind :: "sock_addr \<Rightarrow> net_error + unit"
  pw_dial :: "sock_addr \<Rightarrow> net_error + open_conn"

definition pair_dial :: "pair_world \<Rightarrow> device_id \<Rightarrow> string \<Rightarrow> string \<Rightarrow> command_error + pairing_code \<times> open_conn" where
  "pair_dial w self target typed =
     rbind (map_err CodeError (code_parse typed)) (\<lambda>code.
     rbind (map_err TargetError (resolve (pw_v6 w) (pw_unhex w) (pw_started w) target self (pw_events w))) (\<lambda>addrs.
     rbind (map_err TargetError (connect_any (pw_bind w) (pw_dial w) addrs)) (\<lambda>conn. Inr (code, conn))))"

definition pair ::
    "'st primitives \<Rightarrow> (bytes \<Rightarrow> string + paired_peer list) \<Rightarrow> (paired_peer list \<Rightarrow> string + bytes) \<Rightarrow> nat \<Rightarrow> bytes \<Rightarrow>
       pair_world \<Rightarrow> device_id \<Rightarrow> bytes \<Rightarrow> facts_of_host \<Rightarrow> string \<Rightarrow> string \<Rightarrow> bytes disk \<Rightarrow>
       (command_error + paired_peer) \<times> bytes disk" where
  "pair E from_json to_json now random w self key about target typed d =
     (case pair_dial w self target typed of
        Inl e \<Rightarrow> (Inl e, d)
      | Inr (code, conn) \<Rightarrow>
          pair_and_save E from_json to_json now random code Dialer conn (party_of key about) d)"

section \<open>The GPUs\<close>

text \<open>\<open>located\<close> is the engine found, \<open>list_gpus\<close> its list of devices; the result is what is printed, as JSON or as
  the devices.\<close>

definition devices_command ::
    "string + string \<Rightarrow> (string \<Rightarrow> string + gpu_device list) \<Rightarrow> (gpu_device list \<Rightarrow> string + string) \<Rightarrow> bool \<Rightarrow>
       string + string + gpu_device list" where
  "devices_command located list_gpus to_json json =
     rbind located (\<lambda>dir.
     rbind (list_gpus dir) (\<lambda>ds.
     if json then rbind (to_json ds) (\<lambda>text. Inr (Inl text)) else Inr (Inr ds)))"

section \<open>The paired devices\<close>

definition peers_command :: "(bytes \<Rightarrow> string) \<Rightarrow> (bytes \<Rightarrow> string + paired_peer list) \<Rightarrow> bytes disk \<Rightarrow>
    command_error + (device_id \<times> string \<times> string \<times> string) list" where
  "peers_command hex from_json d =
     rbind (map_err StoreError (trust_load from_json d)) (\<lambda>ps.
       Inr (map (\<lambda>p. (paired_peer.device_id p, paired_peer.name p, paired_peer.platform p, origin hex p)) (trust_peers ps)))"

definition unpair ::
    "(bytes \<Rightarrow> string + paired_peer list) \<Rightarrow> (paired_peer list \<Rightarrow> string + bytes) \<Rightarrow> device_id \<Rightarrow> bytes disk \<Rightarrow>
       (command_error + unit) \<times> bytes disk" where
  "unpair from_json to_json i d =
     (case trust_load from_json d of
        Inl e \<Rightarrow> (Inl (StoreError e), d)
      | Inr ps \<Rightarrow>
          (case trust_remove to_json i (ps, d) of
             (Inl e, _, d) \<Rightarrow> (Inl (StoreError e), d)
           | (Inr removed, _, d) \<Rightarrow> (if removed then Inr () else Inl (NotPaired i), d)))"

section \<open>Provisioning\<close>

datatype provisioned = Skipped | Introduced nat nat nat | ProvisionRefused string | UnexpectedReply response

definition outcome_of :: "nat \<Rightarrow> response \<Rightarrow> provisioned" where
  "outcome_of introduced r =
     (case r of
        Provisioned added known \<Rightarrow> Introduced added introduced known
      | Refused why \<Rightarrow> ProvisionRefused why
      | other \<Rightarrow> UnexpectedReply other)"

text \<open>
  \<open>dial\<close> says what a dial of a device at an address (as text) gives, and \<open>ask\<close> what a request over a
  connection does to the world of the other devices and what it returns.
\<close>

fun provision_each ::
    "(device_id \<Rightarrow> string) \<Rightarrow> (sock_addr \<Rightarrow> string) \<Rightarrow> (device_id \<Rightarrow> string \<Rightarrow> net_error + link) \<Rightarrow>
       (link \<Rightarrow> request \<Rightarrow> 'w \<Rightarrow> (net_error + response) \<times> 'w) \<Rightarrow> (device_id, sock_addr list) btree \<Rightarrow> paired_peer list \<Rightarrow>
       paired_peer list \<Rightarrow> mesh \<Rightarrow> 'w \<Rightarrow> (command_error + provisioned list) \<times> mesh \<times> 'w" where
  "provision_each show_dev show_addr dial ask located peers [] m w = (Inr [], m, w)"
| "provision_each show_dev show_addr dial ask located peers (p # ps) m w =
     (case bt_get located (paired_peer.device_id p) of
        None \<Rightarrow>
          (case provision_each show_dev show_addr dial ask located peers ps m w of
             (r, m, w) \<Rightarrow> (rbind r (\<lambda>os. Inr (Skipped # os)), m, w))
      | Some addrs \<Rightarrow>
          (case mesh_connect show_dev (dial (paired_peer.device_id p)) (paired_peer.device_id p) (map show_addr addrs) m of
             (Inl e, m) \<Rightarrow> (Inl (EndpointError e), m, w)
           | (Inr c, m) \<Rightarrow>
               let roster = roster_for (paired_peer.device_id p) peers in
               (case ask c (Provision roster) w of
                  (Inl e, w) \<Rightarrow> (Inl (EndpointError e), m, w)
                | (Inr r, w) \<Rightarrow>
                    (case provision_each show_dev show_addr dial ask located peers ps m w of
                       (rs, m, w) \<Rightarrow> (rbind rs (\<lambda>os. Inr (outcome_of (length roster) r # os)), m, w)))))"

definition provision_mesh ::
    "(device_id \<Rightarrow> string) \<Rightarrow> (sock_addr \<Rightarrow> string) \<Rightarrow> (device_id \<Rightarrow> string \<Rightarrow> net_error + link) \<Rightarrow>
       (link \<Rightarrow> request \<Rightarrow> 'w \<Rightarrow> (net_error + response) \<times> 'w) \<Rightarrow> unhex \<Rightarrow> net_error + unit \<Rightarrow> service_event list \<Rightarrow>
       (sock_addr \<Rightarrow> net_error + unit) \<Rightarrow> (bytes \<Rightarrow> string + paired_peer list) \<Rightarrow> bytes disk \<Rightarrow> device_id \<Rightarrow> 'w \<Rightarrow>
       (command_error + provisioned list) \<times> 'w" where
  "provision_mesh show_dev show_addr dial ask unhex started es bind from_json d self w =
     (let ready =
        rbind (map_err StoreError (trust_load from_json d)) (\<lambda>ps.
        let peers = trust_peers ps in
        if length peers < 2 then Inl (TooFewPeers (length peers))
        else rbind (map_err TargetError (locate unhex started (map paired_peer.device_id peers) es)) (\<lambda>located.
             rbind (map_err EndpointError (bind (bind_addr 0))) (\<lambda>_. Inr (peers, located))))
      in case ready of
           Inl e \<Rightarrow> (Inl e, w)
         | Inr (peers, located) \<Rightarrow>
             (case provision_each show_dev show_addr dial ask located peers peers (new_mesh self) w of (r, _, w) \<Rightarrow> (r, w)))"

section \<open>Serving\<close>

text \<open>Connections are served as they come; a refused one does not end the loop, a closed endpoint does.\<close>

fun accept_all :: "(net_error + 'c) option list \<Rightarrow> 'c list \<times> net_error list" where
  "accept_all [] = ([], [])"
| "accept_all (None # ins) = ([], [])"
| "accept_all (Some (Inr c) # ins) = (case accept_all ins of (cs, es) \<Rightarrow> (c # cs, es))"
| "accept_all (Some (Inl e) # ins) = (case accept_all ins of (cs, es) \<Rightarrow> (cs, e # es))"

definition serve ::
    "(bytes \<Rightarrow> string) \<Rightarrow> host_world \<Rightarrow> (string \<Rightarrow> engine_error + model_facts) \<Rightarrow> (net_error + trust_store) \<Rightarrow> bytes disk \<Rightarrow>
       device_id \<Rightarrow> facts_of_host \<Rightarrow> nat \<Rightarrow> string option \<Rightarrow> (net_error + 'c) option list \<Rightarrow>
       command_error + ('t, 'q) node \<times> 'c list \<times> net_error list" where
  "serve hex w read_model loaded d self about at gguf incoming =
     rbind (map_err StoreError loaded) (\<lambda>store.
     rbind (map_err EndpointError (hw_bind w (bind_addr at))) (\<lambda>_.
     rbind (map_err EndpointError (hw_local w)) (\<lambda>addr.
     let node = node_new store d self (fh_name about) (fh_platform about) gguf in
     rbind (case gguf of None \<Rightarrow> Inr () | Some path \<Rightarrow> map_err (ModelNotReadable path) (rbind (read_model path) (\<lambda>_. Inr ()))) (\<lambda>_.
     rbind (map_err DiscoveryError (new_discovery (hw_daemon w))) (\<lambda>disc.
     rbind (map_err DiscoveryError (fst (advertise hex (hw_accept_info w) (hw_register w) (advertisement_of self about addr) disc))) (\<lambda>_.
       case accept_all incoming of (cs, es) \<Rightarrow> Inr (node, cs, es)))))))"

section \<open>Probing and generating\<close>

text \<open>The two measurements run one after the other on streams of their own.\<close>

definition measure_link :: "nat \<Rightarrow> nat \<Rightarrow> nat list \<Rightarrow> nat \<Rightarrow> channel \<times> channel \<Rightarrow> net_error + nat \<times> nat \<times> nat" where
  "measure_link n longest clock elapsed chs =
     rbind (fst (measure_rtt longest clock (fst chs))) (\<lambda>rtt.
     rbind (fst (measure_throughput (probe_size n) elapsed (snd chs))) (\<lambda>(moved, time). Inr (rtt, moved, time)))"

definition probe_peer ::
    "pair_world \<Rightarrow> (net_error + trust_store) \<Rightarrow> device_id \<Rightarrow> string \<Rightarrow> nat \<Rightarrow>
       (open_conn \<Rightarrow> nat \<Rightarrow> net_error + nat \<times> nat \<times> nat) \<Rightarrow> command_error + device_id \<times> nat \<times> nat \<times> nat" where
  "probe_peer w loaded self target n measured =
     rbind (map_err StoreError loaded) (\<lambda>_.
     rbind (map_err TargetError (resolve (pw_v6 w) (pw_unhex w) (pw_started w) target self (pw_events w))) (\<lambda>addrs.
     rbind (map_err TargetError (connect_any (pw_bind w) (pw_dial w) addrs)) (\<lambda>conn.
     rbind (map_err ProbeError (measured conn n)) (\<lambda>link. Inr (oc_peer conn, link)))))"

definition wire_of :: "string \<Rightarrow> command_error + wire_dtype" where
  "wire_of s =
     (if s = ''f16'' then Inr F16 else if s = ''f32'' then Inr F32 else Inl (UnknownWire s))"

text \<open>Without a placement the whole model runs here.\<close>

definition places_of :: "placement list \<Rightarrow> engine_error + model_facts \<Rightarrow> command_error + placement list" where
  "places_of pl read =
     (if pl = []
      then rbind (map_err HeaderUnreadable read) (\<lambda>f. Inr [\<lparr>place_first = 0, place_last = layers f, place_host = Here\<rparr>])
      else Inr pl)"

definition generate_command ::
    "unhex \<Rightarrow> net_error + 's \<Rightarrow> net_error + unit \<Rightarrow> service_event list \<Rightarrow> (device_id \<Rightarrow> sock_addr \<Rightarrow> net_error + unit) \<Rightarrow>
       (device_id \<Rightarrow> sock_addr \<Rightarrow> net_error + 'c) \<Rightarrow> ((device_id, 'c) btree \<Rightarrow> ('t, 'q) driver) \<Rightarrow> engine_error + model_facts \<Rightarrow>
       u32 list \<Rightarrow> nat \<Rightarrow> nat \<Rightarrow> placement list \<Rightarrow> string \<Rightarrow> command_error + u32 list \<times> tx list" where
  "generate_command unhex store started es bind dial driver_of read prompt tokens ctx pl wire =
     rbind (wire_of wire) (\<lambda>dt.
     rbind (places_of pl read) (\<lambda>pl.
     rbind (map_err TargetError (dial_places unhex store started es bind dial pl)) (\<lambda>peers.
       map_err GenerateError
         (generate_run (driver_of peers) prompt
            \<lparr>max_new = tokens, opt_max_context = ctx, places = pl, opt_wire_dtype = dt\<rparr>))))"

section \<open>Pairing by hand makes trust\<close>

lemma trust_insert_succeeds:
  "mkdir_result d = Inr () \<Longrightarrow> write_result d = Inr () \<Longrightarrow> to_json (bt_values (bt_insert (paired_peer.device_id p) p ps)) = Inr bs \<Longrightarrow>
     \<exists>d'. trust_insert to_json p (ps, d) = (Inr (), bt_insert (paired_peer.device_id p) p ps, d')"
  by (simp add: trust_insert_def trust_save_def write_file_def Let_def map_err_def)

text \<open>The two ends of one connection, each reading what the other writes in the exchange.\<close>

definition ends_meet ::
    "'st primitives \<Rightarrow> nat \<Rightarrow> bytes \<Rightarrow> bytes \<Rightarrow> pairing_code \<Rightarrow> open_conn \<Rightarrow> open_conn \<Rightarrow> party \<Rightarrow> party \<Rightarrow> bool" where
  "ends_meet E now ra rb code ca cb A B \<longleftrightarrow>
     (\<exists>sa r1 sb r2 certA certB.
        oc_channel ca = Inr (sa, r1) \<and> oc_channel cb = Inr (sb, r2) \<and>
        open_tx sa \<and> open_tx sb \<and> sent sa = [] \<and> sent sb = [] \<and>
        oc_binding ca = channel_binding_of (sha256 E) certA certB \<and> oc_binding cb = channel_binding_of (sha256 E) certB certA \<and>
        pending r1 = snd (exchange E now rb code Listener (oc_channel cb) (oc_binding cb) B) \<and>
        pending r2 = snd (exchange E now ra code Dialer (oc_channel ca) (oc_binding ca) A))"

text \<open>A disk that holds the store \<open>ps\<close> and can save it with the peer added.\<close>

definition disk_works ::
    "(bytes \<Rightarrow> string + paired_peer list) \<Rightarrow> (paired_peer list \<Rightarrow> string + bytes) \<Rightarrow> bytes disk \<Rightarrow> trust_store \<Rightarrow> paired_peer \<Rightarrow> bool" where
  "disk_works from_json to_json d ps p \<longleftrightarrow>
     trust_load from_json d = Inr ps \<and> mkdir_result d = Inr () \<and> write_result d = Inr () \<and>
     (\<exists>bs. to_json (bt_values (bt_insert (paired_peer.device_id p) p ps)) = Inr bs)"

lemma pair_and_save_works:
  assumes "json_laws from_json to_json" and "disk_works from_json to_json d ps peer"
    and "fst (exchange E now random code r (oc_channel conn) (oc_binding conn) me) = Inr peer"
  shows "\<exists>d' ps'. pair_and_save E from_json to_json now random code r conn me d = (Inr peer, d') \<and>
    trust_load from_json d' = Inr ps' \<and> trust_get ps' = (trust_get ps)(paired_peer.device_id peer \<mapsto> peer)"
proof -
  from assms(2) have l: "trust_load from_json d = Inr ps" by (simp add: disk_works_def)
  from assms(2) obtain d' where i: "trust_insert to_json peer (ps, d) = (Inr (), bt_insert (paired_peer.device_id peer) peer ps, d')"
    using trust_insert_succeeds unfolding disk_works_def by blast
  with trust_insert_saved [OF assms(1) store_wf_load [OF l] i] l assms(3) show ?thesis
    by (simp add: pair_and_save_def)
qed

lemma peer_of_trusted:
  "trust_get ps' = (trust_get ps)(paired_peer.device_id (peer_of E now p) \<mapsto> peer_of E now p) \<Longrightarrow> is_trusted (sha256 E) ps' (party_key p)"
  by (auto simp: is_trusted_def trust_get_def fun_eq_iff peer_of_def new_peer_def)

text \<open>C7: Pairing by hand makes two devices trust each other. When one device shows a code and the other is
  given it, each reads what the other writes over the one connection both end at, and both can save,
  then both commands succeed, and each device's trust store, read back from its disk, holds exactly what
  it held before and the other device, whose key is trusted from then on.\<close>

theorem host_and_pair:
  assumes laws: "postcard_law (body_codec E)" "postcard_law (confirm_codec E)" "spake_law E"
    and json: "json_laws from_json to_json"
    and ok: "party_ok E (party_of keyA aboutA)" "party_ok E (party_of keyB aboutB)" "keyA \<noteq> keyB"
    and small: "length (first_message E ra (code_generate n)) \<le> MAX_FRAME" "length (first_message E rb (code_generate n)) \<le> MAX_FRAME"
    and differ: "first_message E ra (code_generate n) \<noteq> first_message E rb (code_generate n)"
    and dialled: "pair_dial w idA target typed = Inr (code_generate n, ca)"
    and listening: "host_listen hex wh idB aboutB at = Inr cb"
    and meet: "ends_meet E now ra rb (code_generate n) ca cb (party_of keyA aboutA) (party_of keyB aboutB)"
    and disks: "disk_works from_json to_json dA psA (peer_of E now (party_of keyB aboutB))"
      "disk_works from_json to_json dB psB (peer_of E now (party_of keyA aboutA))"
  shows "\<exists>dA' dB' psA' psB'.
    pair E from_json to_json now ra w idA keyA aboutA target typed dA = (Inr (peer_of E now (party_of keyB aboutB)), dA') \<and>
    host_pairing hex E from_json to_json now rb n wh idB keyB aboutB at dB = (Inr (peer_of E now (party_of keyA aboutA)), dB') \<and>
    trust_load from_json dA' = Inr psA' \<and> trust_load from_json dB' = Inr psB' \<and>
    trust_get psA' = (trust_get psA)(from_public_key (sha256 E) keyB \<mapsto> peer_of E now (party_of keyB aboutB)) \<and>
    trust_get psB' = (trust_get psB)(from_public_key (sha256 E) keyA \<mapsto> peer_of E now (party_of keyA aboutA)) \<and>
    is_trusted (sha256 E) psA' keyB \<and> is_trusted (sha256 E) psB' keyA"
proof -
  let ?A = "party_of keyA aboutA" and ?B = "party_of keyB aboutB"
  let ?dial = "exchange E now ra (code_generate n) Dialer (oc_channel ca) (oc_binding ca) ?A"
  let ?listen = "exchange E now rb (code_generate n) Listener (oc_channel cb) (oc_binding cb) ?B"
  have "fst ?dial = Inr (peer_of E now ?B) \<and> fst ?listen = Inr (peer_of E now ?A)"
  proof -
    from meet obtain sa r1 sb r2 certA certB where m: "oc_channel ca = Inr (sa, r1)" "oc_channel cb = Inr (sb, r2)"
        "open_tx sa" "open_tx sb" "sent sa = []" "sent sb = []"
        "oc_binding ca = channel_binding_of (sha256 E) certA certB" "oc_binding cb = channel_binding_of (sha256 E) certB certA"
        "pending r1 = snd ?listen" "pending r2 = snd ?dial"
      unfolding ends_meet_def by blast
    have keys: "party_key ?A \<noteq> party_key ?B" using ok(3) by (simp add: party_of_def)
    show ?thesis
      using exchange_completes [OF laws ok(1,2) keys small differ m(3-6) refl refl] m by simp
  qed
  then have e: "fst ?dial = Inr (peer_of E now ?B)" "fst ?listen = Inr (peer_of E now ?A)" by auto
  from pair_and_save_works [OF json disks(1) e(1)] obtain dA' psA' where a:
      "pair_and_save E from_json to_json now ra (code_generate n) Dialer ca ?A dA = (Inr (peer_of E now ?B), dA')"
      "trust_load from_json dA' = Inr psA'"
      "trust_get psA' = (trust_get psA)(paired_peer.device_id (peer_of E now ?B) \<mapsto> peer_of E now ?B)" by blast
  from pair_and_save_works [OF json disks(2) e(2)] obtain dB' psB' where b:
      "pair_and_save E from_json to_json now rb (code_generate n) Listener cb ?B dB = (Inr (peer_of E now ?A), dB')"
      "trust_load from_json dB' = Inr psB'"
      "trust_get psB' = (trust_get psB)(paired_peer.device_id (peer_of E now ?A) \<mapsto> peer_of E now ?A)" by blast
  have "pair E from_json to_json now ra w idA keyA aboutA target typed dA = (Inr (peer_of E now ?B), dA')"
    "host_pairing hex E from_json to_json now rb n wh idB keyB aboutB at dB = (Inr (peer_of E now ?A), dB')"
    using a(1) b(1) dialled listening by (simp_all add: pair_def host_pairing_def)
  with a(2,3) b(2,3) peer_of_trusted [OF a(3)] peer_of_trusted [OF b(3)] show ?thesis
    by (simp add: peer_of_def new_peer_def party_of_def)
qed

definition example_pw :: pair_world where
  "example_pw = \<lparr>pw_v6 = (\<lambda>_. Some (bind_addr 80)), pw_unhex = unhex_text, pw_started = Inr (), pw_events = [],
     pw_bind = (\<lambda>_. Inr ()),
     pw_dial = (\<lambda>_. Inr \<lparr>oc_peer = DeviceId [2],
       oc_channel = Inr (example_sender, \<lparr>pending = frame [4] @ frame [2, 7], rx_fault = ''''\<rparr>), oc_binding = example_binding [5] [6]\<rparr>)\<rparr>"

definition example_hw :: host_world where
  "example_hw = \<lparr>hw_bind = (\<lambda>_. Inr ()), hw_local = Inr (bind_addr 80), hw_daemon = Inr (), hw_accept_info = (\<lambda>_. Inr ()),
     hw_register = (\<lambda>_. Inr ()),
     hw_incoming = Some (Inr \<lparr>oc_peer = DeviceId [1],
       oc_channel = Inr (example_sender, \<lparr>pending = encode_header control_header @ frame [3] @ frame [1, 7], rx_fault = ''''\<rparr>),
       oc_binding = example_binding [6] [5]\<rparr>)\<rparr>"

definition example_about :: "string \<Rightarrow> string \<Rightarrow> facts_of_host" where
  "example_about n p = \<lparr>fh_name = n, fh_platform = p, fh_memory = 16\<rparr>"

definition both_json :: "paired_peer list \<Rightarrow> string + bytes" where
  "both_json ps = (if ps = [peer_of example_E 0 example_alice] then Inr [1]
     else if ps = [peer_of example_E 0 example_bob] then Inr [2] else Inl '''')"

definition read_both :: "bytes \<Rightarrow> string + paired_peer list" where
  "read_both bs = Inr (if bs = [1] then [peer_of example_E 0 example_alice] else [peer_of example_E 0 example_bob])"

lemma example_parties_of:
  "party_of [1] (example_about ''alice'' ''linux'') = example_alice" "party_of [2] (example_about ''bob'' ''macos'') = example_bob"
  by (simp_all add: party_of_def example_about_def example_alice_def example_bob_def)

lemma example_dialled: "pair_dial example_pw (DeviceId [1]) ''there'' ''123456'' =
    Inr (PairingCode ''123456'', \<lparr>oc_peer = DeviceId [2],
       oc_channel = Inr (example_sender, \<lparr>pending = frame [4] @ frame [2, 7], rx_fault = ''''\<rparr>), oc_binding = example_binding [5] [6]\<rparr>)"
proof -
  have "parse_sock_v4 ''there'' = None" by (simp add: parse_sock_v4_def split_once_def)
  then have "parse_sock (\<lambda>_. Some (bind_addr 80)) ''there'' = Some (bind_addr 80)" by (simp add: parse_sock_def)
  moreover have "trim ''123456'' = ''123456''" by (rule trim_no_ws) (simp add: is_ws_def)
  ultimately show ?thesis
    by (simp add: pair_dial_def example_pw_def code_parse_def resolve_def result_simps connect_any_def is_digit_def)
qed

lemma host_and_pair_witness:
  "\<exists>dA' psA'. pair example_E read_both both_json 0 [3] example_pw (DeviceId [1]) [1] (example_about ''alice'' ''linux'') ''there'' ''123456''
      \<lparr>content = Missing, mkdir_result = Inr (), write_result = Inr ()\<rparr> = (Inr (peer_of example_E 0 example_bob), dA') \<and>
    trust_load read_both dA' = Inr psA' \<and> is_trusted (sha256 example_E) psA' [2]"
proof -
  let ?c = "PairingCode ''123456''"
  let ?d = "\<lparr>content = Missing, mkdir_result = Inr (), write_result = Inr ()\<rparr> :: bytes disk"
  have code: "code_generate 123456 = ?c"
    by (simp add: code_generate_def Let_def show_nat.simps digit_char_def char_of_def bit_0)
  have E: "example_E = example_primitives (\<lambda>_ _. [7])" by (simp add: example_E_def)
  have l: "host_listen (\<lambda>_. []) example_hw (DeviceId [2]) (example_about ''bob'' ''macos'') 0 =
      Inr \<lparr>oc_peer = DeviceId [1],
       oc_channel = Inr (example_sender, \<lparr>pending = encode_header control_header @ frame [3] @ frame [1, 7], rx_fault = ''''\<rparr>),
       oc_binding = example_binding [6] [5]\<rparr>"
    by (simp add: host_listen_def example_hw_def result_simps new_discovery_def advertise_def advertise_role_def Let_def)
  have o: "open_tx example_sender" "sent example_sender = []" by (simp_all add: open_tx_def example_sender_def)
  have m: "ends_meet example_E 0 [3] [4] ?c
     \<lparr>oc_peer = DeviceId [2], oc_channel = Inr (example_sender, \<lparr>pending = frame [4] @ frame [2, 7], rx_fault = ''''\<rparr>), oc_binding = example_binding [5] [6]\<rparr>
     \<lparr>oc_peer = DeviceId [1], oc_channel = Inr (example_sender, \<lparr>pending = encode_header control_header @ frame [3] @ frame [1, 7], rx_fault = ''''\<rparr>),
       oc_binding = example_binding [6] [5]\<rparr> example_alice example_bob"
    unfolding ends_meet_def E using o example_ends example_binding_def by (simp, blast)
  have neq: "peer_of example_E 0 example_alice \<noteq> peer_of example_E 0 example_bob"
    by (simp add: peer_of_def new_peer_def example_alice_def example_bob_def)
  have j: "json_laws read_both both_json" by (auto simp: json_laws_def read_both_def both_json_def)
  have disk: "disk_works read_both both_json ?d [] (peer_of example_E 0 example_bob)" "disk_works read_both both_json ?d [] (peer_of example_E 0 example_alice)"
    using neq by (simp_all add: disk_works_def trust_load_def both_json_def bt_values_def)
  have laws: "postcard_law (body_codec example_E)" "postcard_law (confirm_codec example_E)" "spake_law example_E"
    using example_laws by (simp_all add: E) (simp_all add: example_primitives_def)
  have parties: "party_ok example_E example_alice" "party_ok example_E example_bob" "([1] :: bytes) \<noteq> [2]"
    using example_party_ok [of "\<lambda>_ _. [7]"] by (simp_all add: E)
  have "first_message example_E r ?c = r" for r by (simp add: first_message_def E example_primitives_def)
  then have messages: "length (first_message example_E [3] ?c) \<le> MAX_FRAME" "length (first_message example_E [4] ?c) \<le> MAX_FRAME"
    "first_message example_E [3] ?c \<noteq> first_message example_E [4] ?c" by (simp_all add: MAX_FRAME_def)
  note both = host_and_pair [where n = 123456, unfolded code, OF laws j parties [folded example_parties_of] messages
      example_dialled l m [folded example_parties_of] disk [folded example_parties_of]]
  show ?thesis using both [unfolded example_parties_of] by blast
qed

section \<open>Provisioning introduces everyone\<close>

text \<open>The other devices, each with a node of its own; a panic of a handler loses the connection.\<close>

definition node_ask ::
    "(device_id \<Rightarrow> ('t, 'q) surroundings) \<Rightarrow> device_id \<Rightarrow> link \<Rightarrow> request \<Rightarrow> (device_id \<Rightarrow> ('t, 'q) node) \<Rightarrow>
       (net_error + response) \<times> (device_id \<Rightarrow> ('t, 'q) node)" where
  "node_ask e self c q N =
     (case node_handle (e (link_peer c)) (N (link_peer c)) self q of
        (Some r, n) \<Rightarrow> (Inr r, N(link_peer c := n))
      | (None, n) \<Rightarrow> (Inl (ConnectionLost ''closed''), N(link_peer c := n)))"

definition peers_registered :: "mesh \<Rightarrow> bool" where
  "peers_registered m \<longleftrightarrow> (\<forall>i c. registry m i = Some c \<longrightarrow> link_peer c = i)"

lemma adopt_registered:
  assumes "peers_registered m" and "adopt c m = (c', m')"
  shows "link_peer c' = link_peer c \<and> peers_registered m'"
proof (cases rule: adopt_cases [of m c])
  case fresh
  with assms show ?thesis by (auto simp: peers_registered_def split: if_splits)
next
  case (kept e)
  with assms show ?thesis by (auto simp: peers_registered_def mesh_get_def close_link_def split: option.splits if_splits)
next
  case (replaced e)
  with assms show ?thesis by (auto simp: peers_registered_def close_link_def split: if_splits)
qed

lemma try_addrs_registered:
  "try_addrs show_dev dial peer as failed m = (Inr c, m') \<Longrightarrow> peers_registered m \<Longrightarrow> link_peer c = peer \<and> peers_registered m'"
proof (induction as arbitrary: failed)
  case (Cons a as)
  then show ?case
    by (auto split: sum.splits if_splits prod.splits dest: adopt_registered)
qed simp

lemma mesh_connect_registered:
  "mesh_connect show_dev dial peer addrs m = (Inr c, m') \<Longrightarrow> peers_registered m \<Longrightarrow> link_peer c = peer \<and> peers_registered m'"
  by (auto simp: mesh_connect_def mesh_get_def peers_registered_def split: option.splits if_splits
      dest!: try_addrs_registered [unfolded peers_registered_def])

definition introduced_all ::
    "(device_id \<Rightarrow> ('t, 'q) node) \<Rightarrow> paired_peer list \<Rightarrow> paired_peer \<Rightarrow> provisioned \<Rightarrow> bool" where
  "introduced_all N peers p out \<longleftrightarrow>
     (case out of
        Introduced added offered known \<Rightarrow>
          added + known = offered \<and> offered = length peers - 1 \<and>
          list_all (\<lambda>q. paired_peer.device_id q = paired_peer.device_id p \<or> knows (N (paired_peer.device_id p)) (paired_peer.device_id q)) peers
      | _ \<Rightarrow> True)"

lemma roster_length:
  assumes "distinct (map paired_peer.device_id peers)" and "p \<in> set peers"
  shows "length (roster_for (paired_peer.device_id p) peers) = length peers - 1"
proof -
  have "filter (\<lambda>q. paired_peer.device_id q \<noteq> paired_peer.device_id p) peers = remove1 p peers"
    using assms by (subst distinct_remove1_removeAll) (auto simp: distinct_map inj_on_def removeAll_filter_not_eq intro!: filter_cong)
  with assms(2) show ?thesis by (simp add: roster_for_def length_remove1)
qed

lemma provision_each_introduces:
  fixes e :: "device_id \<Rightarrow> ('t, 'q) surroundings"
  assumes check: "\<And>i k k'. key_check (e i) k = Inr k' \<Longrightarrow> k' = k" and hash: "\<And>i. key_hash (e i) = sha"
    and ids: "\<And>p. p \<in> set peers \<Longrightarrow> paired_peer.device_id p = from_public_key sha (public_key p)"
    and dist: "distinct (map paired_peer.device_id peers)"
  shows "provision_each show_dev show_addr dial (node_ask e self) located peers ps m N = (Inr os, m', N') \<Longrightarrow>
    peers_registered m \<Longrightarrow> set ps \<subseteq> set peers \<Longrightarrow> distinct (map paired_peer.device_id ps) \<Longrightarrow>
    (\<And>p. p \<in> set ps \<Longrightarrow> node_id (N (paired_peer.device_id p)) = paired_peer.device_id p) \<Longrightarrow>
    list_all2 (introduced_all N' peers) ps os \<and> (\<forall>i. i \<notin> paired_peer.device_id ` set ps \<longrightarrow> N' i = N i)"
proof (induction ps arbitrary: m N os)
  case (Cons p ps)
  let ?i = "paired_peer.device_id p"
  have skip: "introduced_all N' peers p Skipped" by (simp add: introduced_all_def)
  show ?case
  proof (cases "bt_get located ?i")
    case None
    with Cons.prems(1) obtain os' where o: "os = Skipped # os'"
      and r: "provision_each show_dev show_addr dial (node_ask e self) located peers ps m N = (Inr os', m', N')"
      by (auto simp: rbind_eq_Inr split: prod.splits)
    from Cons.IH [OF r Cons.prems(2)] Cons.prems o skip show ?thesis by auto
  next
    case (Some addrs)
    with Cons.prems(1) obtain c m1 resp N1 os' where
        c: "mesh_connect show_dev (dial ?i) ?i (map show_addr addrs) m = (Inr c, m1)"
      and a: "node_ask e self c (Provision (roster_for ?i peers)) N = (Inr resp, N1)"
      and r: "provision_each show_dev show_addr dial (node_ask e self) located peers ps m1 N1 = (Inr os', m', N')"
      and o: "os = outcome_of (length (roster_for ?i peers)) resp # os'"
      by (auto simp: rbind_eq_Inr Let_def split: prod.splits sum.splits)
    from mesh_connect_registered [OF c Cons.prems(2)] have lp: "link_peer c = ?i" and m1: "peers_registered m1" by auto
    from a lp obtain n where h: "node_handle (e ?i) (N ?i) self (Provision (roster_for ?i peers)) = (Some resp, n)" and N1: "N1 = N(?i := n)"
      by (auto simp: node_ask_def split: prod.splits option.splits)
    have p: "p \<in> set peers" and ni: "node_id (N ?i) = ?i" using Cons.prems(3,5) by auto
    have "?i \<notin> paired_peer.device_id ` set ps" using Cons.prems(4) by simp
    then have "N1 (paired_peer.device_id q) = N (paired_peer.device_id q)" if "q \<in> set ps" for q
      using that unfolding N1 by (metis fun_upd_other imageI)
    then have later: "list_all2 (introduced_all N' peers) ps os' \<and> (\<forall>i. i \<notin> paired_peer.device_id ` set ps \<longrightarrow> N' i = N1 i)"
      using Cons.prems(3-5) by (intro Cons.IH [OF r m1]) auto
    then have n: "N' ?i = n" using Cons.prems(4) N1 by auto
    have "introduced_all N' peers p (outcome_of (length (roster_for ?i peers)) resp)"
    proof (cases resp)
      case (Provisioned added known)
      have "added + known = length (roster_for ?i peers) \<and> (\<forall>q \<in> set peers. paired_peer.device_id q = ?i \<or> knows n (paired_peer.device_id q))"
        using roster_known [of "e ?i" peers "N ?i" self added known n] check hash ids h Provisioned ni by simp
      with Provisioned n roster_length [OF dist p] show ?thesis by (simp add: outcome_of_def introduced_all_def list_all_iff)
    qed (simp_all add: outcome_of_def introduced_all_def)
    with later o N1 show ?thesis by auto
  qed
qed simp

text \<open>C13: Provisioning introduces everyone. When the command ends without an error over devices that run this
  program, it has one outcome for every paired device in order; and every device whose outcome is a count
  of introductions was offered all other paired devices, counted each of them once, and knows them all
  from then on.\<close>

theorem provision_introduces_all:
  assumes "provision_mesh show_dev show_addr dial (node_ask e self) unhex started es bind from_json d self N = (Inr os, N')"
    and "trust_load from_json d = Inr ps"
    and "\<And>i k k'. key_check (e i) k = Inr k' \<Longrightarrow> k' = k" and "\<And>i. key_hash (e i) = sha"
    and "\<And>p. p \<in> set (trust_peers ps) \<Longrightarrow> paired_peer.device_id p = from_public_key sha (public_key p)"
    and "\<And>i. node_id (N i) = i"
  shows "2 \<le> length (trust_peers ps) \<and> list_all2 (introduced_all N' (trust_peers ps)) (trust_peers ps) os"
proof -
  have wf: "store_wf ps" by (rule store_wf_load [OF assms(2)])
  then have "map paired_peer.device_id (trust_peers ps) = map fst ps"
    using store_entries [OF wf] by (metis (mono_tags, lifting) comp_apply fst_conv map_eq_conv map_map trust_peers_def)
  then have d: "distinct (map paired_peer.device_id (trust_peers ps))"
    using wf bt_wf_distinct [of ps] by (simp add: store_wf_def)
  from assms(1,2) obtain located m' where
      r: "provision_each show_dev show_addr dial (node_ask e self) located (trust_peers ps) (trust_peers ps) (new_mesh self) N = (Inr os, m', N')"
    and two: "2 \<le> length (trust_peers ps)"
    by (auto simp: provision_mesh_def result_simps Let_def not_less split: sum.splits prod.splits if_splits)
  have "peers_registered (new_mesh self)" by (simp add: peers_registered_def new_mesh_def)
  from provision_each_introduces [OF assms(3,4,5) d r this order_refl d] assms(6) two show ?thesis by simp
qed

definition far_peer :: paired_peer where "far_peer = example_peer [1, 2, 3, 4, 5, 6, 7, 8]"

definition example_mesh_dial :: "device_id \<Rightarrow> string \<Rightarrow> net_error + link" where
  "example_mesh_dial i a = Inr \<lparr>link_id = 0, link_peer = i, link_role = Dialer\<rparr>"

lemma example_provisioning:
  "\<exists>N'. provision_mesh (\<lambda>_. []) (\<lambda>_. []) example_mesh_dial (node_ask (\<lambda>_. example_surroundings) (DeviceId [1])) unhex_text (Inr ())
     example_events (\<lambda>_. Inr ()) (\<lambda>_. Inr [far_peer, example_peer [3]])
     \<lparr>content = Present [0] 0, mkdir_result = Inr (), write_result = Inr ()\<rparr> (DeviceId [1]) (\<lambda>i. example_node\<lparr>node_id := i\<rparr>) =
     (Inr [Introduced 1 1 0, Skipped], N')"
proof -
  have ids: "paired_peer.device_id far_peer = DeviceId [1, 2, 3, 4, 5, 6, 7, 8]" "paired_peer.device_id (example_peer [3]) = DeviceId [3]"
    by (simp_all add: far_peer_def example_peer_def new_peer_def from_public_key_def)
  have load: "trust_load (\<lambda>_. Inr [far_peer, example_peer [3]]) \<lparr>content = Present [0] 0, mkdir_result = Inr (), write_result = Inr ()\<rparr> =
      Inr [(DeviceId [1, 2, 3, 4, 5, 6, 7, 8], far_peer), (DeviceId [3], example_peer [3])]"
    by (simp add: trust_load_def result_simps bt_collect_def ids less_device_id_def)
  have loc: "locate unhex_text (Inr ()) [DeviceId [1, 2, 3, 4, 5, 6, 7, 8], DeviceId [3]] example_events =
     Inr [(DeviceId [1, 2, 3, 4, 5, 6, 7, 8], [\<lparr>ip = V4 167772161, port = 47900\<rparr>, \<lparr>ip = V4 2130706433, port = 47900\<rparr>])]"
    by (simp add: locate_def locate_window example_window example_usable) (simp add: example_found_def)
  have roster: "roster_for (DeviceId [1, 2, 3, 4, 5, 6, 7, 8]) [far_peer, example_peer [3]] = [introduction_of (example_peer [3])]"
    by (simp add: roster_for_def ids)
  obtain n where h: "node_handle example_surroundings (example_node\<lparr>node_id := DeviceId [1, 2, 3, 4, 5, 6, 7, 8]\<rparr>) (DeviceId [1])
      (Provision [introduction_of (example_peer [3])]) = (Some (Provisioned 1 0), n)"
    by (simp add: node_handle_def accept_introductions_def example_node_def node_new_def knows_def trust_get_def bt_get_def
        into_peer_def introduction_of_def example_peer_def new_peer_def introduced_peer_def example_surroundings_def result_simps
        from_public_key_def trust_insert_def trust_save_def write_file_def Let_def)
  show ?thesis
    by (simp add: provision_mesh_def load result_simps Let_def trust_peers_def bt_values_def ids loc mesh_connect_def mesh_get_def new_mesh_def
        example_mesh_dial_def adopt_def roster node_ask_def h outcome_of_def bt_get_def)
qed

lemma provision_introduces_all_witness:
  "\<exists>N'. provision_mesh (\<lambda>_. []) (\<lambda>_. []) example_mesh_dial (node_ask (\<lambda>_. example_surroundings) (DeviceId [1])) unhex_text (Inr ())
     example_events (\<lambda>_. Inr ()) (\<lambda>_. Inr [far_peer, example_peer [3]])
     \<lparr>content = Present [0] 0, mkdir_result = Inr (), write_result = Inr ()\<rparr> (DeviceId [1]) (\<lambda>i. example_node\<lparr>node_id := i\<rparr>) =
     (Inr [Introduced 1 1 0, Skipped], N') \<and>
   knows (N' (DeviceId [1, 2, 3, 4, 5, 6, 7, 8])) (DeviceId [3])"
proof -
  let ?d = "\<lparr>content = Present [0] 0, mkdir_result = Inr (), write_result = Inr ()\<rparr> :: bytes disk"
  let ?ps = "[(DeviceId [1, 2, 3, 4, 5, 6, 7, 8], far_peer), (DeviceId [3], example_peer [3])]"
  obtain N' where p: "provision_mesh (\<lambda>_. []) (\<lambda>_. []) example_mesh_dial (node_ask (\<lambda>_. example_surroundings) (DeviceId [1])) unhex_text (Inr ())
     example_events (\<lambda>_. Inr ()) (\<lambda>_. Inr [far_peer, example_peer [3]]) ?d (DeviceId [1]) (\<lambda>i. example_node\<lparr>node_id := i\<rparr>) =
     (Inr [Introduced 1 1 0, Skipped], N')" using example_provisioning by blast
  have load: "trust_load (\<lambda>_. Inr [far_peer, example_peer [3]]) ?d = Inr ?ps"
    by (simp add: trust_load_def result_simps bt_collect_def less_device_id_def far_peer_def example_peer_def new_peer_def from_public_key_def)
  have e: "key_check example_surroundings = Inr" "key_hash example_surroundings = id" by (simp_all add: example_surroundings_def)
  have tp: "trust_peers ?ps = [far_peer, example_peer [3]]" by (simp add: trust_peers_def bt_values_def)
  have ids: "paired_peer.device_id q = from_public_key id (public_key q)" if "q \<in> set (trust_peers ?ps)" for q
    using that unfolding tp by (auto simp: far_peer_def example_peer_def new_peer_def)
  have "list_all2 (introduced_all N' [far_peer, example_peer [3]]) [far_peer, example_peer [3]] [Introduced 1 1 0, Skipped]"
    using provision_introduces_all [OF p load _ _ ids] e unfolding tp by simp
  then have "knows (N' (DeviceId [1, 2, 3, 4, 5, 6, 7, 8])) (DeviceId [3])"
    by (simp add: introduced_all_def far_peer_def example_peer_def new_peer_def from_public_key_def)
  with p show ?thesis by blast
qed

section \<open>The other commands\<close>

text \<open>Forgetting a device removes it from the store on the disk and nothing else, and is an error when it
  was not there.\<close>

theorem unpair_exact:
  assumes "json_laws from_json to_json" and "trust_load from_json d = Inr ps"
    and "unpair from_json to_json i d = (r, d')" and "\<And>e. r \<noteq> Inl (StoreError e)"
  shows "(r = Inr ()) = (trust_get ps i \<noteq> None) \<and>
    (\<exists>ps'. trust_load from_json d' = Inr ps' \<and> trust_get ps' = (trust_get ps)(i := None))"
proof (cases "bt_get ps i = None")
  case True
  with assms(2,3) have "r = Inl (NotPaired i)" "d' = d" by (auto simp: unpair_def trust_remove_def Let_def)
  with True assms(2) show ?thesis by (auto simp: trust_get_def fun_eq_iff)
next
  case False
  with assms(2-4) have "trust_save to_json (bt_remove i ps) d = (Inr (), d')" and r: "r = Inr ()"
    by (auto simp: unpair_def trust_remove_def Let_def rbind_def split: prod.splits sum.splits)
  from trust_save_loads [OF assms(1) store_wf_remove [OF store_wf_load [OF assms(2)]] this(1)] False r show ?thesis
    by (auto simp: trust_get_def bt_get_remove fun_eq_iff)
qed

text \<open>Without a placement the generation runs the whole model here, which tiles it unless it has no layers.\<close>

lemma default_places: "places_of [] (Inr f) = Inr pl \<Longrightarrow> check_tiling pl (layers f) = Inr () \<longleftrightarrow> 0 < layers f"
  by (auto simp: places_of_def result_simps check_tiling_iff)

lemma accept_all_exact:
  "accept_all ins =
     (let before = map the (takeWhile (\<lambda>i. i \<noteq> None) ins) in (map projr (filter (\<lambda>r. \<not> isl r) before), map projl (filter isl before)))"
  by (induction ins rule: accept_all.induct) (simp_all add: Let_def)

end
