(* ===== verification/Endpoint.thy ===== *)
theory Endpoint
  imports Transport Net_Addr
begin

text \<open>
  How an endpoint comes to be: the certificate that carries the device key (\<open>DeviceCertificate\<close> in
  \<open>crates/lattice-net/src/tls.rs\<close>), the limits of the transport and \<open>Endpoint::bind\<close> in
  \<open>crates/lattice-net/src/transport.rs\<close>. The packages that encode keys, sign certificates and build
  configurations are arguments. The properties show that an endpoint checks its peers with one policy in
  both directions, and that a peer reads from its certificate exactly the device key.
\<close>

section \<open>The certificate\<close>

record certificate_params =
  subject_alt_names :: "string list"
  common_name :: string

record certificate_tools =
  to_pkcs8 :: "bytes \<Rightarrow> string + bytes"
  key_pair_of :: "bytes \<Rightarrow> string + bytes"
  params_accepted :: "string list \<Rightarrow> string + unit"
  self_sign :: "certificate_params \<Rightarrow> bytes \<Rightarrow> string + bytes"
  private_key_of :: "bytes \<Rightarrow> string + bytes"

record device_certificate =
  certificate :: bytes
  private_key :: bytes

definition generate_certificate :: "(bytes \<Rightarrow> string) \<Rightarrow> certificate_tools \<Rightarrow> device_key \<Rightarrow> net_error + device_certificate" where
  "generate_certificate hex t k =
     rbind (map_err KeyEncoding (to_pkcs8 t (signing k))) (\<lambda>pkcs8.
     rbind (map_err Rcgen (key_pair_of t pkcs8)) (\<lambda>pair.
     rbind (map_err Rcgen (params_accepted t [show_id hex (key_id k)])) (\<lambda>_.
     rbind (map_err Rcgen
              (self_sign t \<lparr>subject_alt_names = [show_id hex (key_id k)], common_name = show_id hex (key_id k)\<rparr> pair)) (\<lambda>cert.
     rbind (map_err Certificate (private_key_of t pkcs8)) (\<lambda>private.
       Inr \<lparr>certificate = cert, private_key = private\<rparr>)))))"

section \<open>The limits of the transport\<close>

definition ALPN :: bytes where "ALPN = map (\<lambda>c. of_char c) ''lattice/1''"

definition STREAM_RECEIVE_WINDOW :: nat where "STREAM_RECEIVE_WINDOW = 8 * 2 ^ 20"
definition CONNECTION_WINDOW :: nat where "CONNECTION_WINDOW = 32 * 2 ^ 20"

text \<open>In seconds.\<close>

definition KEEP_ALIVE :: nat where "KEEP_ALIVE = 10"
definition IDLE_TIMEOUT :: nat where "IDLE_TIMEOUT = 30"

record transport_limits =
  stream_window :: nat
  receive_window :: nat
  send_window :: nat
  keep_alive_interval :: nat
  max_idle_timeout :: nat



text \<open>An idle time out is a number of milliseconds below \<open>2 ^ 62\<close>.\<close>

definition transport_config :: "net_error + transport_limits" where
  "transport_config =
     rbind (if IDLE_TIMEOUT * 1000 < 2 ^ 62 then Inr IDLE_TIMEOUT else Inl (Tls ''idle timeout out of range'')) (\<lambda>idle.
       Inr \<lparr>stream_window = STREAM_RECEIVE_WINDOW, receive_window = CONNECTION_WINDOW, send_window = CONNECTION_WINDOW,
            keep_alive_interval = KEEP_ALIVE, max_idle_timeout = idle\<rparr>)"

section \<open>The endpoint\<close>

text \<open>One side of the TLS configuration; the verifier is the policy it was given.\<close>

datatype tls_version = TLS12 | TLS13

record tls_side =
  versions :: "tls_version list"
  asks_certificate :: bool
  verifier :: "bytes \<Rightarrow> bool"
  chain :: "bytes list"
  side_key :: bytes
  alpn :: "bytes list"

record endpoint_tools =
  server_built :: "tls_side \<Rightarrow> string + unit"
  client_built :: "tls_side \<Rightarrow> string + unit"
  quic_server :: "tls_side \<Rightarrow> string + unit"
  quic_client :: "tls_side \<Rightarrow> string + unit"
  socket_bound :: "sock_addr \<Rightarrow> string + unit"

record endpoint =
  server_side :: tls_side
  client_side :: tls_side
  limits :: transport_limits
  local_cert :: bytes

definition endpoint_bind ::
    "(bytes \<Rightarrow> string) \<Rightarrow> certificate_tools \<Rightarrow> endpoint_tools \<Rightarrow> sock_addr \<Rightarrow> device_key \<Rightarrow> (bytes \<Rightarrow> bool) \<Rightarrow> net_error + endpoint" where
  "endpoint_bind hex ct et addr k policy =
     rbind (generate_certificate hex ct k) (\<lambda>i.
     let side = \<lparr>versions = [TLS13], asks_certificate = True, verifier = policy, chain = [certificate i],
                 side_key = private_key i, alpn = []\<rparr> in
     rbind (map_err Tls (server_built et side)) (\<lambda>_.
     let server = side\<lparr>alpn := [ALPN]\<rparr> in
     rbind (map_err Tls (client_built et side)) (\<lambda>_.
     let client = side\<lparr>alpn := [ALPN]\<rparr> in
     rbind transport_config (\<lambda>limits.
     rbind (map_err Tls (quic_server et server)) (\<lambda>_.
     rbind (map_err Tls (quic_client et client)) (\<lambda>_.
     rbind (map_err Io (socket_bound et addr)) (\<lambda>_.
       Inr \<lparr>server_side = server, client_side = client, limits = limits, local_cert = certificate i\<rparr>)))))))"

section \<open>What is relied on\<close>

text \<open>
  The packages keep the key: a certificate signed with the pair made of a device key is one the parser
  reads back as an Ed25519 certificate of the 32 bytes of its public key, which are a key.
\<close>

definition certificate_law :: "certificate_tools \<Rightarrow> certificate_reader \<Rightarrow> (bytes \<Rightarrow> bytes) \<Rightarrow> bool" where
  "certificate_law t x verifying \<longleftrightarrow>
     (\<forall>s. length (verifying s) = 32 \<and> key_from_bytes x (verifying s) = Inr (verifying s)) \<and>
     (\<forall>s der pair ps cert. to_pkcs8 t s = Inr der \<longrightarrow> key_pair_of t der = Inr pair \<longrightarrow> self_sign t ps pair = Inr cert \<longrightarrow>
        parse_x509 x cert = Inr (True, verifying s))"

lemma generated_key:
  assumes "certificate_law t x verifying" and "generate_certificate hex t k = Inr i"
  shows "peer_key_of x (certificate i) = Inr (verifying (signing k))"
proof -
  from assms(2) obtain der pair ps cert where "to_pkcs8 t (signing k) = Inr der" "key_pair_of t der = Inr pair"
      "self_sign t ps pair = Inr cert" "certificate i = cert"
    by (auto simp: generate_certificate_def result_simps)
  with assms(1) show ?thesis by (simp add: certificate_law_def peer_key_of_def)
qed


lemma transport_config_Inr:
  "transport_config = Inr \<lparr>stream_window = STREAM_RECEIVE_WINDOW, receive_window = CONNECTION_WINDOW, send_window = CONNECTION_WINDOW,
     keep_alive_interval = KEEP_ALIVE, max_idle_timeout = IDLE_TIMEOUT\<rparr>"
  by (simp add: transport_config_def IDLE_TIMEOUT_def)

lemma endpoint_bind_Inr:
  assumes "endpoint_bind hex ct et addr k policy = Inr ep"
  obtains i where "generate_certificate hex ct k = Inr i" "local_cert ep = certificate i"
    "server_side ep = \<lparr>versions = [TLS13], asks_certificate = True, verifier = policy, chain = [certificate i],
       side_key = private_key i, alpn = [ALPN]\<rparr>"
    "client_side ep = server_side ep" "transport_config = Inr (limits ep)"
  using assms by (auto simp: endpoint_bind_def result_simps Let_def)

section \<open>Properties\<close>



text \<open>C32: A device is known by its key. When two devices bind endpoints for their keys, each side's check of the
  other's certificate comes down to its policy on the other's key, and the connection each side then has
  is with the device of that key, over one and the same channel binding.\<close>

theorem endpoint_identity:
  assumes "certificate_law ct x verifying"
    and "endpoint_bind hex ct et addr ka pa = Inr ea" and "endpoint_bind hex ct et addr' kb pb = Inr eb"
  shows "(verify_server_cert x (verifier (client_side ea)) (local_cert eb) = Inr ()) = pa (verifying (signing kb)) \<and>
    (verify_client_cert x (verifier (server_side eb)) (local_cert ea) = Inr ()) = pb (verifying (signing ka)) \<and>
    (\<exists>ca cb. wrap sha256 x (local_cert ea) (Some (chain (server_side eb))) Dialer = Inr ca \<and>
       wrap sha256 x (local_cert eb) (Some (chain (client_side ea))) Listener = Inr cb \<and>
       peer_id sha256 ca = from_public_key sha256 (verifying (signing kb)) \<and>
       peer_id sha256 cb = from_public_key sha256 (verifying (signing ka)) \<and> channel_binding ca = channel_binding cb)"
proof -
  from assms(2) obtain ia where a: "generate_certificate hex ct ka = Inr ia" "local_cert ea = certificate ia"
      "verifier (server_side ea) = pa" "chain (server_side ea) = [certificate ia]" "client_side ea = server_side ea"
    by (elim endpoint_bind_Inr) simp
  from assms(3) obtain ib where b: "generate_certificate hex ct kb = Inr ib" "local_cert eb = certificate ib"
      "verifier (server_side eb) = pb" "chain (server_side eb) = [certificate ib]" "client_side eb = server_side eb"
    by (elim endpoint_bind_Inr) simp
  note ka = generated_key [OF assms(1) a(1)] and kb = generated_key [OF assms(1) b(1)]
  show ?thesis
    using channel_binding_comm [of sha256 "certificate ia" "certificate ib"]
    by (simp add: a b ka kb verify_server_cert_def verify_client_cert_def verifier_check_def wrap_def peer_id_def result_simps)
qed

section \<open>An instance\<close>

definition example_verifying :: "bytes \<Rightarrow> bytes" where
  "example_verifying s = take 32 (s @ replicate 32 0)"

definition example_certificates :: certificate_tools where
  "example_certificates = \<lparr>to_pkcs8 = Inr, key_pair_of = Inr, params_accepted = (\<lambda>_. Inr ()), self_sign = (\<lambda>_. Inr), private_key_of = Inr\<rparr>"

definition example_reader :: certificate_reader where
  "example_reader = \<lparr>parse_x509 = (\<lambda>c. Inr (True, example_verifying c)), key_from_bytes = Inr\<rparr>"

definition example_tools :: endpoint_tools where
  "example_tools = \<lparr>server_built = (\<lambda>_. Inr ()), client_built = (\<lambda>_. Inr ()), quic_server = (\<lambda>_. Inr ()), quic_client = (\<lambda>_. Inr ()),
     socket_bound = (\<lambda>_. Inr ())\<rparr>"

definition example_key :: "byte \<Rightarrow> device_key" where
  "example_key b = \<lparr>signing = [b], key_id = DeviceId [b]\<rparr>"

lemma example_bound:
  "\<exists>ep. endpoint_bind (\<lambda>_. ''id'') example_certificates example_tools \<lparr>ip = V4 0, port = 0\<rparr> (example_key b) policy = Inr ep"
  by (simp add: endpoint_bind_def generate_certificate_def example_certificates_def example_tools_def transport_config_Inr result_simps)


lemma endpoint_identity_witness:
  "\<exists>ea eb. endpoint_bind (\<lambda>_. ''id'') example_certificates example_tools \<lparr>ip = V4 0, port = 0\<rparr> (example_key 1)
       (\<lambda>k. k = example_verifying [2]) = Inr ea \<and>
     endpoint_bind (\<lambda>_. ''id'') example_certificates example_tools \<lparr>ip = V4 0, port = 0\<rparr> (example_key 2) accept_any_peer = Inr eb \<and>
     verify_server_cert example_reader (verifier (client_side ea)) (local_cert eb) = Inr ()"
proof -
  have law: "certificate_law example_certificates example_reader example_verifying"
    by (auto simp: certificate_law_def example_certificates_def example_reader_def example_verifying_def min_def)
  obtain ea eb where e: "endpoint_bind (\<lambda>_. ''id'') example_certificates example_tools \<lparr>ip = V4 0, port = 0\<rparr> (example_key 1)
       (\<lambda>k. k = example_verifying [2]) = Inr ea"
     "endpoint_bind (\<lambda>_. ''id'') example_certificates example_tools \<lparr>ip = V4 0, port = 0\<rparr> (example_key 2) accept_any_peer = Inr eb"
    using example_bound by metis
  from endpoint_identity [OF law e] e show ?thesis by (auto simp: example_key_def)
qed

end
