(* ===== verification/Served_Node.thy ===== *)
theory Served_Node
  imports Node
begin

text \<open>
  A device behind a connection: the services of \<open>dispatch.rs\<close> with one node as control handler, executor
  and handler of RPC streams, as \<open>serve_worker\<close> (\<open>crates/latticed/src/startup.rs\<close>) hands it over. The
  properties follow a master that has layers loaded on the device and runs steps on them over the wire:
  it gets what the opened shard answers when it is called directly.
\<close>

section \<open>The node as handler of RPC streams\<close>

text \<open>\<open>link\<close> is the runtime's own \<open>connect\<close>, within the time limit (\<open>None\<close> when it struck); \<open>Served_Rpc\<close>
  gives it.\<close>

definition node_connect ::
    "(device_id \<Rightarrow> runtime \<Rightarrow> (string + 's) option \<times> runtime) \<Rightarrow> ('t, 'q) node \<Rightarrow> device_id \<Rightarrow>
       (string + 's) option \<times> ('t, 'q) node" where
  "node_connect link n dev =
     (case node_runtime n of
        None \<Rightarrow> (Some (Inl ''GPU inference unavailable; run ./scripts/setup-engine.sh''), n)
      | Some r \<Rightarrow> (case link dev r of (s, r) \<Rightarrow> (s, n\<lparr>node_runtime := Some r\<rparr>)))"

text \<open>\<open>wire\<close> holds the serialisations, and what the reads of a tunnel return.\<close>

definition node_services ::
    "('t, 'q) surroundings \<Rightarrow> (device_id \<Rightarrow> runtime \<Rightarrow> (string + (string + bytes) list \<times> tx) option \<times> runtime) \<Rightarrow>
       unit services \<Rightarrow> ('t, 'q) node services" where
  "node_services e link wire =
     \<lparr>request_codec = request_codec wire, response_codec = response_codec wire, step_codec = step_codec wire,
      result_codec = result_codec wire, ack_codec = ack_codec wire, control_handle = node_handle e,
      executor_run = node_run e, executor_drop = node_drop e, rpc_connect = node_connect link,
      rpc_reads = rpc_reads wire, rpc_halt = rpc_halt wire\<rparr>"

section \<open>Steps on the shard itself\<close>

text \<open>The answers of a shard to the steps of one session, and the shard afterwards; \<open>None\<close> if one panics.\<close>

fun shard_steps ::
    "('t, 'q) surroundings \<Rightarrow> u64 \<Rightarrow> ('t, 'q) candle_shard \<Rightarrow> step list \<Rightarrow>
       ((string + payload) list \<times> ('t, 'q) candle_shard) option" where
  "shard_steps e i sh [] = Some ([], sh)"
| "shard_steps e i sh (s # ss) =
     (case run_step e (Some sh) i s of
        (Some r, Some sh) \<Rightarrow> map_option (\<lambda>(rs, sh). (r # rs, sh)) (shard_steps e i sh ss)
      | _ \<Rightarrow> None)"

lemma node_direct:
  "shard_thread n = Alive (Some sh) \<Longrightarrow> shard_steps e i sh ss = Some (rs, sh') \<Longrightarrow>
     direct (node_run e) i n ss = (rs, n\<lparr>shard_thread := Alive (Some sh')\<rparr>)"
proof (induction ss arbitrary: n sh rs)
  case Nil
  then show ?case by (cases n) simp
next
  case (Cons s ss)
  from Cons.prems(2) obtain r sh1 rs1 where r: "run_step e (Some sh) i s = (Some r, Some sh1)"
    "shard_steps e i sh1 ss = Some (rs1, sh')" "rs = r # rs1"
    by (auto split: prod.splits option.splits)
  then have "node_run e n i s = (r, n\<lparr>shard_thread := Alive (Some sh1)\<rparr>)"
    using Cons.prems(1) by (simp add: node_run_def thread_job_def)
  with Cons.IH [of "n\<lparr>shard_thread := Alive (Some sh1)\<rparr>" sh1 rs1] r show ?case by simp
qed

section \<open>Properties\<close>

lemma node_run_store: "node_store (snd (node_run e n i s)) = node_store n"
  by (simp add: node_run_def split: prod.split option.split job_reply.split)

lemma node_connect_store: "node_store (snd (node_connect link n dev)) = node_store n"
  by (simp add: node_connect_def split: option.split prod.split)

text \<open>Only a control request can change whom a device trusts. Whatever a peer sends on activation, RPC,
  probe or bulk streams, the trust store of the device that serves them stays as it was.\<close>

theorem trust_by_control:
  "kind header = Control \<or>
     node_store (fst (dispatch_stream (node_services e link wire) dev n (header, send, recv))) = node_store n"
  using streams_isolated [where part = node_store and svc = "node_services e link wire" and header = header]
  by (simp add: node_services_def node_run_store node_connect_store node_drop_def)

text \<open>C5: Layers run on another device as if they were opened here. A master asks a device for a range of
  layers on a control stream and then sends the steps of a session on an activation stream; the device
  serves both, and each end reads what the other wrote. If the device holds the model asked for and its
  engine opens the range, the master is told so, gets for every step what the freshly opened shard
  answers to it, in order, and afterwards the device holds that shard with the session dropped.\<close>

theorem remote_execution:
  assumes codecs: "postcard_law (request_codec wire)" "postcard_law (response_codec wire)" "postcard_law (step_codec wire)"
      "postcard_law (result_codec wire)"
    and "fits (request_codec wire) (LoadShard spec)"
    and "fits (response_codec wire) (ShardLoaded (weight_bytes_held st) (unat (kv_bytes_held st)))"
    and "node_model n = Some path" "hash_of e path = Inr (model_hash spec)" "shard_thread n = Alive old"
      "open_file e path spec = Inr sh" "stats sh = Some st"
    and "shard_steps e i sh ss = Some (rs, sh')"
    and "sendable (step_codec wire) Done" "\<forall>s \<in> set ss. s \<noteq> Done \<and> sendable (step_codec wire) s"
      "\<forall>r \<in> set rs. sendable (result_codec wire) (result_of r)"
    and "open_tx s1" "sent s1 = []" "open_tx s2" "sent s2 = []" "open_tx t1" "sent t1 = []" "open_tx t2" "sent t2 = []"
    and "remote_open (Inr (s2, r2)) i g = Inr remote"
    and "pending in1 = snd (control_request (request_codec wire) (response_codec wire) (Inr (s1, r1)) (LoadShard spec))"
    and "pending in2 = sent (remote_finish (step_codec wire) (snd (remote_steps (step_codec wire) (result_codec wire) remote ss)))"
    and "dispatch_serve (node_services e link wire) dev n [Inr (t1, in1), Inr (t2, in2)] = (m, [out1, out2])"
    and "pending r1 = sent out1" and "pending r2 = sent out2"
  shows "fst (control_request (request_codec wire) (response_codec wire) (Inr (s1, r1)) (LoadShard spec)) =
      Inr (ShardLoaded (weight_bytes_held st) (unat (kv_bytes_held st))) \<and>
    fst (remote_steps (step_codec wire) (result_codec wire) remote ss) = map (\<lambda>r. shard_reply (result_of r)) rs \<and>
    shard_thread m = Alive (Some (drop_session sh' i))"
proof -
  let ?svc = "node_services e link wire"
  let ?loaded = "ShardLoaded (weight_bytes_held st) (unat (kv_bytes_held st))"
  let ?n = "n\<lparr>shard_thread := Alive (Some sh)\<rparr>"
  have svc: "request_codec ?svc = request_codec wire" "response_codec ?svc = response_codec wire"
    "step_codec ?svc = step_codec wire" "result_codec ?svc = result_codec wire"
    "control_handle ?svc = node_handle e" "executor_run ?svc = node_run e" "executor_drop ?svc = node_drop e"
    by (simp_all add: node_services_def)
  have "load_shard e spec n = (Some ?loaded, ?n)"
    unfolding load_cases using assms(7-11) by blast
  then have h: "control_handle ?svc n dev (LoadShard spec) = (Some ?loaded, ?n)"
    by (simp add: svc node_handle_def)
  from request_served [of ?svc, unfolded svc(1,2), OF assms(1,2,5,6) h assms(16,17,20,21,25,27,28)]
  have loaded: "fst (control_request (request_codec wire) (response_codec wire) (Inr (s1, r1)) (LoadShard spec)) = Inr ?loaded"
    and rest: "dispatch_serve ?svc dev ?n [Inr (t2, in2)] = (m, [out2])" by simp_all
  from assms(18,24) have remote: "remote = \<lparr>remote_send = s2\<lparr>sent := sent s2 @ encode_header (activation_header i g)\<rparr>, remote_recv = r2\<rparr>"
    by (simp add: remote_open_def open_stream_ok)
  have in2: "pending in2 = encode_header (activation_header i g) @ concat (map (msg_frame (step_codec wire)) ss) @ msg_frame (step_codec wire) Done"
    using remote_finish_sent [OF _ assms(13), of ss remote "result_codec wire"] assms(14,18,19,26) remote by simp
  have d: "direct (executor_run ?svc) i ?n ss = (rs, ?n\<lparr>shard_thread := Alive (Some sh')\<rparr>)"
    using node_direct [of ?n sh e i ss rs sh'] assms(12) by (simp add: svc)
  from serve_activation [of ?svc, unfolded svc(3,4), OF assms(3,13,14) d assms(15,22) in2, of dev "[]"] rest
  have m: "m = node_drop e (?n\<lparr>shard_thread := Alive (Some sh')\<rparr>) i"
    and out2: "sent out2 = concat (map (\<lambda>r. msg_frame (result_codec wire) (result_of r)) rs)"
    using assms(23) by (auto simp: svc)
  have "fst (remote_steps (step_codec wire) (result_codec wire) remote ss) = map (\<lambda>r. shard_reply (result_of r)) rs"
    by (rule remote_steps_answers [OF assms(4), where rest = "[]"])
      (use assms(14,15,18,29) out2 remote direct_length [OF d] in auto)
  with loaded m show ?thesis by (simp add: node_drop_def thread_job_def)
qed

section \<open>An instance\<close>

text \<open>A serialisation of a single message.\<close>

definition one_message :: "'m \<Rightarrow> 'm postcard" where
  "one_message m = \<lparr>to_bytes = \<lambda>x. if x = m then Inr [0] else Inl ''size'', of_bytes = \<lambda>bs. if bs = [0] then Inr m else Inl ''bad''\<rparr>"

lemma one_message: "postcard_law (one_message m)" "fits (one_message m) m" "sendable (one_message m) m"
  "msg_frame (one_message m) m = frame [0]"
  by (auto simp: one_message_def postcard_law_def fits_def sendable_def msg_frame_def MAX_CONTROL_FRAME_def
      MAX_ACTIVATION_FRAME_def split: if_splits)

definition example_loaded :: response where
  "example_loaded = ShardLoaded (weight_bytes_held (the (stats example_shard))) (unat (kv_bytes_held (the (stats example_shard))))"

definition example_messages :: "string + payload \<Rightarrow> unit services" where
  "example_messages r =
     \<lparr>request_codec = one_message (LoadShard example_spec), response_codec = one_message example_loaded, step_codec = example_steps,
      result_codec = one_message (result_of r), ack_codec = example_acks, control_handle = (\<lambda>_ _ _. (None, ())),
      executor_run = (\<lambda>_ _ _. (Inl [], ())), executor_drop = (\<lambda>_ _. ()), rpc_connect = (\<lambda>_ _. (None, ())),
      rpc_reads = (\<lambda>_. []), rpc_halt = (0, True)\<rparr>"

lemma example_stats: "stats example_shard = Some (the (stats example_shard))"
  by (simp add: stats_def example_shard_def kv_bytes_def head_dim_def example_spec_def)

lemma example_prefill: "\<not> isl (fst (prefill example_candle example_convert example_shard 1 0 (Tokens [])))"
  by code_simp

lemma example_shard_steps:
  "\<exists>r sh. shard_steps example_surroundings 1 example_shard [PrefillStep 0 (Tokens [])] = Some ([Inr r], sh)"
proof -
  obtain x sh where "prefill example_candle example_convert example_shard 1 0 (Tokens []) = (Inr x, sh)"
    using example_prefill by (metis isl_def surj_pair sum.exhaust_sel fst_conv)
  then show ?thesis by (simp add: run_step_def example_surroundings_def Let_def)
qed

lemma example_load: "load_shard example_surroundings example_spec example_node = (Some example_loaded, example_node\<lparr>shard_thread := Alive (Some example_shard)\<rparr>)"
  unfolding example_loaded_def load_cases
  using example_stats by (auto simp: example_node_def node_new_def example_surroundings_def example_spec_def)

lemma remote_execution_witness:
  "\<exists>r remote. fst (remote_steps example_steps (one_message (result_of (Inr r))) remote [PrefillStep 0 (Tokens [])]) = [Inr r]"
proof -
  obtain r sh where steps: "shard_steps example_surroundings 1 example_shard [PrefillStep 0 (Tokens [])] = Some ([Inr r], sh)"
    using example_shard_steps by blast
  let ?w = "example_messages (Inr r)"
  let ?svc = "node_services example_surroundings (\<lambda>_ r. (None, r)) ?w"
  let ?ss = "[PrefillStep 0 (Tokens [])]"
  let ?reply = "\<lparr>pending = frame [0], rx_fault = []\<rparr>"
  let ?remote = "\<lparr>remote_send = fresh_tx\<lparr>sent := encode_header (activation_header 1 0)\<rparr>, remote_recv = ?reply\<rparr>"
  let ?in1 = "\<lparr>pending = encode_header control_header @ frame [0], rx_fault = []\<rparr>"
  let ?in2 = "\<lparr>pending = encode_header (activation_header 1 0) @ frame [0] @ frame [1], rx_fault = []\<rparr>"
  let ?n = "example_node\<lparr>shard_thread := Alive (Some example_shard)\<rparr>"
  have w: "request_codec ?w = one_message (LoadShard example_spec)" "response_codec ?w = one_message example_loaded"
    "step_codec ?w = example_steps" "result_codec ?w = one_message (result_of (Inr r))"
    by (simp_all add: example_messages_def)
  have tx: "open_tx fresh_tx" "sent fresh_tx = []" by (simp_all add: fresh_tx_def open_tx_def)
  have st: "sendable example_steps Done" "\<forall>s \<in> set ?ss. s \<noteq> Done \<and> sendable example_steps s"
    by (simp_all add: sendable_def example_steps_def MAX_ACTIVATION_FRAME_def)
  have fr: "msg_frame example_steps (PrefillStep 0 (Tokens [])) = frame [0]" "msg_frame example_steps Done = frame [1]"
    by (simp_all add: msg_frame_def example_steps_def)
  have rs: "\<forall>x \<in> set [Inr r]. sendable (result_codec ?w) (result_of x)" by (simp add: w one_message(3))
  have op: "remote_open (Inr (fresh_tx, ?reply)) 1 0 = Inr ?remote"
    using open_stream_ok [OF tx(1)] tx(2) by (simp add: remote_open_def)
  have svc: "control_handle ?svc = node_handle example_surroundings" "executor_run ?svc = node_run example_surroundings"
    "request_codec ?svc = request_codec ?w" "response_codec ?svc = response_codec ?w" "step_codec ?svc = step_codec ?w"
    "result_codec ?svc = result_codec ?w"
    by (simp_all add: node_services_def)
  have "dispatch_serve ?svc (DeviceId [1]) example_node [Inr (fresh_tx, ?in1), Inr (fresh_tx, ?in2)] =
      (case dispatch_serve ?svc (DeviceId [1]) ?n [Inr (fresh_tx, ?in2)] of
         (m, sends) \<Rightarrow> (m, fresh_tx\<lparr>sent := frame [0], finished := True\<rparr> # sends))"
    using serve_control [of ?svc "LoadShard example_spec" example_loaded example_node "DeviceId [1]" ?n fresh_tx ?in1] example_load tx
    by (simp add: svc w one_message node_handle_def)
  moreover have "dispatch_serve ?svc (DeviceId [1]) ?n [Inr (fresh_tx, ?in2)] =
      (executor_drop ?svc (?n\<lparr>shard_thread := Alive (Some sh)\<rparr>) 1, [fresh_tx\<lparr>sent := frame [0]\<rparr>])"
    using serve_activation [of ?svc ?ss 1 ?n "[Inr r]" "?n\<lparr>shard_thread := Alive (Some sh)\<rparr>" fresh_tx ?in2 0]
      node_direct [OF _ steps, of ?n] st rs fr tx example_codecs(1)
    by (simp add: svc w one_message)
  ultimately have served: "dispatch_serve ?svc (DeviceId [1]) example_node [Inr (fresh_tx, ?in1), Inr (fresh_tx, ?in2)] =
      (executor_drop ?svc (?n\<lparr>shard_thread := Alive (Some sh)\<rparr>) 1,
       [fresh_tx\<lparr>sent := frame [0], finished := True\<rparr>, fresh_tx\<lparr>sent := frame [0]\<rparr>])" by simp
  have in1: "pending ?in1 = snd (control_request (request_codec ?w) (response_codec ?w) (Inr (fresh_tx, ?reply)) (LoadShard example_spec))"
    using request_sends [OF one_message(2) tx(1)] tx(2) by (simp add: w one_message(4))
  have in2: "pending ?in2 = sent (remote_finish (step_codec ?w) (snd (remote_steps (step_codec ?w) (result_codec ?w) ?remote ?ss)))"
    using remote_finish_sent [of ?ss example_steps ?remote] st tx fr by (simp add: w)
  have "node_model example_node = Some ''model.gguf''" "hash_of example_surroundings ''model.gguf'' = Inr (model_hash example_spec)"
    "shard_thread example_node = Alive None" "open_file example_surroundings ''model.gguf'' example_spec = Inr example_shard"
    by (simp_all add: example_node_def node_new_def example_surroundings_def example_spec_def)
  have laws: "postcard_law (request_codec ?w)" "postcard_law (response_codec ?w)" "postcard_law (step_codec ?w)"
    "postcard_law (result_codec ?w)" "fits (request_codec ?w) (LoadShard example_spec)"
    "fits (response_codec ?w) (ShardLoaded (weight_bytes_held (the (stats example_shard))) (unat (kv_bytes_held (the (stats example_shard)))))"
    by (simp_all add: w one_message example_codecs(1) example_loaded_def)
  have st': "sendable (step_codec ?w) Done" "\<forall>s \<in> set ?ss. s \<noteq> Done \<and> sendable (step_codec ?w) s"
    unfolding w by (rule st)+
  have model: "node_model example_node = Some ''model.gguf''" "hash_of example_surroundings ''model.gguf'' = Inr (model_hash example_spec)"
    "shard_thread example_node = Alive None" "open_file example_surroundings ''model.gguf'' example_spec = Inr example_shard"
    by (simp_all add: example_node_def node_new_def example_surroundings_def example_spec_def)
  have "fst (remote_steps (step_codec ?w) (result_codec ?w) ?remote ?ss) = map (\<lambda>r. shard_reply (result_of r)) [Inr r]"
    using remote_execution [OF laws model example_stats steps st' rs tx tx tx tx op in1 in2 served] by simp
  then show ?thesis by (auto simp: w result_of_def)
qed

end
