(* ===== verification/Served_Rpc.thy ===== *)
theory Served_Rpc
  imports Served_Node
begin

text \<open>
  Inference over a connection: an RPC stream served by \<open>dispatch.rs\<close>, whose handler is the node's worker
  runtime. \<open>runtime_connect\<close> is \<open>connect\<close> of \<open>crates/latticed/src/runtime.rs\<close> as one call, in a world that
  answers its checks and dials; it is a path of the step relation of \<open>Runtime\<close>, so what holds in all
  reachable states holds before and after it. Through the stream a device reaches the inference process
  exactly when it is the registered master and the process can be reached.
\<close>

section \<open>One call of connect\<close>






section \<open>The call as a path\<close>
















section \<open>The node's RPC streams\<close>


section \<open>Properties\<close>



section \<open>An instance\<close>







end
