(* ===== verification/Answered.thy ===== *)
theory Answered
  imports Dispatch
begin

text \<open>
  Exchanges seen from the end that succeeded. Elsewhere it is shown what a message that can be sent leads
  to at the other end; here a requester or a master that got an answer concludes what the other end has
  done. Nothing is assumed of the messages: that they could be encoded, were below the ceilings and were
  written follows from the answer. \<open>tied\<close> is the state between two steps of an activation stream.
\<close>

section \<open>Writing to an open stream\<close>

text \<open>On a stream that takes every byte a frame is written whole or not at all.\<close>

lemma write_frame_open:
  assumes "open_tx s"
  shows "write_frame bs s =
    (if length bs \<le> u32_max then (Inr (), s\<lparr>sent := sent s @ frame bs\<rparr>) else (Inl (Stream ''frame exceeds 4 GiB''), s))"
proof -
  have "accepts s (length (frame bs))" using assms by (simp add: open_tx_def accepts_def)
  then show ?thesis using write_frame_sent [of bs s] by (simp add: write_frame_def)
qed

lemma open_tx_finish: "open_tx s \<Longrightarrow> finish s = (Inr (), s\<lparr>finished := True\<rparr>)"
  by (simp add: open_tx_def finish_def)

lemma read_frame_nothing: "pending r = [] \<Longrightarrow> read_frame n r \<noteq> Inr x"
  by (simp add: read_frame_def read_exact_def)

lemma read_frame_of:
  assumes "read_frame largest r = Inr (p, r')" and "pending r = frame q @ rest" and "length q \<le> u32_max"
  shows "p = q \<and> pending r' = rest \<and> length q \<le> largest"
proof -
  from read_frame_Inr [OF assms(1)] have r: "pending r = frame p @ pending r'" "length p \<le> largest" "length p \<le> u32_max" by auto
  with assms(2) have "frame p @ pending r' = frame q @ rest" by simp
  then have e: "(of_nat (length p) :: u32) = of_nat (length q)" "p @ pending r' = q @ rest"
    by (simp_all add: frame_def le32.enc_append_inject)
  have "length p = length q" using arg_cong [OF e(1), of unat] assms(3) r(3) by simp
  with e(2) r(2) show ?thesis by simp
qed

section \<open>A control exchange\<close>

text \<open>A requester that got an answer.\<close>

lemma request_answered:
  assumes "fst (control_request kq kr (Inr (s, r)) q) = Inr a" and "open_tx s" and "sent s = []"
  obtains bs rb r' where "to_bytes kq q = Inr bs" "length bs \<le> u32_max"
    "snd (control_request kq kr (Inr (s, r)) q) = encode_header control_header @ frame bs"
    "read_frame MAX_CONTROL_FRAME r = Inr (rb, r')" "of_bytes kr rb = Inr a"
proof -
  let ?s = "s\<lparr>sent := encode_header control_header\<rparr>"
  have o: "open_stream (Inr (s, r)) control_header = Inr (?s, r)" "open_tx ?s"
    using open_stream_ok [OF assms(2)] assms(2,3) by simp_all
  from assms(1) o(1) obtain bs where bs: "to_bytes kq q = Inr bs"
    by (cases "to_bytes kq q") (simp_all add: control_request_def encode_msg_def)
  have len: "length bs \<le> u32_max"
    using assms(1) o bs write_frame_open [OF o(2), of bs] by (simp add: control_request_def encode_msg_def split: if_splits)
  have fin: "finish (?s\<lparr>sent := encode_header control_header @ frame bs\<rparr>) =
      (Inr (), ?s\<lparr>sent := encode_header control_header @ frame bs, finished := True\<rparr>)"
    by (rule open_tx_finish) (use o(2) in simp)
  have all: "control_request kq kr (Inr (s, r)) q =
      (rbind (read_frame MAX_CONTROL_FRAME r) (\<lambda>(bs, _). decode_msg kr bs), encode_header control_header @ frame bs)"
    using o bs len write_frame_open [OF o(2), of bs] fin by (simp add: control_request_def encode_msg_def)
  with assms(1) obtain rb r' where "read_frame MAX_CONTROL_FRAME r = Inr (rb, r')" "of_bytes kr rb = Inr a"
    by (auto simp: result_simps decode_msg_def)
  with that bs len all show thesis by simp
qed

text \<open>If a device that served the stream sent anything, it read the request and sent its handler's response.\<close>

lemma answer_written:
  assumes "control_answer kq kr handle dev h t (served\<lparr>pending := frame bs\<rparr>) = (e, h', t')"
    and "of_bytes kq bs = Inr q" and "length bs \<le> u32_max" and "open_tx t" and "sent t' \<noteq> sent t"
  obtains a ab where "handle h dev q = (Some a, h')" "to_bytes kr a = Inr ab" "length ab \<le> u32_max" "sent t' = sent t @ frame ab"
proof -
  have "read_frame MAX_CONTROL_FRAME (served\<lparr>pending := frame bs\<rparr>) = Inr (bs, served\<lparr>pending := []\<rparr>)"
  proof (rule ccontr)
    assume n: "\<not> ?thesis"
    have "\<not> length bs \<le> MAX_CONTROL_FRAME"
      using n read_frame_frame [of bs MAX_CONTROL_FRAME "served\<lparr>pending := frame bs\<rparr>" "[]"] assms(3) by auto
    then obtain why where "read_frame MAX_CONTROL_FRAME (served\<lparr>pending := frame bs\<rparr>) = Inl why"
      using read_frame_of [of MAX_CONTROL_FRAME "served\<lparr>pending := frame bs\<rparr>" _ _ bs "[]"] assms(3)
      by (cases "read_frame MAX_CONTROL_FRAME (served\<lparr>pending := frame bs\<rparr>)") auto
    with assms(1,5) show False by (simp add: control_answer_def)
  qed
  note r = this assms(2)
  obtain x h1 where h: "handle h dev q = (x, h1)" by (cases "handle h dev q")
  show thesis
  proof (cases x)
    case None
    with assms(1,5) r h show thesis by (simp add: control_answer_def)
  next
    case (Some a)
    then obtain ab where ab: "to_bytes kr a = Inr ab"
      using assms(1,5) r h by (cases "to_bytes kr a") (simp_all add: control_answer_def encode_msg_def)
    have "length ab \<le> u32_max"
      using assms(1,5) r h Some ab write_frame_open [OF assms(4), of ab]
      by (simp add: control_answer_def encode_msg_def split: if_splits)
    moreover have "open_tx (t\<lparr>sent := sent t @ frame ab\<rparr>)" using assms(4) by simp
    ultimately have "h' = h1" "sent t' = sent t @ frame ab"
      using assms(1) r h Some ab write_frame_open [OF assms(4), of ab] open_tx_finish
      by (auto simp: control_answer_def encode_msg_def)
    with that ab h Some \<open>length ab \<le> u32_max\<close> show thesis by simp
  qed
qed

text \<open>Both ends: the answer is the handler's response to the request.\<close>

lemma exchange_answered:
  assumes "postcard_law (request_codec svc)" and "postcard_law (response_codec svc)"
    and "fst (control_request (request_codec svc) (response_codec svc) (Inr (s, r)) q) = Inr a"
    and "open_tx s" and "sent s = []" and "open_tx t" and "sent t = []"
    and "pending served = snd (control_request (request_codec svc) (response_codec svc) (Inr (s, r)) q)"
    and "dispatch_serve svc dev n (Inr (t, served) # chs) = (m, t' # sends)" and "pending r = sent t'"
  shows "\<exists>n'. control_handle svc n dev q = (Some a, n') \<and> dispatch_serve svc dev n' chs = (m, sends)"
proof -
  from request_answered [OF assms(3-5)] obtain bs rb r' where q: "to_bytes (request_codec svc) q = Inr bs" "length bs \<le> u32_max"
    and sentb: "snd (control_request (request_codec svc) (response_codec svc) (Inr (s, r)) q) = encode_header control_header @ frame bs"
    and rb: "read_frame MAX_CONTROL_FRAME r = Inr (rb, r')" "of_bytes (response_codec svc) rb = Inr a" .
  have "pending served = encode_header control_header @ frame bs" using assms(8) sentb by simp
  note acc = accept_headed [OF this, of t]
  obtain e n' where ans: "control_answer (request_codec svc) (response_codec svc) (control_handle svc) dev n t
      (served\<lparr>pending := frame bs\<rparr>) = (e, n', t')" and rest: "dispatch_serve svc dev n' chs = (m, sends)"
    using assms(9) acc by (auto simp: dispatch_stream_def control_header_def split: prod.splits)
  have "sent t' \<noteq> sent t" using rb(1) assms(7,10) read_frame_nothing [of r] by auto
  from answer_written [OF ans _ q(2) assms(6) this] q(1) assms(1) obtain a' ab where
    h: "control_handle svc n dev q = (Some a', n')" "to_bytes (response_codec svc) a' = Inr ab" "length ab \<le> u32_max" "sent t' = sent t @ frame ab"
    by (auto simp: postcard_law_def)
  have "rb = ab" using read_frame_of [OF rb(1), of ab "[]"] h(3,4) assms(7,10) by simp
  with rb(2) h(2) assms(2) have "a' = a" by (auto simp: postcard_law_def)
  with h(1) rest show ?thesis by blast
qed

section \<open>The steps of a stream\<close>

lemma reply_open:
  assumes "open_tx t"
  shows "(\<exists>rb. to_bytes kr a = Inr rb \<and> length rb \<le> u32_max \<and> reply kr a t = (Inr (), t\<lparr>sent := sent t @ frame rb\<rparr>)) \<or>
    (\<exists>e. reply kr a t = (Inl e, t))"
  using assms by (cases "to_bytes kr a") (simp_all add: reply_def encode_msg_def write_frame_open)

lemma serve_loop_appends:
  "open_tx t \<Longrightarrow> serve_loop ks kr ex sid x t recv = (x', t') \<Longrightarrow> \<exists>more. sent t' = sent t @ more"
proof (induction ks kr ex sid x t recv rule: serve_loop.induct)
  case (1 ks kr ex sid x t recv)
  show ?case
  proof (cases "read_frame MAX_ACTIVATION_FRAME recv")
    case (Inl e)
    with 1(3) show ?thesis by (simp add: serve_loop.simps [of ks kr ex sid x t recv])
  next
    case (Inr f)
    obtain bs recv1 where f: "read_frame MAX_ACTIVATION_FRAME recv = Inr (bs, recv1)" using Inr by (cases f) simp
    show ?thesis
    proof (cases "of_bytes ks bs")
      case e: (Inl e)
      have "sent t' = sent (snd (reply kr (Failed (''unintelligible: '' @ e)) t))"
        using 1(3) f e by (simp add: serve_loop.simps [of ks kr ex sid x t recv])
      then show ?thesis using reply_open [OF 1(2), of kr "Failed (''unintelligible: '' @ e)"] by auto
    next
      case s: (Inr s)
      show ?thesis
      proof (cases "s = Done")
        case True
        with 1(3) f s show ?thesis by (simp add: serve_loop.simps [of ks kr ex sid x t recv])
      next
        case False
        obtain r x1 where r: "ex x sid s = (r, x1)" by (cases "ex x sid s")
        from reply_open [OF 1(2), of kr "result_of r"] show ?thesis
        proof (elim disjE exE conjE)
          fix rb assume rb: "reply kr (result_of r) t = (Inr (), t\<lparr>sent := sent t @ frame rb\<rparr>)"
          then have "serve_loop ks kr ex sid x1 (t\<lparr>sent := sent t @ frame rb\<rparr>) recv1 = (x', t')"
            using 1(3) f s False r by (simp add: serve_loop.simps [of ks kr ex sid x t recv])
          with 1(1) [OF f refl s False r [symmetric] rb [symmetric] refl] 1(2) show ?thesis by auto
        next
          fix e assume "reply kr (result_of r) t = (Inl e, t)"
          with 1(3) f s False r show ?thesis by (simp add: serve_loop.simps [of ks kr ex sid x t recv])
        qed
      qed
    qed
  qed
qed

text \<open>A device in state \<open>x\<close> that has sent what the master has read, and will read, of the whole of what the
  master writes (\<open>all\<close>), the part after what is written by now.\<close>

definition tied ::
    "step postcard \<Rightarrow> step_result postcard \<Rightarrow> ('x \<Rightarrow> u64 \<Rightarrow> step \<Rightarrow> (string + payload) \<times> 'x) \<Rightarrow> u64 \<Rightarrow> bytes \<Rightarrow>
       remote_shard \<Rightarrow> 'x \<Rightarrow> bool" where
  "tied ks kr ex sid all r x \<longleftrightarrow> open_tx (remote_send r) \<and>
     (\<exists>t recv x' t'. open_tx t \<and> serve_loop ks kr ex sid x t recv = (x', t') \<and>
        sent t' = sent t @ pending (remote_recv r) \<and> all = sent (remote_send r) @ pending recv)"

text \<open>A step that succeeds at the master was written, and its answer read.\<close>

lemma remote_step_Inr:
  assumes "remote_step ks kr r s = (Inr p, r')" and "open_tx (remote_send r)"
  obtains bs rb where "to_bytes ks s = Inr bs" "length bs \<le> u32_max"
    "remote_send r' = (remote_send r)\<lparr>sent := sent (remote_send r) @ frame bs\<rparr>"
    "read_frame MAX_ACTIVATION_FRAME (remote_recv r) = Inr (rb, remote_recv r')" "of_bytes kr rb = Inr (Output p)"
proof -
  from assms(1) obtain bs where bs: "to_bytes ks s = Inr bs"
    by (cases "to_bytes ks s") (simp_all add: remote_step_def encode_msg_def)
  have len: "length bs \<le> u32_max"
    using assms(1) bs write_frame_open [OF assms(2), of bs] by (simp add: remote_step_def encode_msg_def split: if_splits)
  with assms(1) bs write_frame_open [OF assms(2), of bs] obtain rb recv where
    rb: "read_frame MAX_ACTIVATION_FRAME (remote_recv r) = Inr (rb, recv)"
    "rbind (decode_msg kr rb) shard_reply = Inr p"
    "r' = \<lparr>remote_send = (remote_send r)\<lparr>sent := sent (remote_send r) @ frame bs\<rparr>, remote_recv = recv\<rparr>"
    by (auto simp: remote_step_def encode_msg_def split: sum.splits)
  from rb(2) obtain a where "of_bytes kr rb = Inr a" "shard_reply a = Inr p" by (auto simp: result_simps decode_msg_def)
  then have "of_bytes kr rb = Inr (Output p)" by (cases a) simp_all
  with that bs len rb(1,3) show thesis by simp
qed

lemma tied_step:
  assumes "postcard_law ks" and "postcard_law kr"
    and tied: "tied ks kr ex sid all r x" and step: "remote_step ks kr r s = (Inr p, r')" and "s \<noteq> Done"
    and all: "all = sent (remote_send r') @ later"
  shows "\<exists>x1. ex x sid s = (Inr p, x1) \<and> tied ks kr ex sid all r' x1"
proof -
  from tied obtain t recv x' t' where o: "open_tx (remote_send r)" "open_tx t" and
    loop: "serve_loop ks kr ex sid x t recv = (x', t')" and
    out: "sent t' = sent t @ pending (remote_recv r)" and al: "all = sent (remote_send r) @ pending recv"
    by (auto simp: tied_def)
  from remote_step_Inr [OF step o(1)] obtain bs rb where bs: "to_bytes ks s = Inr bs" "length bs \<le> u32_max"
    and send: "remote_send r' = (remote_send r)\<lparr>sent := sent (remote_send r) @ frame bs\<rparr>"
    and rb: "read_frame MAX_ACTIVATION_FRAME (remote_recv r) = Inr (rb, remote_recv r')" "of_bytes kr rb = Inr (Output p)" .
  have spoke: "t' \<noteq> t" using rb(1) out read_frame_nothing [of "remote_recv r"] by auto
  have pend: "pending recv = frame bs @ later" using all al send by simp
  let ?recv = "recv\<lparr>pending := later\<rparr>"
  have "length bs \<le> MAX_ACTIVATION_FRAME"
  proof (rule ccontr)
    assume "\<not> ?thesis"
    then obtain e where "read_frame MAX_ACTIVATION_FRAME recv = Inl e"
      using read_frame_of [OF _ pend bs(2), of MAX_ACTIVATION_FRAME] by (cases "read_frame MAX_ACTIVATION_FRAME recv") auto
    with loop spoke show False by (simp add: serve_loop.simps [of ks kr ex sid x t recv])
  qed
  from read_frame_frame [OF bs(2) this pend] have rd: "read_frame MAX_ACTIVATION_FRAME recv = Inr (bs, ?recv)" "of_bytes ks bs = Inr s"
    using bs(1) assms(1) by (simp_all add: postcard_law_def)
  obtain a x1 where a: "ex x sid s = (a, x1)" by (cases "ex x sid s")
  from reply_open [OF o(2), of kr "result_of a"] loop spoke obtain ab where ab: "to_bytes kr (result_of a) = Inr ab"
    "length ab \<le> u32_max" "reply kr (result_of a) t = (Inr (), t\<lparr>sent := sent t @ frame ab\<rparr>)"
    using rd assms(5) a by (auto simp: serve_loop.simps [of ks kr ex sid x t recv])
  let ?t = "t\<lparr>sent := sent t @ frame ab\<rparr>"
  have loop1: "serve_loop ks kr ex sid x1 ?t ?recv = (x', t')"
    using loop rd assms(5) a ab by (simp add: serve_loop.simps [of ks kr ex sid x t recv])
  have ot: "open_tx ?t" using o(2) by simp
  from serve_loop_appends [OF ot loop1] obtain more where more: "sent t' = sent t @ frame ab @ more" by auto
  then have "pending (remote_recv r) = frame ab @ more" using out by simp
  from read_frame_of [OF rb(1) this ab(2)] have "rb = ab" "pending (remote_recv r') = more" by simp_all
  with rb(2) ab(1) assms(2) have "result_of a = Output p" by (auto simp: postcard_law_def)
  then have "a = Inr p" by (cases a) (simp_all add: result_of_def)
  moreover have "tied ks kr ex sid all r' x1"
    unfolding tied_def using o(1) ot loop1 more \<open>pending (remote_recv r') = more\<close> send all
    by (intro conjI exI [of _ ?t] exI [of _ ?recv] exI [of _ x'] exI [of _ t']) simp_all
  ultimately show ?thesis using a by blast
qed

end
