(* ===== verification/Served_Master.thy ===== *)
theory Served_Master
  imports Master_Loop Answered Served_Node
begin

text \<open>
  The service of a master behind its connections (\<open>serve\<close> of \<open>crates/latticed/src/startup/master.rs\<close>): every
  connection is dispatched with a handler of its own for control requests, the node as executor, and no
  inference runtime. A worker that registers over a connection is queued exactly when it is told so, and
  once it is taken up, the workers that are live come to know each other.
\<close>

section \<open>The services of a connection\<close>

definition master_run :: "('t, 'q) surroundings \<Rightarrow> ('t, 'q) master \<Rightarrow> u64 \<Rightarrow> step \<Rightarrow> (string + payload) \<times> ('t, 'q) master" where
  "master_run e m i s = (case node_run e (master_node m) i s of (r, n) \<Rightarrow> (r, m\<lparr>master_node := n\<rparr>))"

definition master_drop :: "('t, 'q) surroundings \<Rightarrow> ('t, 'q) master \<Rightarrow> u64 \<Rightarrow> ('t, 'q) master" where
  "master_drop e m i = m\<lparr>master_node := node_drop e (master_node m) i\<rparr>"

definition master_services :: "('t, 'q) surroundings \<Rightarrow> worker_conn \<Rightarrow> unit services \<Rightarrow> ('t, 'q) master services" where
  "master_services e c wire =
     deny_services
       \<lparr>request_codec = request_codec wire, response_codec = response_codec wire, step_codec = step_codec wire,
        result_codec = result_codec wire, ack_codec = ack_codec wire, control_handle = master_handle e c,
        executor_run = master_run e, executor_drop = master_drop e, rpc_connect = (\<lambda>m _. (None, m)),
        rpc_reads = rpc_reads wire, rpc_halt = rpc_halt wire\<rparr>"

lemma master_services_fields [simp]:
  "request_codec (master_services e c wire) = request_codec wire" "response_codec (master_services e c wire) = response_codec wire"
  "control_handle (master_services e c wire) = master_handle e c"
  by (simp_all add: master_services_def deny_services_def)

interpretation master_executor: executor "master_run e" "master_drop e" for e :: "('t, 'q) surroundings"
  by unfold_locales (simp add: master_drop_def node_executor.discard_idem)

text \<open>What the handler answers to a registration.\<close>

lemma register_cases:
  assumes "master_handle e c m dev (RegisterWorker p) = (Some a, m')"
  shows "master_node m' = master_node m \<and>
    (if p \<noteq> 0 \<and> queue_open m \<and> length (join_queue m) < QUEUE
     then a = WorkerRegistered \<and> join_queue m' = join_queue m @ [\<lparr>joined_conn = c, joined_port = p\<rparr>]
     else a = Refused (if p = 0 then ''worker port must be nonzero'' else MASTER_BUSY) \<and> m' = m)"
  using assms by (auto simp: master_handle_def try_send_def Let_def split: if_splits)

section \<open>Properties\<close>

text \<open>A worker is told the truth about its registration. A worker sends its registration on a control stream,
  the master serves the stream, each end reads what the other wrote, and the worker gets an answer. Then
  the answer is that it is registered exactly when its connection was put at the end of the queue, which
  happens when it named a port and the queue had room; otherwise it is the reason, and the master is as it
  was.\<close>

theorem registration_served:
  assumes "postcard_law (request_codec wire)" and "postcard_law (response_codec wire)"
    and "fst (control_request (request_codec wire) (response_codec wire) (Inr (s, r)) (RegisterWorker p)) = Inr a"
    and "open_tx s" and "sent s = []" and "open_tx t" and "sent t = []"
    and "pending served = snd (control_request (request_codec wire) (response_codec wire) (Inr (s, r)) (RegisterWorker p))"
    and "dispatch_serve (master_services e c wire) dev m [Inr (t, served)] = (m', [t'])" and "pending r = sent t'"
  shows "master_node m' = master_node m \<and>
    (if p \<noteq> 0 \<and> queue_open m \<and> length (join_queue m) < QUEUE
     then a = WorkerRegistered \<and> join_queue m' = join_queue m @ [\<lparr>joined_conn = c, joined_port = p\<rparr>]
     else a = Refused (if p = 0 then ''worker port must be nonzero'' else MASTER_BUSY) \<and> m' = m)"
proof -
  from exchange_answered [of "master_services e c wire", unfolded master_services_fields, OF assms]
  have "master_handle e c m dev (RegisterWorker p) = (Some a, m')" by auto
  then show ?thesis by (rule register_cases)
qed

text \<open>C28: Workers of one master come to know each other. When the master takes up a registration, every worker that
  is then live, the new one included, is sent a roster, over the connection of its latest registration.
  A worker that serves that request and whose answer the master reads as provisioned knows every device
  the master is paired with, except itself.\<close>

theorem joining_introduces:
  assumes "master_reachable peer_at em nm ms" and "join_queue (ms_master ms) = j # js"
    and "bt_get (ms_live (after_join j js peers ms)) i = Some c" and "node_id n = i"
    and "\<forall>k k'. key_check e k = Inr k' \<longrightarrow> k' = k"
    and "\<forall>p \<in> set peers. paired_peer.device_id p = from_public_key (key_hash e) (public_key p)"
    and "postcard_law (request_codec wire)" and "postcard_law (response_codec wire)"
    and "fst (control_request (request_codec wire) (response_codec wire) (Inr (s, r)) (Provision (roster_for i peers))) =
      Inr (Provisioned added known)"
    and "open_tx s" and "sent s = []" and "open_tx t" and "sent t = []"
    and "pending served = snd (control_request (request_codec wire) (response_codec wire) (Inr (s, r)) (Provision (roster_for i peers)))"
    and "dispatch_serve (node_services e link wire) dev n [Inr (t, served)] = (n', [t'])" and "pending r = sent t'"
  shows "(c, roster_for i peers) \<in> set (fst (join peers (joined_conn j) (ms_live ms))) \<and>
    latest i (taken ms @ [j]) = Some c \<and>
    (\<forall>p \<in> set peers. paired_peer.device_id p = i \<or> knows n' (paired_peer.device_id p))"
proof -
  let ?s = "after_join j js peers ms"
  have "master_reachable peer_at em nm ?s"
    using assms(1,2) by (blast intro: master_reachable.stepped master_step.joining)
  then have l: "bt_wf (ms_live ?s)" "latest i (taken ?s) = Some c" "wc_peer c = i"
    using master_ok_reachable assms(3) unfolding live_ok_def by blast+
  have live: "ms_live ?s = bt_insert (wc_peer (joined_conn j)) (joined_conn j) (ms_live ms)"
    by (simp add: after_join_def join_def Let_def)
  have "c \<in> set (bt_values (ms_live ?s))" using bt_values_set [OF l(1)] assms(3) by (auto simp: ran_def)
  then have roster: "(c, roster_for i peers) \<in> set (fst (join peers (joined_conn j) (ms_live ms)))"
    using l(3) unfolding live by (auto simp: join_def Let_def)
  have svc: "request_codec (node_services e link wire) = request_codec wire" "response_codec (node_services e link wire) = response_codec wire"
    "control_handle (node_services e link wire) = node_handle e"
    by (simp_all add: node_services_def)
  from exchange_answered [of "node_services e link wire", unfolded svc, OF assms(7-16)]
  have h: "node_handle e n dev (Provision (roster_for (node_id n) peers)) = (Some (Provisioned added known), n')"
    using assms(4) by auto
  from roster_known [OF assms(5,6) h] assms(4) roster l(2) show ?thesis by (simp add: after_join_def)
qed

section \<open>Instances\<close>

text \<open>A wire that carries one request and one response.\<close>

definition example_wire_of :: "request \<Rightarrow> response \<Rightarrow> unit services" where
  "example_wire_of q a = (example_messages (Inl []))\<lparr>request_codec := one_message q, response_codec := one_message a\<rparr>"

text \<open>A request and its answer, as a connection carries them.\<close>

lemma example_exchange:
  assumes "request_codec svc = one_message q" and "response_codec svc = one_message a" and "control_handle svc n dev q = (Some a, n')"
  shows "fst (control_request (one_message q) (one_message a) (Inr (fresh_tx, \<lparr>pending = frame [0], rx_fault = []\<rparr>)) q) = Inr a \<and>
    encode_header control_header @ frame [0] =
      snd (control_request (one_message q) (one_message a) (Inr (fresh_tx, \<lparr>pending = frame [0], rx_fault = []\<rparr>)) q) \<and>
    dispatch_serve svc dev n [Inr (fresh_tx, \<lparr>pending = encode_header control_header @ frame [0], rx_fault = []\<rparr>)] =
      (n', [fresh_tx\<lparr>sent := frame [0], finished := True\<rparr>])"
proof -
  have tx: "open_tx fresh_tx" "sent fresh_tx = []" by (simp_all add: fresh_tx_def open_tx_def)
  have "fst (control_request (one_message q) (one_message a) (Inr (fresh_tx, \<lparr>pending = frame [0], rx_fault = []\<rparr>)) q) = Inr a"
    by (rule request_receives [where rest = "[]"]) (simp_all add: one_message tx)
  moreover have "snd (control_request (one_message q) (one_message a) (Inr (fresh_tx, \<lparr>pending = frame [0], rx_fault = []\<rparr>)) q) =
      encode_header control_header @ frame [0]"
    using request_sends [OF one_message(2) tx(1)] tx(2) by (simp add: one_message(4))
  moreover have "dispatch_serve svc dev n [Inr (fresh_tx, \<lparr>pending = encode_header control_header @ frame [0], rx_fault = []\<rparr>)] =
      (n', [fresh_tx\<lparr>sent := frame [0], finished := True\<rparr>])"
    using serve_control [of svc q a n dev n' fresh_tx "\<lparr>pending = encode_header control_header @ frame [0], rx_fault = []\<rparr>" "[]"] assms tx
    by (simp add: one_message)
  ultimately show ?thesis by simp
qed

definition example_master :: "(int list, int) master" where
  "example_master = \<lparr>master_node = example_node, join_queue = [], queue_open = True\<rparr>"

lemma registration_served_witness:
  "\<exists>m :: (int list, int) master. join_queue m = [example_joined 1] \<and> master_node m = master_node example_master"
proof -
  let ?q = "RegisterWorker 47900"
  let ?w = "example_wire_of ?q WorkerRegistered"
  let ?svc = "master_services example_surroundings (example_conn 1) ?w"
  have w: "request_codec ?w = one_message ?q" "response_codec ?w = one_message WorkerRegistered"
    by (simp_all add: example_wire_of_def)
  have tx: "open_tx fresh_tx" "sent fresh_tx = []" by (simp_all add: fresh_tx_def open_tx_def)
  obtain m where "control_handle ?svc example_master (DeviceId [5]) ?q = (Some WorkerRegistered, m)"
    by (simp add: master_handle_def try_send_def example_master_def QUEUE_def Let_def)
  note ex = example_exchange [of ?svc, OF _ _ this, unfolded master_services_fields, OF w]
  have "pending \<lparr>pending = encode_header control_header @ frame [0], rx_fault = []\<rparr> = snd (control_request (request_codec ?w) (response_codec ?w)
      (Inr (fresh_tx, \<lparr>pending = frame [0], rx_fault = []\<rparr>)) ?q)" using ex w by simp
  from registration_served [OF _ _ _ tx tx this conjunct2 [OF conjunct2 [OF ex]], of WorkerRegistered] conjunct1 [OF ex]
  have "join_queue m = [example_joined 1] \<and> master_node m = master_node example_master"
    by (simp add: w one_message example_master_def QUEUE_def example_joined_def)
  then show ?thesis by blast
qed

text \<open>The node of the example joins: it is sent the roster of \<open>provisioned_node\<close>.\<close>

lemma joining_introduces_witness: "knows provisioned_node (DeviceId [3])"
proof -
  let ?peers = "[example_peer [2], example_peer [3], example_peer [1]]"
  let ?i = "DeviceId [2]"
  let ?c = "\<lparr>wc_id = 1, wc_peer = ?i\<rparr>"
  let ?j = "\<lparr>joined_conn = ?c, joined_port = 47900\<rparr>"
  let ?ms = "after_answer example_surroundings ?c (RegisterWorker 47900) (new_master example_node)"
  let ?q = "Provision (roster_for ?i ?peers)"
  let ?w = "example_wire_of ?q (Provisioned 1 1)"
  let ?svc = "node_services example_surroundings (\<lambda>_ r. (None, r)) ?w"
  have ms: "master_reachable (\<lambda>_. ?i) example_surroundings example_node ?ms"
    by (rule master_reachable.stepped [OF master_reachable.started master_step.answered]) simp
  have queue: "join_queue (ms_master ?ms) = ?j # []" and live: "bt_get (ms_live (after_join ?j [] ?peers ?ms)) ?i = Some ?c"
    by (simp_all add: after_answer_def after_join_def master_handle_def try_send_def new_master_def join_def QUEUE_def Let_def bt_get_def)
  have w: "request_codec ?w = one_message ?q" "response_codec ?w = one_message (Provisioned 1 1)"
    by (simp_all add: example_wire_of_def)
  have svc: "request_codec ?svc = request_codec ?w" "response_codec ?svc = response_codec ?w"
    "control_handle ?svc = node_handle example_surroundings"
    by (simp_all add: node_services_def)
  have id: "node_id example_node = ?i" by (simp add: example_node_def node_new_def)
  have h: "control_handle ?svc example_node (DeviceId [1]) ?q = (Some (Provisioned 1 1), provisioned_node)"
    using example_provision unfolding svc by (simp add: node_handle_def)
  note ex = example_exchange [of ?svc, OF _ _ h, unfolded svc, OF w]
  have tx: "open_tx fresh_tx" "sent fresh_tx = []" by (simp_all add: fresh_tx_def open_tx_def)
  have keys: "\<forall>k k'. key_check example_surroundings k = Inr k' \<longrightarrow> k' = k"
    "\<forall>p \<in> set ?peers. paired_peer.device_id p = from_public_key (key_hash example_surroundings) (public_key p)"
    by (simp_all add: example_surroundings_def example_peer_def new_peer_def from_public_key_def)
  have law: "postcard_law (request_codec ?w)" "postcard_law (response_codec ?w)"
    unfolding w by (rule one_message(1))+
  have q: "fst (control_request (request_codec ?w) (response_codec ?w) (Inr (fresh_tx, \<lparr>pending = frame [0], rx_fault = []\<rparr>)) ?q) = Inr (Provisioned 1 1)"
    "pending \<lparr>pending = encode_header control_header @ frame [0], rx_fault = []\<rparr> =
      snd (control_request (request_codec ?w) (response_codec ?w) (Inr (fresh_tx, \<lparr>pending = frame [0], rx_fault = []\<rparr>)) ?q)"
    unfolding w using ex by simp_all
  from joining_introduces [OF ms queue live id keys law q(1) tx tx q(2) conjunct2 [OF conjunct2 [OF ex]]]
  show ?thesis by (simp add: example_peer_def new_peer_def from_public_key_def)
qed

end
