(* ===== verification/Distributed.thy ===== *)
theory Distributed
  imports Answered Served_Node Split_Generation
begin

text \<open>
  A generation over several devices: the pipeline of \<open>Generate\<close> at the master, and at each peer a node
  that serves the two streams the master opens to it, one for the load request and one for the steps.
  Each end reads what the other wrote. A stage behind such streams satisfies the contract of a stage
  with the shard its node opened, so a run that succeeds has produced the tokens of the undivided model.
\<close>

section \<open>The steps a node runs\<close>



section \<open>A stage behind a stream\<close>









section \<open>The streams between the devices\<close>






section \<open>Opening the chain\<close>






section \<open>Properties\<close>


section \<open>An example\<close>






















end
