(* ===== verification/Spec2Isabelle.thy ===== *)
theory Spec2Isabelle
  imports Stream_Header Trust Plan Candle_Shard Mesh Runtime Dispatch Split_Generation Worker_Loop Master_Loop Chat Host_Facts Commands Endpoint Served_Node
    Served_Rpc Served_Master Distributed
begin

text \<open>
  A verification development for \<open>lattice\<close>, a program that runs a language model over the machines of
  one owner. Devices identify themselves by a key, pair once over a six-digit code and from then on
  accept connections from each other only. A model's layers are divided among the devices, either as
  ranges that pass activations to one another (\<open>lattice-engine\<close>, \<open>generate\<close>), or as GPUs that a
  master's inference engine reaches through tunnels (\<open>chat\<close>, \<open>runtime\<close>). The program is three crates
  under \<open>src/crates\<close>; each theory models one of their files, or the part of one named below.

  \<^bold>\<open>Foundations.\<close>
  \<^item> \<open>Lattice_Prelude\<close>: integer widths, results (\<open>error + value\<close>), the routines of the standard library that
    several files use, and the collection \<open>result_simps\<close>.
  \<^item> \<open>Wire_Bytes\<close>: little-endian integers (\<open>fixed_codec\<close>), receiving and sending halves of a stream.
  \<^item> \<open>Ordered_Map\<close>: \<open>BTreeMap\<close> as the list of its entries in key order, behind the interface \<open>ordered_map\<close>.
  \<^item> \<open>Float32\<close>, \<open>Float64\<close>: the order of \<open>f32\<close> bit patterns; \<open>f64\<close> as rationals rounded to 53 bits.
  \<^item> \<open>Net_Addr\<close>: socket addresses and their text.

  \<^bold>\<open>Network\<close> (\<open>lattice-net\<close>).
  \<^item> \<open>Identity\<close> (\<open>identity.rs\<close>) and \<open>Trust\<close> (\<open>trust.rs\<close>): keys, device ids, the file of paired devices.
  \<^item> \<open>Frame_Codec\<close> (\<open>codec.rs\<close>), \<open>Stream_Header\<close> (\<open>stream.rs\<close>): frames and the header of a stream.
  \<^item> \<open>Endpoint\<close>, \<open>Transport\<close> (\<open>tls.rs\<close>, \<open>transport.rs\<close>): certificates, endpoints, connections and the
    exchange that opens them, streams and their admission.
  \<^item> \<open>Mesh\<close> (\<open>mesh.rs\<close>): the registry that keeps one connection for each peer, as an inductive step relation.
  \<^item> \<open>Pairing\<close> (\<open>pairing.rs\<close>), \<open>Pairing_Session\<close> (\<open>latticed/pairing_session.rs\<close>): the exchange over a code, and
    its confirmation once both ends have saved.
  \<^item> \<open>Discovery\<close> (\<open>discovery.rs\<close>): records published and read, browsing a window of events (\<open>browsing\<close>).
  \<^item> \<open>Control\<close> (\<open>control.rs\<close>), \<open>Probe\<close> (\<open>probe.rs\<close>), \<open>Rpc\<close> (\<open>rpc.rs\<close>), \<open>Activation_Stream\<close> (\<open>activation.rs\<close>): the
    services of a connection, both ends of each; \<open>Dispatch\<close> (\<open>dispatch.rs\<close>) hands every stream to its service.
  \<^item> \<open>Answered\<close>: the same exchanges seen from the end that got an answer, with nothing assumed of the messages.

  \<^bold>\<open>Engine\<close> (\<open>lattice-engine\<close>).
  \<^item> \<open>Abi\<close> (\<open>abi.rs\<close>, \<open>lib.rs\<close>), \<open>Facts\<close> (\<open>facts.rs\<close>): what crosses a shard boundary; what a model file states.
  \<^item> \<open>Llama\<close> (\<open>llama.rs\<close>), \<open>Candle_Shard\<close> (\<open>candle.rs\<close>): a range of layers, its caches, one session over it.

  \<^bold>\<open>Daemon\<close> (\<open>latticed\<close>).
  \<^item> \<open>Node\<close> (\<open>node.rs\<close>): a device answering for itself, with the thread that owns its shard.
  \<^item> \<open>Served_Node\<close>: a node behind a served connection, as control handler, executor and RPC handler at once. \<open>Served_Rpc\<close>: its RPC
    streams, down to the \<open>connect\<close> of the worker runtime. \<open>Served_Master\<close>: the service of a master.
  \<^item> \<open>Gpu_Device\<close>, \<open>Runtime\<close> (\<open>runtime.rs\<close>): the choice of a GPU; the inference process of a worker and the
    permit that guards it, shared by connection attempts and capability queries, as an inductive step
    relation over the atomic sections of the code.
  \<^item> \<open>Plan\<close> (\<open>chat/plan.rs\<close>), \<open>Chat\<close> (\<open>chat.rs\<close>): dividing the layers; finding workers, running the engine.
  \<^item> \<open>Generate\<close>, \<open>Split_Generation\<close> (\<open>generate.rs\<close>): the pipeline of shards and the decode loop; the same loop
    related to one undivided shard, through the contract of a stage (\<open>stage_contract\<close>).
  \<^item> \<open>Distributed\<close>: a stage behind the streams to a served node meets that contract, so the tokens of a run over
    several devices are those of the undivided shard.
  \<^item> \<open>Startup\<close> (\<open>startup.rs\<close>), \<open>Worker_Loop\<close> (\<open>startup/worker.rs\<close>), \<open>Master_Loop\<close> (\<open>startup/master.rs\<close>): the service of
    a master and of a worker.
  \<^item> \<open>Locate\<close>, \<open>Commands\<close> (\<open>main.rs\<close>), \<open>Host_Facts\<close> (\<open>host.rs\<close>): from a device to a connection; the commands.

  \<^bold>\<open>How the parts interact.\<close> \<open>Commands\<close> and the two loops open an endpoint, browse, connect through \<open>Mesh\<close> and
  serve. A served connection is \<open>Dispatch\<close>: control requests go to the \<open>control_handler\<close>, which is the node
  (\<open>node_control\<close>) or, on a master, the node with the registration of workers before it (\<open>master_control\<close>);
  activation streams go to the \<open>executor\<close>, which is the node's shard thread (\<open>node_executor\<close>); RPC streams
  go to \<open>Runtime\<close> (\<open>runtime_connect\<close>, a path of its steps), probes to \<open>Probe\<close>. \<open>Served_Node\<close> puts them together: a master that has layers loaded over a
  control stream and runs steps on an activation stream gets what the opened shard answers. \<open>Distributed\<close> puts the
  pipeline of \<open>Generate\<close> before such nodes. The shard thread holds a \<open>shard\<close>, provided by \<open>Candle_Shard\<close> (\<open>candle\<close>).
  The interfaces are locales; each states what its clients rely on, the clients' lemmas are proved in it,
  and it is interpreted where the code provides it. \<open>browsing\<close> is the contract of every loop over
  discovery events (discovering, locating, resolving, finding workers, finding masters): such a loop is
  a fold over the events of its window, so what a browse finds is a statement about what was last
  announced (\<open>live_at\<close>).

  \<^bold>\<open>How state is modelled.\<close> A structure is a record, an enumeration a datatype, an error a value of a sum
  type; an operation on shared state returns the new state. A panic is the \<open>None\<close> of an outer option, or a
  constructor of its own. Integers keep their width where arithmetic on them could overflow and are
  numbers where a bound is proved. What the world answers (a dial, a file, a child process, the clock, an
  elapsed time limit, the events a daemon delivers) is an argument or a field of a world record, so
  every order and every failure is covered by quantifying over it. Where tasks share state and
  interleave, as in \<open>Mesh\<close>, \<open>Runtime\<close> and \<open>Master_Loop\<close>, their atomic sections are the steps of an inductive
  relation and the properties are about the reachable states.

  \<^bold>\<open>What the lemmas show.\<close>
  \<^item> Codes are exact: integers, frames, headers, ids, records, introductions are read back as they were
    written, and nothing else is accepted.
  \<^item> Trust is by the exact key: connections, pairings and stores name a device only with the key that was
    checked; pairing is mutual and authentic; provisioning only adds.
  \<^item> Registries are exact: one live connection for each peer, the latest registration of every worker, one
    inference process and only for the registered master, one user of the GPU at a time.
  \<^item> Division is sound: the planner finds a division exactly when there is one, without overflow; a chain
    of shards computes what one shard over all layers computes, with the wire in between; a generation
    spread over devices yields the tokens of one device.
  \<^item> Every command ends in one of its outcomes, on every branch, and what it leaves behind is stated.

  \<^bold>\<open>Bounds and termination.\<close> No function carries fuel. Loops over lists are structural; browsing loops end
  because every turn takes an event of the window; decoding ends because it counts tokens; copying ends
  because every turn takes a chunk. The loops that serve for ever are runs over a list of turns or steps,
  and their properties hold for every such list.

  \<^bold>\<open>Other packages.\<close> \<open>quinn\<close>, \<open>rustls\<close>, \<open>x509-parser\<close>, \<open>rcgen\<close>, \<open>ed25519-dalek\<close>, \<open>spake2\<close>, \<open>hmac\<close>, \<open>sha2\<close>, \<open>hex\<close>,
  \<open>postcard\<close>, \<open>serde_json\<close>, \<open>mdns-sd\<close>, \<open>half\<close> and \<open>candle\<close> are arguments. What is used of them is stated by
  named laws (\<open>hex_laws\<close>, \<open>pem_laws\<close>, \<open>json_laws\<close>, \<open>postcard_law\<close>, \<open>ack_law\<close>, \<open>tls_law\<close>, \<open>certificate_law\<close>, \<open>spake_law\<close>,
  \<open>v6_law\<close>, \<open>add_law\<close>, \<open>wire_law\<close>), each satisfied by a concrete function in the witnesses of the theorems
  that assume it.

  \<^bold>\<open>Not modelled.\<close> Printing and the parsing of the command line (\<open>clap\<close>); the scheduling of \<open>tokio\<close>, beyond the
  interleavings named above: the streams of one connection run one after another in the order they were
  accepted; the numerical kernels of \<open>candle\<close> and of the external engine; the firewall script and the
  scripts beside the crates; the tests and the benchmarks.
\<close>

end
